(* ===== verification/Ecmh_Prelude.thy ===== *)
theory Ecmh_Prelude
  imports Main "HOL-Library.Word"
begin

unbundle bit_operations_syntax

text \<open>
  Shared vocabulary of the development: the C integer types as words, the faults a C
  statement can end in, the sequencing of fallible steps, bounds-checked access to byte
  buffers, byte order, and the generic list lemmas that the component theories rest on.

  The modelled host is a 64-bit little-endian machine, the platform of the Linux build.
\<close>

named_theorems layout \<open>struct sizes and protocol constants, unfolded together\<close>
named_theorems frame \<open>what an operation leaves unchanged\<close>

section \<open>C integers and faults\<close>

type_synonym u8 = "8 word"
type_synonym u16 = "16 word"
type_synonym u32 = "32 word"
type_synonym u64 = "64 word"
type_synonym bytes = "u8 list"

text \<open>
  The ways in which a run of the C code stops having a defined result: an access outside of
  the object it is made to, the use of a null pointer, and the daemon's own \<open>exit(-1)\<close>.
\<close>

datatype fault = OutOfBounds | NullDeref | ExitFailure

type_synonym 'a result = "fault + 'a"

definition rbind :: "'a result \<Rightarrow> ('a \<Rightarrow> 'b result) \<Rightarrow> 'b result" where
  "rbind m f = (case m of Inl e \<Rightarrow> Inl e | Inr x \<Rightarrow> f x)"

lemma rbind_simps [simp]:
  "rbind (Inl e) f = Inl e"
  "rbind (Inr x) f = f x"
  by (simp_all add: rbind_def)

lemma rbind_eq_Inr [simp]:
  "rbind m f = Inr y \<longleftrightarrow> (\<exists>x. m = Inr x \<and> f x = Inr y)"
  by (cases m) auto

lemma rbind_eq_Inl:
  "rbind m f = Inl e \<longleftrightarrow> m = Inl e \<or> (\<exists>x. m = Inr x \<and> f x = Inl e)"
  by (cases m) auto

lemma rbind_cong [fundef_cong]:
  assumes "m = m'" and "\<And>x. m' = Inr x \<Longrightarrow> f x = f' x"
  shows "rbind m f = rbind m' f'"
  using assms by (cases m') auto

text \<open>A C loop over the elements of a list, left at the first fault.\<close>

fun foldM :: "('a \<Rightarrow> 's \<Rightarrow> 's result) \<Rightarrow> 'a list \<Rightarrow> 's \<Rightarrow> 's result" where
  "foldM f [] s = Inr s"
| "foldM f (x # xs) s = rbind (f x s) (foldM f xs)"

lemma foldM_invariant:
  assumes "foldM f xs s = Inr t" and "P s"
    and "\<And>x u v. x \<in> set xs \<Longrightarrow> P u \<Longrightarrow> f x u = Inr v \<Longrightarrow> P v"
  shows "P t"
  using assms by (induction xs arbitrary: s) auto

lemma foldM_total:
  assumes "P s"
    and "\<And>x u. x \<in> set xs \<Longrightarrow> P u \<Longrightarrow> \<exists>v. f x u = Inr v \<and> P v"
  shows "\<exists>t. foldM f xs s = Inr t \<and> P t"
  using assms
proof (induction xs arbitrary: s)
  case Nil
  then show ?case by simp
next
  case (Cons x xs)
  then obtain v where v: "f x s = Inr v" "P v"
    by (metis list.set_intros(1))
  with Cons.IH [of v] Cons.prems show ?case by simp
qed

lemma foldM_append: "foldM f (xs @ ys) s = rbind (foldM f xs s) (foldM f ys)"
proof (induction xs arbitrary: s)
  case (Cons x xs)
  then show ?case by (cases "f x s") auto
qed simp

section \<open>Byte buffers\<close>

text \<open>
  A pointer into a buffer is an offset. \<open>rd\<close> and \<open>wr\<close> are the reads and the
  \<open>memcpy\<close>s of the code; what lies outside of the object is a fault.
\<close>

definition rd :: "bytes \<Rightarrow> nat \<Rightarrow> nat \<Rightarrow> bytes result" where
  "rd buf a n = (if a + n \<le> length buf then Inr (take n (drop a buf)) else Inl OutOfBounds)"

definition wr :: "bytes \<Rightarrow> nat \<Rightarrow> bytes \<Rightarrow> bytes result" where
  "wr buf a bs = (if a + length bs \<le> length buf
     then Inr (take a buf @ bs @ drop (a + length bs) buf) else Inl OutOfBounds)"

definition rd8 :: "bytes \<Rightarrow> nat \<Rightarrow> u8 result" where
  "rd8 buf a = (if a < length buf then Inr (buf ! a) else Inl OutOfBounds)"

lemma rd_InrD: "rd buf a n = Inr bs \<Longrightarrow> length bs = n \<and> a + n \<le> length buf"
  by (auto simp: rd_def split: if_splits)

lemma rd_Inr: "a + n \<le> length buf \<Longrightarrow> rd buf a n = Inr (take n (drop a buf))"
  by (simp add: rd_def)

lemma rd8_Inr: "a < length buf \<Longrightarrow> rd8 buf a = Inr (buf ! a)"
  by (simp add: rd8_def)

lemma wr_length: "wr buf a bs = Inr buf' \<Longrightarrow> length buf' = length buf"
  by (auto simp: wr_def split: if_splits)

lemma wr_Inr: "a + length bs \<le> length buf \<Longrightarrow> wr buf a bs = Inr (take a buf @ bs @ drop (a + length bs) buf)"
  by (simp add: wr_def)

lemma wr_nth:
  assumes "wr buf a bs = Inr buf'" and "i < length buf"
  shows "buf' ! i = (if a \<le> i \<and> i < a + length bs then bs ! (i - a) else buf ! i)"
  using assms by (auto simp: wr_def nth_append min_def split: if_splits)

lemma rd_wr_same:
  assumes "wr buf a bs = Inr buf'"
  shows "rd buf' a (length bs) = Inr bs"
  using assms by (auto simp: wr_def rd_def split: if_splits)

lemma rd_wr_other:
  assumes "wr buf a bs = Inr buf'" and "b + n \<le> a \<or> a + length bs \<le> b"
  shows "rd buf' b n = rd buf b n"
proof (cases "b + n \<le> length buf")
  case True
  have len: "length buf' = length buf" using assms(1) by (rule wr_length)
  have "take n (drop b buf') = take n (drop b buf)"
    by (rule nth_equalityI)
      (use True len assms(2) in \<open>auto simp: wr_nth [OF assms(1)]\<close>)
  with True len show ?thesis by (simp add: rd_def)
next
  case False
  with wr_length [OF assms(1)] show ?thesis by (simp add: rd_def)
qed

section \<open>Byte order\<close>

text \<open>A 16-bit load and store of the little-endian host, and the library's byte swaps.\<close>

definition le16 :: "u8 \<Rightarrow> u8 \<Rightarrow> u16" where
  "le16 b0 b1 = ucast b0 OR push_bit 8 (ucast b1)"

definition le16_bytes :: "u16 \<Rightarrow> bytes" where
  "le16_bytes x = [ucast x, ucast (drop_bit 8 x)]"

definition htons :: "u16 \<Rightarrow> u16" where
  "htons x = push_bit 8 x OR drop_bit 8 x"

abbreviation ntohs :: "u16 \<Rightarrow> u16" where
  "ntohs \<equiv> htons"

definition rd16 :: "bytes \<Rightarrow> nat \<Rightarrow> u16 result" where
  "rd16 buf a = rbind (rd8 buf a) (\<lambda>b0. rbind (rd8 buf (a + 1)) (\<lambda>b1. Inr (le16 b0 b1)))"

text \<open>Reading behind a prefix of the buffer.\<close>

lemma rd_behind:
  assumes "length pre = n"
  shows "rd (pre @ b) (n + k) m = rd b k m" and "rd8 (pre @ b) (n + k) = rd8 b k" and "rd16 (pre @ b) (n + k) = rd16 b k"
proof -
  show rd8: "rd8 (pre @ b) (n + k) = rd8 b k" for k using assms by (auto simp: rd8_def nth_append)
  show "rd (pre @ b) (n + k) m = rd b k m" using assms by (auto simp: rd_def)
  show "rd16 (pre @ b) (n + k) = rd16 b k" using rd8 [of k] rd8 [of "k + 1"] by (simp add: rd16_def add.assoc)
qed

lemma length_le16_bytes [simp]: "length (le16_bytes x) = 2"
  by (simp add: le16_bytes_def)

lemma htons_htons [simp]: "htons (htons x) = x"
  by (rule bit_word_eqI) (auto simp: htons_def bit_simps)

lemma le16_le16_bytes: "le16 (le16_bytes x ! 0) (le16_bytes x ! 1) = x"
  by (rule bit_word_eqI) (auto simp: le16_def le16_bytes_def bit_simps)

lemma bit_u8_lt: "bit (b :: u8) n \<Longrightarrow> n < 8"
  using bit_imp_le_length [of b n] by simp

lemma le16_bytes_le16 [simp]: "le16_bytes (le16 b0 b1) = [b0, b1]"
  by (auto simp: le16_def le16_bytes_def bit_simps intro!: bit_word_eqI dest: bit_u8_lt)

lemma htons_le16: "htons (le16 b0 b1) = le16 b1 b0"
  by (rule bit_word_eqI) (auto simp: htons_def le16_def bit_simps dest: bit_u8_lt)

lemma unat_u8_lt: "unat (b :: u8) < 256"
  using unsigned_less [of b, where ?'a = nat] by simp

lemma unat_le16: "unat (le16 b0 b1) = unat b0 + 256 * unat b1"
proof -
  have disj: "(ucast b0 :: u16) AND push_bit 8 (ucast b1) = 0"
    by (rule bit_word_eqI) (auto simp: bit_simps dest: bit_u8_lt)
  have "le16 b0 b1 = (ucast b0 :: u16) + push_bit 8 (ucast b1)"
    unfolding le16_def using disj by (simp add: disjunctive_add_eq_or)
  also have "\<dots> = (of_nat (unat b0 + 256 * unat b1) :: u16)"
    by (simp add: push_bit_eq_mult)
  finally show ?thesis
    using unat_u8_lt [of b0] unat_u8_lt [of b1] by (simp only: unat_of_nat) simp
qed

section \<open>First match in a list\<close>

text \<open>
  A pointer returned by one of the search loops designates the first element that
  satisfies the loop's test; writing through it updates that element.
\<close>

fun upd_first :: "('a \<Rightarrow> bool) \<Rightarrow> ('a \<Rightarrow> 'a) \<Rightarrow> 'a list \<Rightarrow> 'a list" where
  "upd_first P f [] = []"
| "upd_first P f (x # xs) = (if P x then f x # xs else x # upd_first P f xs)"

fun del_first :: "('a \<Rightarrow> bool) \<Rightarrow> 'a list \<Rightarrow> 'a list" where
  "del_first P [] = []"
| "del_first P (x # xs) = (if P x then xs else x # del_first P xs)"

lemma length_upd_first [simp]: "length (upd_first P f xs) = length xs"
  by (induction xs) auto

lemma map_upd_first:
  assumes "\<And>x. x \<in> set xs \<Longrightarrow> P x \<Longrightarrow> k (f x) = k x"
  shows "map k (upd_first P f xs) = map k xs"
  using assms by (induction xs) auto

lemma set_upd_first:
  "set (upd_first P f xs) \<subseteq> set xs \<union> {f x | x. x \<in> set xs \<and> P x}"
  by (induction xs) auto

lemma all_upd_first:
  "\<forall>x \<in> set xs. P x \<Longrightarrow> (\<And>x. find Q xs = Some x \<Longrightarrow> P (f x)) \<Longrightarrow> \<forall>x \<in> set (upd_first Q f xs). P x"
proof (induction xs)
  case (Cons y ys)
  then show ?case by (cases "Q y") simp_all
qed simp

lemma find_upd_first:
  assumes "\<And>x. x \<in> set xs \<Longrightarrow> P x \<Longrightarrow> P (f x)"
  shows "find P (upd_first P f xs) = map_option f (find P xs)"
  using assms by (induction xs) auto

lemma find_upd_first_other:
  assumes "\<And>x. x \<in> set xs \<Longrightarrow> P x \<Longrightarrow> \<not> Q x \<and> \<not> Q (f x)"
  shows "find Q (upd_first P f xs) = find Q xs"
  using assms by (induction xs) auto

lemma upd_first_append_new:
  "\<forall>x \<in> set xs. \<not> P x \<Longrightarrow> P y \<Longrightarrow> upd_first P f (xs @ [y]) = xs @ [f y]"
  by (induction xs) auto

lemma set_del_first: "set (del_first P xs) \<subseteq> set xs"
  by (induction xs) auto

lemma length_del_first: "\<exists>x \<in> set xs. P x \<Longrightarrow> Suc (length (del_first P xs)) = length xs"
  by (induction xs) auto

lemma distinct_map_del_first: "distinct (map k xs) \<Longrightarrow> distinct (map k (del_first P xs))"
proof (induction xs)
  case (Cons x xs)
  then show ?case using set_del_first [of P xs] by auto
qed simp

lemma find_append: "find P (xs @ ys) = (case find P xs of None \<Rightarrow> find P ys | Some x \<Rightarrow> Some x)"
  by (induction xs) auto

lemma find_Some_in: "find P xs = Some x \<Longrightarrow> x \<in> set xs \<and> P x"
  by (induction xs) (auto split: if_splits)

lemma upd_first_None: "find P xs = None \<Longrightarrow> upd_first P f xs = xs"
  by (induction xs) (auto split: if_splits)

end
