(* ===== verification/Linklist.thy ===== *)
theory Linklist
  imports Ecmh_Prelude
begin

text \<open>
  The generic linked list of \<open>linklist.c\<close> and \<open>linklist.h\<close>.

  The first half is the pointer program: nodes in a heap, a header with head, tail and
  count, the operations with every pointer they read and write, and the two iteration
  macros. The second half is what the rest of ecmh relies on: a list with a counter. The
  relation \<open>list_rep\<close> ties the two, and every operation of the pointer program is shown to
  carry out the operation of the counted list.
\<close>

section \<open>The pointer program\<close>

text \<open>A null pointer is \<open>None\<close>. The \<open>void *\<close> data of a node may be null too.\<close>

type_synonym ptr = "nat option"

record 'a listnode =
  ln_next :: ptr
  ln_prev :: ptr
  ln_data :: "'a option"

type_synonym 'a heap = "nat \<rightharpoonup> 'a listnode"

text \<open>\<open>l_del\<close> says whether a destructor is installed; what it is called on is a result.\<close>

record list_hdr =
  l_head :: ptr
  l_tail :: ptr
  l_count :: int
  l_del :: bool

definition deref :: "'a heap \<Rightarrow> ptr \<Rightarrow> 'a listnode result" where
  "deref h p = (case p of None \<Rightarrow> Inl NullDeref
     | Some a \<Rightarrow> (case h a of None \<Rightarrow> Inl OutOfBounds | Some n \<Rightarrow> Inr n))"

definition store :: "'a heap \<Rightarrow> ptr \<Rightarrow> ('a listnode \<Rightarrow> 'a listnode) \<Rightarrow> 'a heap result" where
  "store h p f = rbind (deref h p) (\<lambda>n. Inr (h(the p \<mapsto> f n)))"

text \<open>\<open>list_new\<close>: the result of \<open>calloc\<close> is zeroed, or null.\<close>

definition list_new :: "bool \<Rightarrow> list_hdr option" where
  "list_new ok = (if ok then Some \<lparr>l_head = None, l_tail = None, l_count = 0, l_del = False\<rparr>
                  else None)"

text \<open>\<open>listnode_new\<close> with the address that \<open>calloc\<close> gives, or null.\<close>

definition listnode_new :: "ptr \<Rightarrow> 'a heap \<Rightarrow> 'a heap" where
  "listnode_new p h = (case p of None \<Rightarrow> h
     | Some a \<Rightarrow> h(a \<mapsto> \<lparr>ln_next = None, ln_prev = None, ln_data = None\<rparr>))"

definition listnode_free :: "nat \<Rightarrow> 'a heap \<Rightarrow> 'a heap" where
  "listnode_free a h = h(a := None)"

definition listnode_add ::
    "ptr \<Rightarrow> 'a heap \<Rightarrow> list_hdr \<Rightarrow> 'a option \<Rightarrow> ('a heap \<times> list_hdr) result" where
  "listnode_add p h l v =
     (let h0 = listnode_new p h in
      if p = None then Inr (h0, l)
      else rbind (store h0 p (\<lambda>n. n\<lparr>ln_prev := l_tail l, ln_data := v\<rparr>)) (\<lambda>h1.
        rbind (if l_head l = None then Inr (h1, l\<lparr>l_head := p\<rparr>)
               else rbind (store h1 (l_tail l) (\<lambda>n. n\<lparr>ln_next := p\<rparr>)) (\<lambda>h2. Inr (h2, l)))
          (\<lambda>(h3, l1).
             let l2 = l1\<lparr>l_tail := p\<rparr>;
                 l3 = (if l_count l2 < 0 then l2\<lparr>l_count := 0\<rparr> else l2)
             in Inr (h3, l3\<lparr>l_count := l_count l3 + 1\<rparr>))))"

definition list_delete_node ::
    "'a heap \<Rightarrow> list_hdr \<Rightarrow> nat \<Rightarrow> ('a heap \<times> list_hdr) result" where
  "list_delete_node h l a =
     rbind (deref h (Some a)) (\<lambda>n.
     rbind (if ln_prev n \<noteq> None
            then rbind (store h (ln_prev n) (\<lambda>m. m\<lparr>ln_next := ln_next n\<rparr>)) (\<lambda>h1. Inr (h1, l))
            else Inr (h, l\<lparr>l_head := ln_next n\<rparr>)) (\<lambda>(h1, l1).
     rbind (deref h1 (Some a)) (\<lambda>n1.
     rbind (if ln_next n1 \<noteq> None
            then rbind (store h1 (ln_next n1) (\<lambda>m. m\<lparr>ln_prev := ln_prev n1\<rparr>)) (\<lambda>h2. Inr (h2, l1))
            else Inr (h1, l1\<lparr>l_tail := ln_prev n1\<rparr>)) (\<lambda>(h2, l2).
     Inr (listnode_free a h2, l2\<lparr>l_count := l_count l2 - 1\<rparr>)))))"

text \<open>
  The loop that the two delete-all routines share. The fuel bounds the number of rounds;
  \<open>None\<close> is a loop that has not ended by then. The list of the third result is what the
  destructor is called on, in order.
\<close>

fun delete_nodes ::
    "nat \<Rightarrow> bool \<Rightarrow> 'a heap \<Rightarrow> ptr \<Rightarrow> ('a heap \<times> 'a option list) result option" where
  "delete_nodes 0 d h p = None"
| "delete_nodes (Suc fuel) d h p =
     (case p of None \<Rightarrow> Some (Inr (h, []))
      | Some a \<Rightarrow>
         (case deref h p of Inl e \<Rightarrow> Some (Inl e)
          | Inr n \<Rightarrow>
             map_option (\<lambda>r. rbind r (\<lambda>(h', ds). Inr (h', if d then ln_data n # ds else ds)))
               (delete_nodes fuel d (listnode_free a h) (ln_next n))))"

definition list_delete_all_node ::
    "nat \<Rightarrow> 'a heap \<Rightarrow> list_hdr \<Rightarrow> ('a heap \<times> list_hdr \<times> 'a option list) result option" where
  "list_delete_all_node fuel h l =
     map_option (\<lambda>r. rbind r (\<lambda>(h', ds).
         Inr (h', l\<lparr>l_head := None, l_tail := None, l_count := 0\<rparr>, ds)))
       (delete_nodes fuel (l_del l) h (l_head l))"

definition list_delete ::
    "nat \<Rightarrow> 'a heap \<Rightarrow> list_hdr \<Rightarrow> ('a heap \<times> 'a option list) result option" where
  "list_delete fuel h l = delete_nodes fuel (l_del l) h (l_head l)"

text \<open>The data that the body of \<open>LIST_LOOP\<close> sees: null data is skipped.\<close>

fun list_loop :: "nat \<Rightarrow> 'a heap \<Rightarrow> ptr \<Rightarrow> 'a list result option" where
  "list_loop 0 h p = None"
| "list_loop (Suc fuel) h p =
     (if p = None then Some (Inr [])
      else (case deref h p of Inl e \<Rightarrow> Some (Inl e)
        | Inr n \<Rightarrow> map_option (\<lambda>r. rbind r (\<lambda>vs.
             Inr (case ln_data n of None \<Rightarrow> vs | Some v \<Rightarrow> v # vs)))
           (list_loop fuel h (ln_next n))))"

text \<open>
  \<open>LIST_LOOP2\<close> with a body that deletes the node when \<open>P\<close> holds of its data: the
  successor is read before the body runs.
\<close>

fun list_loop2_delete ::
    "nat \<Rightarrow> ('a \<Rightarrow> bool) \<Rightarrow> 'a heap \<Rightarrow> list_hdr \<Rightarrow> ptr \<Rightarrow> ('a heap \<times> list_hdr) result option" where
  "list_loop2_delete 0 P h l m = None"
| "list_loop2_delete (Suc fuel) P h l m =
     (case m of None \<Rightarrow> Some (Inr (h, l))
      | Some a \<Rightarrow>
         (case deref h m of Inl e \<Rightarrow> Some (Inl e)
          | Inr n \<Rightarrow>
             (case (case ln_data n of None \<Rightarrow> Inr (h, l)
                     | Some v \<Rightarrow> if P v then list_delete_node h l a else Inr (h, l)) of
                Inl e \<Rightarrow> Some (Inl e)
              | Inr (h', l') \<Rightarrow> list_loop2_delete fuel P h' l' (ln_next n))))"

text \<open>
  \<open>LIST_LOOP\<close> with a body that deletes the first node whose data satisfies \<open>P\<close> and leaves
  the loop, as \<open>subscr_unsub\<close> does: the first result tells whether there was one.
\<close>

fun list_loop_delete_first ::
    "nat \<Rightarrow> ('a \<Rightarrow> bool) \<Rightarrow> 'a heap \<Rightarrow> list_hdr \<Rightarrow> ptr \<Rightarrow> (bool \<times> 'a heap \<times> list_hdr) result option" where
  "list_loop_delete_first 0 P h l p = None"
| "list_loop_delete_first (Suc fuel) P h l p =
     (case p of None \<Rightarrow> Some (Inr (False, h, l))
      | Some a \<Rightarrow>
         (case deref h p of Inl e \<Rightarrow> Some (Inl e)
          | Inr n \<Rightarrow>
             (if (case ln_data n of None \<Rightarrow> False | Some v \<Rightarrow> P v)
              then Some (rbind (list_delete_node h l a) (\<lambda>(h', l'). Inr (True, h', l')))
              else list_loop_delete_first fuel P h l (ln_next n))))"

section \<open>Representation\<close>

text \<open>
  \<open>seg h pv cur ns lst nx\<close>: from \<open>cur\<close> the heap holds the nodes \<open>ns\<close> (address and data),
  linked both ways; the node before the segment is \<open>pv\<close>, its last node \<open>lst\<close> and the node
  after it \<open>nx\<close>.
\<close>

fun seg :: "'a heap \<Rightarrow> ptr \<Rightarrow> ptr \<Rightarrow> (nat \<times> 'a option) list \<Rightarrow> ptr \<Rightarrow> ptr \<Rightarrow> bool" where
  "seg h pv cur [] lst nx \<longleftrightarrow> cur = nx \<and> lst = pv"
| "seg h pv cur ((a, v) # ns) lst nx \<longleftrightarrow> cur = Some a \<and>
     (case h a of None \<Rightarrow> False
      | Some n \<Rightarrow> ln_prev n = pv \<and> ln_data n = v \<and> seg h (Some a) (ln_next n) ns lst nx)"

definition list_rep :: "'a heap \<Rightarrow> list_hdr \<Rightarrow> (nat \<times> 'a option) list \<Rightarrow> bool" where
  "list_rep h l ns \<longleftrightarrow> seg h None (l_head l) ns (l_tail l) None \<and> distinct (map fst ns)"

lemma seg_append:
  "seg h pv cur (ns @ ms) lst nx \<longleftrightarrow>
     (\<exists>mid cur'. seg h pv cur ns mid cur' \<and> seg h mid cur' ms lst nx)"
proof (induction ns arbitrary: pv cur)
  case (Cons n ns)
  then show ?case by (cases n; cases "h (fst n)") auto
qed simp

lemma seg_frame:
  "a \<notin> fst ` set ns \<Longrightarrow> seg (h(a := x)) pv cur ns lst nx \<longleftrightarrow> seg h pv cur ns lst nx"
  by (induction ns arbitrary: pv cur) (auto split: option.splits)

lemma seg_dom: "seg h pv cur ns lst nx \<Longrightarrow> fst ` set ns \<subseteq> dom h"
proof (induction ns arbitrary: pv cur)
  case (Cons n ns)
  then show ?case by (cases n; cases "h (fst n)") fastforce+
qed simp

lemma seg_snoc:
  "seg h pv cur (ns @ [(a, v)]) lst nx \<longleftrightarrow> lst = Some a \<and>
     (case h a of None \<Rightarrow> False
      | Some n \<Rightarrow> ln_data n = v \<and> ln_next n = nx \<and> seg h pv cur ns (ln_prev n) (Some a))"
  by (auto simp: seg_append split: option.splits)

lemma seg_Nil_iff: "seg h pv cur ns lst None \<Longrightarrow> cur = None \<longleftrightarrow> ns = []"
  by (cases ns) auto

text \<open>The last node of a segment points to what follows it, so it can be redirected.\<close>

lemma seg_redirect_last:
  assumes "seg h pv cur (ns @ [(t, w)]) lst nx" and "distinct (map fst (ns @ [(t, w)]))"
    and "h t = Some n"
  shows "seg (h(t \<mapsto> n\<lparr>ln_next := nx'\<rparr>)) pv cur (ns @ [(t, w)]) lst nx'"
  using assms by (auto simp: seg_snoc seg_frame)

lemma seg_redirect_first:
  assumes "seg h pv (Some b) ((b, w) # ns) lst nx" and "b \<notin> fst ` set ns" and "h b = Some n"
  shows "seg (h(b \<mapsto> n\<lparr>ln_prev := pv'\<rparr>)) pv' (Some b) ((b, w) # ns) lst nx"
  using assms by (auto simp: seg_frame)

lemma list_rep_empty:
  "l_head l = None \<Longrightarrow> l_tail l = None \<Longrightarrow> list_rep h l []"
  by (simp add: list_rep_def)

section \<open>The operations on a represented list\<close>

lemma deref_Some [simp]: "h a = Some n \<Longrightarrow> deref h (Some a) = Inr n"
  by (simp add: deref_def)

lemma store_Some [simp]: "h a = Some n \<Longrightarrow> store h (Some a) f = Inr (h(a \<mapsto> f n))"
  by (simp add: store_def)

lemma listnode_add_null: "listnode_add None h l v = Inr (h, l)"
  by (simp add: listnode_add_def listnode_new_def)

lemma listnode_add_rep:
  assumes rep: "list_rep h l ns" and fresh: "h a = None"
  shows "\<exists>h' l'. listnode_add (Some a) h l v = Inr (h', l') \<and> list_rep h' l' (ns @ [(a, v)]) \<and>
    l_count l' = (if l_count l < 0 then 0 else l_count l) + 1 \<and> l_del l' = l_del l \<and>
    dom h' = insert a (dom h)"
proof (cases ns rule: rev_cases)
  case Nil
  with rep have "l_head l = None" "l_tail l = None" by (auto simp: list_rep_def)
  then show ?thesis
    by (simp add: listnode_add_def listnode_new_def list_rep_def Let_def Nil)
next
  case (snoc ns' tw)
  obtain t w where tw: "tw = (t, w)" by (cases tw)
  from rep have s: "seg h None (l_head l) (ns' @ [(t, w)]) (l_tail l) None"
    and d: "distinct (map fst (ns' @ [(t, w)]))"
    by (auto simp: list_rep_def snoc tw)
  from s obtain n where n: "h t = Some n" and tail: "l_tail l = Some t"
    by (auto simp: seg_snoc split: option.splits)
  from s have hd: "l_head l \<noteq> None" using seg_Nil_iff by fastforce
  have fr: "a \<notin> fst ` set (ns' @ [(t, w)])" using seg_dom [OF s] fresh by auto
  define new where "new = \<lparr>ln_next = None, ln_prev = Some t, ln_data = v\<rparr>"
  have "seg (h(a \<mapsto> new)) None (l_head l) (ns' @ [(t, w)]) (l_tail l) None"
    using s by (simp only: seg_frame [OF fr])
  then have "seg (h(a \<mapsto> new, t \<mapsto> n\<lparr>ln_next := Some a\<rparr>)) None (l_head l)
      (ns' @ [(t, w)]) (l_tail l) (Some a)"
    by (rule seg_redirect_last [OF _ d]) (use fr n in auto)
  then have "seg (h(a \<mapsto> new, t \<mapsto> n\<lparr>ln_next := Some a\<rparr>)) None (l_head l)
      ((ns' @ [(t, w)]) @ [(a, v)]) (Some a) None"
    unfolding seg_append [of _ _ _ "ns' @ [(t, w)]"]
    using fr by (auto simp: tail new_def)
  with n fr hd tail d show ?thesis
    by (auto simp: listnode_add_def listnode_new_def list_rep_def Let_def snoc tw new_def)
qed

text \<open>Taking a node out, first seen from its predecessor and then from its successor.\<close>

lemma unlink_prev:
  assumes "seg h None (l_head l) xs (ln_prev n) (Some a)" and "h a = Some n"
    and "seg h (Some a) (ln_next n) ys (l_tail l) None" and "distinct (map fst (xs @ (a, v) # ys))"
  shows "\<exists>h1 l1. (if ln_prev n \<noteq> None
       then rbind (store h (ln_prev n) (\<lambda>m. m\<lparr>ln_next := ln_next n\<rparr>)) (\<lambda>h1. Inr (h1, l))
       else Inr (h, l\<lparr>l_head := ln_next n\<rparr>)) = Inr (h1, l1) \<and>
     seg h1 None (l_head l1) xs (ln_prev n) (ln_next n) \<and> h1 a = Some n \<and>
     seg h1 (Some a) (ln_next n) ys (l_tail l1) None \<and>
     l_count l1 = l_count l \<and> l_del l1 = l_del l \<and> dom h1 = dom h"
proof (cases xs rule: rev_cases)
  case Nil
  with assms show ?thesis by auto
next
  case (snoc xs' pw)
  obtain p w where pw: "pw = (p, w)" by (cases pw)
  from assms(1) obtain m where m: "h p = Some m" and prev: "ln_prev n = Some p"
    by (auto simp: snoc pw seg_snoc split: option.splits)
  have d: "distinct (map fst (xs' @ [(p, w)]))" and p: "p \<noteq> a" "p \<notin> fst ` set ys"
    using assms(4) by (auto simp: snoc pw)
  have "seg (h(p \<mapsto> m\<lparr>ln_next := ln_next n\<rparr>)) None (l_head l) (xs' @ [(p, w)]) (ln_prev n) (ln_next n)"
    using assms(1) d m by (intro seg_redirect_last) (auto simp: snoc pw)
  with m p assms(2,3) show ?thesis
    by (simp add: snoc pw prev seg_frame insert_absorb domI)
qed

lemma unlink_next:
  assumes "seg h None (l_head l) xs (ln_prev n) (ln_next n)"
    and "seg h (Some a) (ln_next n) ys (l_tail l) None" and "distinct (map fst (xs @ (a, v) # ys))"
  shows "\<exists>h2 l2. (if ln_next n \<noteq> None
       then rbind (store h (ln_next n) (\<lambda>m. m\<lparr>ln_prev := ln_prev n\<rparr>)) (\<lambda>h2. Inr (h2, l))
       else Inr (h, l\<lparr>l_tail := ln_prev n\<rparr>)) = Inr (h2, l2) \<and>
     seg h2 None (l_head l2) xs (ln_prev n) (ln_next n) \<and>
     seg h2 (ln_prev n) (ln_next n) ys (l_tail l2) None \<and>
     l_count l2 = l_count l \<and> l_del l2 = l_del l \<and> dom h2 = dom h"
proof (cases ys)
  case Nil
  with assms show ?thesis by auto
next
  case (Cons bw ys')
  obtain b w where bw: "bw = (b, w)" by (cases bw)
  from assms(2) obtain m where m: "h b = Some m" and nx: "ln_next n = Some b"
    by (auto simp: Cons bw split: option.splits)
  have b: "b \<notin> fst ` set ys'" "b \<notin> fst ` set xs"
    using assms(3) by (auto simp: Cons bw)
  have "seg (h(b \<mapsto> m\<lparr>ln_prev := ln_prev n\<rparr>)) (ln_prev n) (Some b) ((b, w) # ys') (l_tail l) None"
    using assms(2) m b by (intro seg_redirect_first) (auto simp: Cons bw nx)
  with m b assms(1) show ?thesis
    by (simp add: Cons bw nx seg_frame insert_absorb domI)
qed

lemma list_delete_node_rep:
  assumes rep: "list_rep h l (xs @ (a, v) # ys)"
  shows "\<exists>h' l'. list_delete_node h l a = Inr (h', l') \<and> list_rep h' l' (xs @ ys) \<and>
    l_count l' = l_count l - 1 \<and> l_del l' = l_del l \<and> dom h' = dom h - {a}"
proof -
  from rep have d: "distinct (map fst (xs @ (a, v) # ys))" by (simp add: list_rep_def)
  from rep obtain n where n: "h a = Some n"
    and xs: "seg h None (l_head l) xs (ln_prev n) (Some a)"
    and ys: "seg h (Some a) (ln_next n) ys (l_tail l) None"
    by (auto simp: list_rep_def seg_append split: option.splits)
  from unlink_prev [OF xs n ys d] obtain h1 l1 where
    s1: "(if ln_prev n \<noteq> None
       then rbind (store h (ln_prev n) (\<lambda>m. m\<lparr>ln_next := ln_next n\<rparr>)) (\<lambda>h1. Inr (h1, l))
       else Inr (h, l\<lparr>l_head := ln_next n\<rparr>)) = Inr (h1, l1)"
    and xs1: "seg h1 None (l_head l1) xs (ln_prev n) (ln_next n)" and n1: "h1 a = Some n"
    and ys1: "seg h1 (Some a) (ln_next n) ys (l_tail l1) None"
    and c1: "l_count l1 = l_count l" "l_del l1 = l_del l" "dom h1 = dom h"
    by auto
  from unlink_next [OF xs1 ys1 d] obtain h2 l2 where
    s2: "(if ln_next n \<noteq> None
       then rbind (store h1 (ln_next n) (\<lambda>m. m\<lparr>ln_prev := ln_prev n\<rparr>)) (\<lambda>h2. Inr (h2, l1))
       else Inr (h1, l1\<lparr>l_tail := ln_prev n\<rparr>)) = Inr (h2, l2)"
    and xs2: "seg h2 None (l_head l2) xs (ln_prev n) (ln_next n)"
    and ys2: "seg h2 (ln_prev n) (ln_next n) ys (l_tail l2) None"
    and c2: "l_count l2 = l_count l1" "l_del l2 = l_del l1" "dom h2 = dom h1"
    by auto
  have "list_delete_node h l a = Inr (listnode_free a h2, l2\<lparr>l_count := l_count l2 - 1\<rparr>)"
    unfolding list_delete_node_def by (simp only: deref_Some [of h a n, OF n] deref_Some [of h1 a n, OF n1] rbind_simps s1 s2 prod.case)
  moreover have "list_rep (listnode_free a h2) (l2\<lparr>l_count := l_count l2 - 1\<rparr>) (xs @ ys)"
    using xs2 ys2 d by (auto simp: list_rep_def listnode_free_def seg_append seg_frame)
  ultimately show ?thesis
    using c1 c2 by (simp add: listnode_free_def)
qed

section \<open>The loops on a represented list\<close>

definition cur_of :: "(nat \<times> 'a option) list \<Rightarrow> ptr" where
  "cur_of ns = (case ns of [] \<Rightarrow> None | n # _ \<Rightarrow> Some (fst n))"

lemma cur_of_simps [simp]: "cur_of [] = None" "cur_of (n # ns) = Some (fst n)"
  by (simp_all add: cur_of_def)

lemma seg_cur: "seg h pv cur ns lst None \<Longrightarrow> cur = cur_of ns"
  by (cases ns) auto

lemma list_rep_head: "list_rep h l ns \<Longrightarrow> l_head l = cur_of ns"
  by (auto simp: list_rep_def dest: seg_cur)

lemma list_rep_node:
  assumes "list_rep h l (xs @ (a, v) # ys)"
  shows "\<exists>n. h a = Some n \<and> ln_data n = v \<and> ln_next n = cur_of ys"
  using assms by (auto simp: list_rep_def seg_append dest: seg_cur split: option.splits)

lemma list_loop_rep:
  assumes "list_rep h l (xs @ ns)" and "length ns < fuel"
  shows "list_loop fuel h (cur_of ns) = Some (Inr (List.map_filter snd ns))"
  using assms
proof (induction ns arbitrary: xs fuel)
  case Nil
  then show ?case by (cases fuel) (auto simp: map_filter_simps)
next
  case (Cons n ns)
  obtain a v where n: "n = (a, v)" by (cases n)
  with Cons.prems(1) list_rep_node obtain nd where
    nd: "h a = Some nd" "ln_data nd = v" "ln_next nd = cur_of ns" by blast
  obtain f where f: "fuel = Suc f" using Cons.prems(2) by (cases fuel) auto
  have "list_loop f h (cur_of ns) = Some (Inr (List.map_filter snd ns))"
    using Cons.IH [of "xs @ [n]" f] Cons.prems f by simp
  with nd show ?case
    by (cases v) (simp_all add: n f map_filter_simps deref_def)
qed

lemma delete_nodes_rep:
  assumes "seg h pv cur ns lst None" and "distinct (map fst ns)" and "length ns < fuel"
  shows "delete_nodes fuel d h cur =
    Some (Inr (h |` (- fst ` set ns), if d then map snd ns else []))"
  using assms
proof (induction ns arbitrary: h pv cur fuel)
  case Nil
  then show ?case by (cases fuel) auto
next
  case (Cons n ns)
  obtain a v where n: "n = (a, v)" by (cases n)
  with Cons.prems(1) obtain nd where
    nd: "cur = Some a" "h a = Some nd" "ln_data nd = v" "seg h (Some a) (ln_next nd) ns lst None"
    by (auto split: option.splits)
  obtain f where f: "fuel = Suc f" using Cons.prems(3) by (cases fuel) auto
  have "seg (h(a := None)) (Some a) (ln_next nd) ns lst None"
    using nd(4) Cons.prems(2) n by (subst seg_frame) auto
  then have
    "delete_nodes f d (h(a := None)) (ln_next nd) =
      Some (Inr ((h(a := None)) |` (- fst ` set ns), if d then map snd ns else []))"
    by (rule Cons.IH) (use Cons.prems f in simp_all)
  moreover have "(h(a := None)) |` (- fst ` set ns) = h |` (- fst ` set (n # ns))"
    by (auto simp: n restrict_map_def fun_eq_iff)
  ultimately show ?case using nd
    by (simp add: n f listnode_free_def deref_def)
qed

definition stays :: "('a \<Rightarrow> bool) \<Rightarrow> nat \<times> 'a option \<Rightarrow> bool" where
  "stays P n = (case snd n of None \<Rightarrow> True | Some v \<Rightarrow> \<not> P v)"

lemma list_loop2_delete_rep:
  assumes "list_rep h l (xs @ ns)" and "length ns < fuel"
  shows "\<exists>h' l'. list_loop2_delete fuel P h l (cur_of ns) = Some (Inr (h', l')) \<and>
    list_rep h' l' (xs @ filter (stays P) ns) \<and>
    l_count l' = l_count l - int (length (filter (\<lambda>n. \<not> stays P n) ns)) \<and> l_del l' = l_del l \<and> dom h' \<subseteq> dom h"
  using assms
proof (induction ns arbitrary: xs fuel h l)
  case Nil
  then show ?case by (cases fuel) auto
next
  case (Cons n ns)
  obtain a v where n: "n = (a, v)" by (cases n)
  with Cons.prems(1) list_rep_node obtain nd where
    nd: "h a = Some nd" "ln_data nd = v" "ln_next nd = cur_of ns" by blast
  obtain f where f: "fuel = Suc f" and lf: "length ns < f"
    using Cons.prems(2) by (cases fuel) auto
  show ?case
  proof (cases "stays P n")
    case True
    then have "(case v of None \<Rightarrow> Inr (h, l) | Some w \<Rightarrow>
        if P w then list_delete_node h l a else Inr (h, l)) = Inr (h, l)"
      by (auto simp: stays_def n split: option.splits)
    with Cons.IH [of h l "xs @ [n]" f] Cons.prems lf True nd show ?thesis
      by (auto simp: n f)
  next
    case False
    then obtain w where v: "v = Some w" "P w"
      by (auto simp: stays_def n split: option.splits)
    from list_delete_node_rep [OF Cons.prems(1) [unfolded n]] obtain h1 l1 where
      del: "list_delete_node h l a = Inr (h1, l1)" "list_rep h1 l1 (xs @ ns)"
        "l_count l1 = l_count l - 1" "l_del l1 = l_del l" "dom h1 = dom h - {a}"
      by auto
    from Cons.IH [OF del(2) lf] obtain h2 l2 where
      "list_loop2_delete f P h1 l1 (cur_of ns) = Some (Inr (h2, l2))"
      "list_rep h2 l2 (xs @ filter (stays P) ns)"
      "l_count l2 = l_count l1 - int (length (filter (\<lambda>n. \<not> stays P n) ns))"
      "l_del l2 = l_del l1" "dom h2 \<subseteq> dom h1"
      by blast
    moreover from this(5) del(5) have "dom h2 \<subseteq> dom h" by blast
    ultimately show ?thesis
      using del False nd v by (simp add: n f)
  qed
qed

lemma list_loop_delete_first_rep:
  assumes "list_rep h l (xs @ ns)" and "length ns < fuel"
  shows "\<exists>h' l'. list_loop_delete_first fuel P h l (cur_of ns) =
      Some (Inr (\<exists>n \<in> set ns. \<not> stays P n, h', l')) \<and>
    list_rep h' l' (xs @ del_first (\<lambda>n. \<not> stays P n) ns) \<and>
    l_count l' = l_count l - (if \<exists>n \<in> set ns. \<not> stays P n then 1 else 0) \<and> l_del l' = l_del l \<and>
    dom h' \<subseteq> dom h"
  using assms
proof (induction ns arbitrary: xs fuel)
  case Nil
  then show ?case by (cases fuel) auto
next
  case (Cons n ns)
  obtain a v where n: "n = (a, v)" by (cases n)
  with Cons.prems(1) list_rep_node obtain nd where
    nd: "h a = Some nd" "ln_data nd = v" "ln_next nd = cur_of ns" by blast
  obtain f where f: "fuel = Suc f" and lf: "length ns < f"
    using Cons.prems(2) by (cases fuel) auto
  show ?case
  proof (cases "stays P n")
    case True
    then have "(case v of None \<Rightarrow> False | Some w \<Rightarrow> P w) = False"
      by (auto simp: stays_def n split: option.splits)
    with Cons.IH [of "xs @ [n]" f] Cons.prems lf True nd show ?thesis
      by (auto simp: n f)
  next
    case False
    then have "(case v of None \<Rightarrow> False | Some w \<Rightarrow> P w) = True"
      by (auto simp: stays_def n split: option.splits)
    with list_delete_node_rep [OF Cons.prems(1) [unfolded n]] False nd show ?thesis
      by (auto simp: n f)
  qed
qed

section \<open>The counted list\<close>

text \<open>
  What the clients of \<open>linklist.c\<close> work with: the data in order, and the counter, which
  the clients may also set themselves. \<open>cl_add\<close> is told whether \<open>calloc\<close> gave a node.
\<close>

record 'a clist =
  nodes :: "'a list"
  count :: int

definition cl_new :: "'a clist" where
  "cl_new = \<lparr>nodes = [], count = 0\<rparr>"

definition cl_add :: "bool \<Rightarrow> 'a \<Rightarrow> 'a clist \<Rightarrow> 'a clist" where
  "cl_add ok x c = (if ok
     then \<lparr>nodes = nodes c @ [x], count = (if count c < 0 then 0 else count c) + 1\<rparr> else c)"

definition cl_delete_first :: "('a \<Rightarrow> bool) \<Rightarrow> 'a clist \<Rightarrow> 'a clist" where
  "cl_delete_first P c = (if find P (nodes c) = None then c
     else \<lparr>nodes = del_first P (nodes c), count = count c - 1\<rparr>)"

definition cl_loop2_delete :: "('a \<Rightarrow> bool) \<Rightarrow> 'a clist \<Rightarrow> 'a clist" where
  "cl_loop2_delete P c = \<lparr>nodes = filter (\<lambda>x. \<not> P x) (nodes c),
     count = count c - int (length (filter P (nodes c)))\<rparr>"

definition cl_delete_all :: "'a clist \<Rightarrow> 'a clist" where
  "cl_delete_all c = \<lparr>nodes = [], count = 0\<rparr>"

definition cl_upd :: "('a \<Rightarrow> bool) \<Rightarrow> ('a \<Rightarrow> 'a) \<Rightarrow> 'a clist \<Rightarrow> 'a clist" where
  "cl_upd P f c = c\<lparr>nodes := upd_first P f (nodes c)\<rparr>"

text \<open>The counter agrees with the list, or, with a marker, an empty list is marked by it.\<close>

definition cl_exact :: "'a clist \<Rightarrow> bool" where
  "cl_exact c \<longleftrightarrow> count c = int (length (nodes c))"

definition cl_marked :: "int \<Rightarrow> 'a clist \<Rightarrow> bool" where
  "cl_marked k c \<longleftrightarrow> cl_exact c \<or> nodes c = [] \<and> count c = k"

lemma cl_nodes [simp]:
  "nodes cl_new = []" "nodes (cl_add True x c) = nodes c @ [x]" "cl_add False x c = c"
  "nodes (cl_delete_all c) = []" "nodes (cl_upd P f c) = upd_first P f (nodes c)"
  "nodes (cl_loop2_delete P c) = filter (\<lambda>x. \<not> P x) (nodes c)"
  "count (cl_upd P f c) = count c" "count cl_new = 0" "count (cl_delete_all c) = 0"
  by (simp_all add: cl_new_def cl_add_def cl_delete_all_def cl_upd_def cl_loop2_delete_def)

lemma cl_nodes_delete_first [simp]:
  "nodes (cl_delete_first P c) = del_first P (nodes c)"
proof -
  have "find P xs = None \<Longrightarrow> del_first P xs = xs" for xs
    by (induction xs) (auto split: if_splits)
  then show ?thesis by (simp add: cl_delete_first_def)
qed

lemma cl_exact_ops [simp, intro]:
  "cl_exact cl_new" "cl_exact (cl_delete_all c)"
  "cl_exact c \<Longrightarrow> cl_exact (cl_add ok x c)"
  "cl_exact c \<Longrightarrow> cl_exact (cl_upd P f c)"
  by (auto simp: cl_exact_def cl_new_def cl_delete_all_def cl_add_def cl_upd_def)

lemma cl_exact_loop2 [intro]: "cl_exact c \<Longrightarrow> cl_exact (cl_loop2_delete P c)"
  using sum_length_filter_compl [of P "nodes c"]
  by (auto simp: cl_exact_def cl_loop2_delete_def)

lemma cl_exact_delete_first [intro]:
  assumes "cl_exact c"
  shows "cl_exact (cl_delete_first P c)"
proof (cases "\<exists>x \<in> set (nodes c). P x")
  case True
  with length_del_first [OF True] assms show ?thesis
    by (auto simp: cl_exact_def cl_delete_first_def find_None_iff)
next
  case False
  with assms show ?thesis by (auto simp: cl_delete_first_def find_None_iff)
qed

lemma cl_marked_ops [intro]:
  "cl_exact c \<Longrightarrow> cl_marked k c"
  "k < 0 \<Longrightarrow> cl_marked k c \<Longrightarrow> cl_marked k (cl_add ok x c)"
  "cl_marked k c \<Longrightarrow> cl_marked k (cl_upd P f c)"
  "cl_marked k c \<Longrightarrow> cl_marked k (cl_loop2_delete P c)"
  "cl_marked k c \<Longrightarrow> cl_marked k (cl_delete_first P c)"
  using cl_exact_loop2 [of c P] cl_exact_delete_first [of c P]
  by (auto simp: cl_marked_def cl_exact_def cl_add_def cl_upd_def cl_loop2_delete_def
      cl_delete_first_def)

section \<open>The pointer program implements the counted list\<close>

text \<open>
  A client of the list is a sequence of these operations. The provider's contract is a
  relation to the counted list that every operation keeps, without a fault.
\<close>

datatype 'a list_op = Add 'a | Purge "'a \<Rightarrow> bool" | DelFirst "'a \<Rightarrow> bool" | Clear

fun cl_op :: "'a list_op \<Rightarrow> 'a clist \<Rightarrow> 'a clist" where
  "cl_op (Add x) = cl_add True x"
| "cl_op (Purge P) = cl_loop2_delete P"
| "cl_op (DelFirst P) = cl_delete_first P"
| "cl_op Clear = cl_delete_all"

locale list_provider =
  fixes R :: "'s \<Rightarrow> 'a clist \<Rightarrow> bool"
    and step :: "'a list_op \<Rightarrow> 's \<Rightarrow> 's result"
    and iter :: "'s \<Rightarrow> 'a list result"
  assumes step_sim: "R s c \<Longrightarrow> \<exists>s'. step f s = Inr s' \<and> R s' (cl_op f c)"
    and iter_sim: "R s c \<Longrightarrow> iter s = Inr (nodes c)"
begin

lemma run_sim:
  assumes "R s c"
  shows "\<exists>s'. foldM step fs s = Inr s' \<and> R s' (fold cl_op fs c)"
  using assms
proof (induction fs arbitrary: s c)
  case (Cons f fs)
  from step_sim [OF Cons.prems] obtain t where "step f s = Inr t" "R t (cl_op f c)" by blast
  with Cons.IH [of t] show ?case by simp
qed simp

lemma run_iter:
  assumes "R s c" and "foldM step fs s = Inr s'"
  shows "iter s' = Inr (nodes (fold cl_op fs c))"
  using run_sim [OF assms(1), of fs] assms(2) iter_sim by auto

end

text \<open>
  The state of the pointer program: heap, header, and the address above all nodes from
  which the next node comes. Every loop gets as much fuel as the address range allows.
\<close>

type_synonym 'a hstate = "'a heap \<times> list_hdr \<times> nat"

definition h_rep :: "'a hstate \<Rightarrow> 'a clist \<Rightarrow> bool" where
  "h_rep s c = (case s of (h, l, brk) \<Rightarrow> \<exists>ns. list_rep h l ns \<and> map snd ns = map Some (nodes c) \<and>
     l_count l = count c \<and> dom h \<subseteq> {..<brk})"

fun h_step :: "'a list_op \<Rightarrow> 'a hstate \<Rightarrow> 'a hstate result" where
  "h_step (Add x) (h, l, brk) =
     rbind (listnode_add (Some brk) h l (Some x)) (\<lambda>(h', l'). Inr (h', l', Suc brk))"
| "h_step (Purge P) (h, l, brk) =
     (case list_loop2_delete (Suc brk) P h l (l_head l) of None \<Rightarrow> Inl ExitFailure
      | Some r \<Rightarrow> rbind r (\<lambda>(h', l'). Inr (h', l', brk)))"
| "h_step (DelFirst P) (h, l, brk) =
     (case list_loop_delete_first (Suc brk) P h l (l_head l) of None \<Rightarrow> Inl ExitFailure
      | Some r \<Rightarrow> rbind r (\<lambda>(_, h', l'). Inr (h', l', brk)))"
| "h_step Clear (h, l, brk) =
     (case list_delete_all_node (Suc brk) h l of None \<Rightarrow> Inl ExitFailure
      | Some r \<Rightarrow> rbind r (\<lambda>(h', l', _). Inr (h', l', brk)))"

definition h_iter :: "'a hstate \<Rightarrow> 'a list result" where
  "h_iter s = (case s of (h, l, brk) \<Rightarrow>
     (case list_loop (Suc brk) h (l_head l) of None \<Rightarrow> Inl ExitFailure | Some r \<Rightarrow> r))"

lemma stays_Some [simp]: "stays P (a, Some x) = (\<not> P x)"
  by (simp add: stays_def)

lemma cells_conj:
  "map snd ns = map Some xs \<Longrightarrow>
    map snd (filter (stays P) ns) = map Some (filter (\<lambda>x. \<not> P x) xs) \<and>
    length (filter (\<lambda>n. \<not> stays P n) ns) = length (filter P xs) \<and>
    map snd (del_first (\<lambda>n. \<not> stays P n) ns) = map Some (del_first P xs) \<and>
    ((\<exists>n \<in> set ns. \<not> stays P n) \<longleftrightarrow> (\<exists>x \<in> set xs. P x)) \<and>
    List.map_filter snd ns = xs"
proof (induction xs arbitrary: ns)
  case (Cons x xs)
  then obtain a ms where "ns = (a, Some x) # ms" "map snd ms = map Some xs"
    by (cases ns) auto
  with Cons.IH [of ms] show ?case by (simp add: map_filter_simps)
qed (simp add: map_filter_simps)

lemmas cells_ops =
  cells_conj [THEN conjunct1]
  cells_conj [THEN conjunct2, THEN conjunct1]
  cells_conj [THEN conjunct2, THEN conjunct2, THEN conjunct1]
  cells_conj [THEN conjunct2, THEN conjunct2, THEN conjunct2, THEN conjunct1]
  cells_conj [THEN conjunct2, THEN conjunct2, THEN conjunct2, THEN conjunct2]

lemma h_rep_bound:
  assumes "list_rep h l ns" and "dom h \<subseteq> {..<brk}"
  shows "length ns < Suc brk"
proof -
  have "fst ` set ns \<subseteq> {..<brk}"
    using assms seg_dom by (fastforce simp: list_rep_def)
  then have "card (fst ` set ns) \<le> brk"
    using card_mono [of "{..<brk}" "fst ` set ns"] by simp
  moreover have "card (fst ` set ns) = length ns"
    using assms(1) by (metis list_rep_def distinct_card length_map list.set_map)
  ultimately show ?thesis by simp
qed

lemma h_step_sim:
  assumes "h_rep s c"
  shows "\<exists>s'. h_step f s = Inr s' \<and> h_rep s' (cl_op f c)"
proof -
  obtain h l brk ns where s: "s = (h, l, brk)" and rep: "list_rep h l ns"
    and cells: "map snd ns = map Some (nodes c)" and cnt: "l_count l = count c"
    and dom: "dom h \<subseteq> {..<brk}"
    using assms by (auto simp: h_rep_def split: prod.splits)
  note len = h_rep_bound [OF rep dom] and hd = list_rep_head [OF rep]
  show ?thesis
  proof (cases f)
    case (Add x)
    have "h brk = None" using dom by (auto simp: dom_def)
    from listnode_add_rep [OF rep this, of "Some x"] obtain h' l' where
      a: "listnode_add (Some brk) h l (Some x) = Inr (h', l')" "list_rep h' l' (ns @ [(brk, Some x)])"
        "l_count l' = (if l_count l < 0 then 0 else l_count l) + 1" "dom h' = insert brk (dom h)"
      by blast
    then have "h_rep (h', l', Suc brk) (cl_add True x c)"
      using dom cells cnt unfolding h_rep_def cl_add_def
      by (auto intro!: exI [of _ "ns @ [(brk, Some x)]"])
    with a(1) show ?thesis by (simp add: Add s)
  next
    case (Purge P)
    from list_loop2_delete_rep [of h l "[]" ns "Suc brk" P] rep len hd obtain h' l' where
      a: "list_loop2_delete (Suc brk) P h l (l_head l) = Some (Inr (h', l'))"
        "list_rep h' l' (filter (stays P) ns)"
        "l_count l' = l_count l - int (length (filter (\<lambda>n. \<not> stays P n) ns))" "dom h' \<subseteq> dom h"
      by auto
    then have "h_rep (h', l', brk) (cl_loop2_delete P c)"
      using cells_ops(1,2) [OF cells, of P] cnt dom unfolding h_rep_def cl_loop2_delete_def
      by (auto intro!: exI [of _ "filter (stays P) ns"])
    with a(1) show ?thesis by (simp add: Purge s)
  next
    case (DelFirst P)
    from list_loop_delete_first_rep [of h l "[]" ns "Suc brk" P] rep len hd obtain h' l' where
      a: "list_loop_delete_first (Suc brk) P h l (l_head l) =
          Some (Inr (\<exists>n \<in> set ns. \<not> stays P n, h', l'))"
        "list_rep h' l' (del_first (\<lambda>n. \<not> stays P n) ns)"
        "l_count l' = l_count l - (if \<exists>n \<in> set ns. \<not> stays P n then 1 else 0)" "dom h' \<subseteq> dom h"
      by auto
    have "count (cl_delete_first P c) = count c - (if \<exists>x \<in> set (nodes c). P x then 1 else 0)"
      by (auto simp: cl_delete_first_def find_None_iff)
    with a have "h_rep (h', l', brk) (cl_delete_first P c)"
      using cells_ops(3,4) [OF cells, of P] cnt dom unfolding h_rep_def
      by (auto intro!: exI [of _ "del_first (\<lambda>n. \<not> stays P n) ns"])
    with a(1) show ?thesis by (simp add: DelFirst s)
  next
    case Clear
    from delete_nodes_rep [of h None "l_head l" ns "l_tail l" "Suc brk" "l_del l"] rep len
    have "delete_nodes (Suc brk) (l_del l) h (l_head l) =
        Some (Inr (h |` (- fst ` set ns), if l_del l then map snd ns else []))"
      by (simp add: list_rep_def)
    with dom show ?thesis
      by (auto simp: Clear s h_rep_def list_delete_all_node_def list_rep_def cl_delete_all_def)
  qed
qed

lemma h_iter_sim:
  assumes "h_rep s c"
  shows "h_iter s = Inr (nodes c)"
proof -
  obtain h l brk ns where s: "s = (h, l, brk)" and rep: "list_rep h l ns"
    and cells: "map snd ns = map Some (nodes c)" and dom: "dom h \<subseteq> {..<brk}"
    using assms by (auto simp: h_rep_def split: prod.splits)
  have "list_loop (Suc brk) h (cur_of ns) = Some (Inr (List.map_filter snd ns))"
    by (rule list_loop_rep [where xs = "[]"]) (use rep h_rep_bound [OF rep dom] in auto)
  then show ?thesis
    by (simp add: s h_iter_def list_rep_head [OF rep] cells_ops(5) [OF cells] del: list_loop.simps)
qed

interpretation heap_list: list_provider h_rep h_step h_iter
  by unfold_locales (rule h_step_sim, assumption, rule h_iter_sim)

section \<open>Properties\<close>

text \<open>
  C10: The pointer program of \<open>linklist.c\<close> implements the counted list. From a header and a heap
  that represent a list, every sequence of additions, searches with deletion, deletions during
  an iteration and clearings runs without a null or dangling access and without running out of
  rounds, ends in a state that represents the result of the same operations on the counted list,
  and an iteration then sees exactly its elements in order.
\<close>

theorem list_program_refines:
  assumes "h_rep s c"
  shows "\<exists>s'. foldM h_step fs s = Inr s' \<and> h_rep s' (fold cl_op fs c) \<and>
    h_iter s' = Inr (nodes (fold cl_op fs c))"
proof -
  from heap_list.run_sim [OF assms] obtain s' where s': "foldM h_step fs s = Inr s'" "h_rep s' (fold cl_op fs c)"
    by blast
  with heap_list.run_iter [OF assms s'(1)] show ?thesis by blast
qed

lemma h_rep_empty: "h_rep (Map.empty, \<lparr>l_head = None, l_tail = None, l_count = 0, l_del = d\<rparr>, 0) cl_new"
  by (simp add: h_rep_def list_rep_def cl_new_def)

theorem list_program_refines_witness:
  "\<exists>s'. foldM h_step [Add 1, Add 2, DelFirst (\<lambda>x. x = 1), Add 3]
       (Map.empty, \<lparr>l_head = None, l_tail = None, l_count = 0, l_del = False\<rparr>, 0) = Inr s' \<and>
     h_iter s' = Inr [2, 3 :: nat]"
  using list_program_refines [OF h_rep_empty [of False], of "[Add 1, Add 2, DelFirst (\<lambda>x. x = 1), Add (3 :: nat)]"]
  by (auto simp: cl_new_def cl_delete_first_def cl_add_def)

text \<open>
  \<open>list_delete\<close> and the loop of \<open>list_delete_all_node\<close> end after one round per node. They give
  back exactly the nodes of the list, leave every other cell of the heap as it was, and call the
  destructor, if there is one, on the data of every node once, in list order.
\<close>

theorem list_delete_frees_all:
  assumes "list_rep h l ns" and "length ns < fuel"
  shows "list_delete fuel h l = Some (Inr (h |` (- fst ` set ns), if l_del l then map snd ns else []))"
  using delete_nodes_rep [of h None "l_head l" ns "l_tail l" fuel "l_del l"] assms
  by (simp add: list_delete_def list_rep_def)

definition two_nodes :: "nat heap" where
  "two_nodes = [0 \<mapsto> \<lparr>ln_next = Some 1, ln_prev = None, ln_data = Some 7\<rparr>,
                1 \<mapsto> \<lparr>ln_next = None, ln_prev = Some 0, ln_data = Some 8\<rparr>]"

lemma two_nodes_rep: "list_rep two_nodes \<lparr>l_head = Some 0, l_tail = Some 1, l_count = 2, l_del = d\<rparr> [(0, Some 7), (1, Some 8)]"
  by (simp add: list_rep_def two_nodes_def)

theorem list_delete_frees_all_witness:
  "\<exists>h'. list_delete 3 two_nodes \<lparr>l_head = Some 0, l_tail = Some 1, l_count = 2, l_del = True\<rparr> =
     Some (Inr (h', [Some 7, Some 8]))"
  using list_delete_frees_all [OF two_nodes_rep [of True], of 3] by simp

text \<open>
  The loop macro \<open>LIST_LOOP2\<close> may delete the node it stands on: a loop whose body deletes the
  nodes with a given property visits every node once and leaves exactly the others, properly
  linked, with the counter reduced by the number of deleted nodes.
\<close>

theorem list_loop2_deletes_safely:
  assumes "list_rep h l ns" and "length ns < fuel"
  shows "\<exists>h' l'. list_loop2_delete fuel P h l (l_head l) = Some (Inr (h', l')) \<and>
    list_rep h' l' (filter (stays P) ns) \<and>
    l_count l' = l_count l - int (length (filter (\<lambda>n. \<not> stays P n) ns))"
  using list_loop2_delete_rep [of h l "[]" ns fuel P] assms list_rep_head [OF assms(1)] by auto

theorem list_loop2_deletes_safely_witness:
  "\<exists>h' l'. list_loop2_delete 3 (\<lambda>x. x = 7) two_nodes
       \<lparr>l_head = Some 0, l_tail = Some 1, l_count = 2, l_del = False\<rparr> (Some 0) = Some (Inr (h', l')) \<and>
     list_rep h' l' [(1, Some 8)] \<and> l_count l' = 1"
  using list_loop2_deletes_safely [OF two_nodes_rep [of False], of 3 "\<lambda>x. x = 7"] by simp

end
