(* ===== verification/Inet6.thy ===== *)
theory Inet6
  imports Ecmh_Prelude
begin

text \<open>
  IPv6 addresses and the address classification macros of \<open>netinet/in.h\<close> that ecmh uses,
  with the protocol numbers and struct sizes of the system headers and of \<open>mld.h\<close>.

  A \<open>struct in6_addr\<close> is its 16 bytes in network order.
\<close>

type_synonym in6_addr = bytes

definition in6addr_any :: in6_addr where
  "in6addr_any = replicate 16 0"

definition in6addr_loopback :: in6_addr where
  "in6addr_loopback = replicate 15 0 @ [1]"

definition addr_wf :: "in6_addr \<Rightarrow> bool" where
  "addr_wf a \<longleftrightarrow> length a = 16"

definition IN6_ARE_ADDR_EQUAL :: "in6_addr \<Rightarrow> in6_addr \<Rightarrow> bool" where
  "IN6_ARE_ADDR_EQUAL a b \<longleftrightarrow> a = b"

definition IN6_IS_ADDR_UNSPECIFIED :: "in6_addr \<Rightarrow> bool" where
  "IN6_IS_ADDR_UNSPECIFIED a \<longleftrightarrow> a = in6addr_any"

definition IN6_IS_ADDR_LOOPBACK :: "in6_addr \<Rightarrow> bool" where
  "IN6_IS_ADDR_LOOPBACK a \<longleftrightarrow> a = in6addr_loopback"

definition IN6_IS_ADDR_MULTICAST :: "in6_addr \<Rightarrow> bool" where
  "IN6_IS_ADDR_MULTICAST a \<longleftrightarrow> a ! 0 = 0xff"

definition IN6_IS_ADDR_LINKLOCAL :: "in6_addr \<Rightarrow> bool" where
  "IN6_IS_ADDR_LINKLOCAL a \<longleftrightarrow> a ! 0 = 0xfe \<and> a ! 1 AND 0xc0 = 0x80"

definition IN6_IS_ADDR_SITELOCAL :: "in6_addr \<Rightarrow> bool" where
  "IN6_IS_ADDR_SITELOCAL a \<longleftrightarrow> a ! 0 = 0xfe \<and> a ! 1 AND 0xc0 = 0xc0"

definition IN6_IS_ADDR_MC_NODELOCAL :: "in6_addr \<Rightarrow> bool" where
  "IN6_IS_ADDR_MC_NODELOCAL a \<longleftrightarrow> IN6_IS_ADDR_MULTICAST a \<and> a ! 1 AND 0xf = 0x1"

definition IN6_IS_ADDR_MC_LINKLOCAL :: "in6_addr \<Rightarrow> bool" where
  "IN6_IS_ADDR_MC_LINKLOCAL a \<longleftrightarrow> IN6_IS_ADDR_MULTICAST a \<and> a ! 1 AND 0xf = 0x2"

lemma addr_wf_any [simp]: "addr_wf in6addr_any"
  by (simp add: addr_wf_def in6addr_any_def)

lemma any_classes [simp]:
  "\<not> IN6_IS_ADDR_MULTICAST in6addr_any" "\<not> IN6_IS_ADDR_LINKLOCAL in6addr_any"
  "\<not> IN6_IS_ADDR_MC_NODELOCAL in6addr_any" "\<not> IN6_IS_ADDR_MC_LINKLOCAL in6addr_any"
  by (simp_all add: in6addr_any_def IN6_IS_ADDR_MULTICAST_def IN6_IS_ADDR_LINKLOCAL_def
      IN6_IS_ADDR_MC_NODELOCAL_def IN6_IS_ADDR_MC_LINKLOCAL_def)

section \<open>Protocol numbers\<close>

definition IPPROTO_HOPOPTS :: u8 where [layout]: "IPPROTO_HOPOPTS = 0"
definition IPPROTO_IPV6 :: u8 where [layout]: "IPPROTO_IPV6 = 41"
definition IPPROTO_ROUTING :: u8 where [layout]: "IPPROTO_ROUTING = 43"
definition IPPROTO_AH :: u8 where [layout]: "IPPROTO_AH = 51"
definition IPPROTO_ICMPV6 :: u8 where [layout]: "IPPROTO_ICMPV6 = 58"
definition IPPROTO_DSTOPTS :: u8 where [layout]: "IPPROTO_DSTOPTS = 60"

definition ETH_P_IP :: u16 where [layout]: "ETH_P_IP = 0x0800"
definition ETH_P_IPV6 :: u16 where [layout]: "ETH_P_IPV6 = 0x86dd"

definition ICMP6_TIME_EXCEED_TRANSIT :: u8 where [layout]: "ICMP6_TIME_EXCEED_TRANSIT = 0"
definition ICMP6_ECHO_REQUEST :: u8 where [layout]: "ICMP6_ECHO_REQUEST = 128"
definition ICMP6_ECHO_REPLY :: u8 where [layout]: "ICMP6_ECHO_REPLY = 129"
definition ICMP6_MEMBERSHIP_QUERY :: u8 where [layout]: "ICMP6_MEMBERSHIP_QUERY = 130"
definition ICMP6_MEMBERSHIP_REPORT :: u8 where [layout]: "ICMP6_MEMBERSHIP_REPORT = 131"
definition ICMP6_MEMBERSHIP_REDUCTION :: u8 where [layout]: "ICMP6_MEMBERSHIP_REDUCTION = 132"

text \<open>The constants that \<open>mld.h\<close> itself defines.\<close>

definition ICMP6_V2_MEMBERSHIP_REPORT :: u8 where [layout]: "ICMP6_V2_MEMBERSHIP_REPORT = 143"
definition ICMP6_V2_MEMBERSHIP_REPORT_EXP :: u8 where [layout]: "ICMP6_V2_MEMBERSHIP_REPORT_EXP = 206"

definition MLD2_MODE_IS_INCLUDE :: u8 where [layout]: "MLD2_MODE_IS_INCLUDE = 1"
definition MLD2_MODE_IS_EXCLUDE :: u8 where [layout]: "MLD2_MODE_IS_EXCLUDE = 2"
definition MLD2_CHANGE_TO_INCLUDE :: u8 where [layout]: "MLD2_CHANGE_TO_INCLUDE = 3"
definition MLD2_CHANGE_TO_EXCLUDE :: u8 where [layout]: "MLD2_CHANGE_TO_EXCLUDE = 4"
definition MLD2_ALLOW_NEW_SOURCES :: u8 where [layout]: "MLD2_ALLOW_NEW_SOURCES = 5"
definition MLD2_BLOCK_OLD_SOURCES :: u8 where [layout]: "MLD2_BLOCK_OLD_SOURCES = 6"

text \<open>The types and codes that only the log and the trace tool name.\<close>

definition ICMP6_ROUTER_RENUMBERING :: u8 where [layout]: "ICMP6_ROUTER_RENUMBERING = 138"
definition ICMP6_NI_QUERY :: u8 where [layout]: "ICMP6_NI_QUERY = 139"
definition ICMP6_NI_REPLY :: u8 where [layout]: "ICMP6_NI_REPLY = 140"
definition MLD_MTRACE_RESP :: u8 where [layout]: "MLD_MTRACE_RESP = 200"
definition MLD_MTRACE :: u8 where [layout]: "MLD_MTRACE = 201"
definition ICMP6_DST_UNREACH_BEYONDSCOPE :: u8 where [layout]: "ICMP6_DST_UNREACH_BEYONDSCOPE = 2"
definition ICMP6_NI_SUCCESS :: u8 where [layout]: "ICMP6_NI_SUCCESS = 0"
definition ICMP6_NI_REFUSED :: u8 where [layout]: "ICMP6_NI_REFUSED = 1"
definition ICMP6_NI_UNKNOWN :: u8 where [layout]: "ICMP6_NI_UNKNOWN = 2"
definition ICMP6_ROUTER_RENUMBERING_COMMAND :: u8 where [layout]: "ICMP6_ROUTER_RENUMBERING_COMMAND = 0"
definition ICMP6_ROUTER_RENUMBERING_RESULT :: u8 where [layout]: "ICMP6_ROUTER_RENUMBERING_RESULT = 1"
definition ICMP6_ROUTER_RENUMBERING_SEQNUM_RESET :: u8 where [layout]: "ICMP6_ROUTER_RENUMBERING_SEQNUM_RESET = 255"

section \<open>Struct sizes\<close>

text \<open>
  \<open>struct ip6_hdr\<close>, \<open>struct icmp6_hdr\<close>, the hop-by-hop header with the router alert option,
  and the MLD structs of \<open>mld.h\<close>. In \<open>struct mld2_query\<close> the three bit fields share the byte
  before \<open>qqic\<close>.
\<close>

definition sizeof_ip6_hdr :: nat where [layout]: "sizeof_ip6_hdr = 40"
definition sizeof_icmp6_hdr :: nat where [layout]: "sizeof_icmp6_hdr = 8"
definition sizeof_hbh_ra :: nat where [layout]: "sizeof_hbh_ra = 8"
definition sizeof_in6_addr :: nat where [layout]: "sizeof_in6_addr = 16"
definition sizeof_mld1 :: nat where [layout]: "sizeof_mld1 = 24"
definition sizeof_mld2_query :: nat where [layout]: "sizeof_mld2_query = 28"
definition sizeof_mld2_report :: nat where [layout]: "sizeof_mld2_report = 8"
definition sizeof_mld2_grec :: nat where [layout]: "sizeof_mld2_grec = 20"

lemmas sizes = sizeof_ip6_hdr_def sizeof_icmp6_hdr_def sizeof_hbh_ra_def sizeof_in6_addr_def
  sizeof_mld1_def sizeof_mld2_query_def sizeof_mld2_report_def sizeof_mld2_grec_def

section \<open>The exponential codes of mld.h\<close>

definition MLDV2_MASK :: "nat \<Rightarrow> nat \<Rightarrow> nat" where
  "MLDV2_MASK v nb = (if nb \<ge> 32 then v else v mod 2 ^ nb)"

definition MLDV2_EXP :: "nat \<Rightarrow> nat \<Rightarrow> nat \<Rightarrow> nat \<Rightarrow> nat" where
  "MLDV2_EXP thresh nbmant nbexp v = (if v < thresh then v
     else (or (MLDV2_MASK v nbmant) (2 ^ (nbmant + nbexp)))
            * 2 ^ (MLDV2_MASK (v div 2 ^ nbmant) nbexp + nbexp))"

definition MLDV2_QQIC :: "nat \<Rightarrow> nat" where "MLDV2_QQIC v = MLDV2_EXP 0x80 4 3 v"
definition MLDV2_MRC :: "nat \<Rightarrow> nat" where "MLDV2_MRC v = MLDV2_EXP 0x8000 12 3 v"

end
