(* ===== verification/Checksum.thy ===== *)
theory Checksum
  imports Inet6
begin

text \<open>
  The Internet checksum of \<open>ecmh.c\<close>: \<open>inchksum\<close> and \<open>ipv6_checksum\<close>, as computed by the
  little-endian host, related to the ones' complement sum of RFC 1071.
\<close>

section \<open>The code\<close>

text \<open>
  The first loop and the odd byte after it. The accumulator is a \<open>long\<close>;
  \<open>sum16_bound\<close> shows that no length that fits the parameter can overflow it.
\<close>

fun sum16 :: "bytes \<Rightarrow> nat" where
  "sum16 [] = 0"
| "sum16 [b] = unat b"
| "sum16 (b0 # b1 # bs) = unat (le16 b0 b1) + sum16 bs"

text \<open>The folding loop \<open>while (sum >> 16)\<close>.\<close>

function fold16 :: "nat \<Rightarrow> nat" where
  "fold16 s = (if s div 65536 \<noteq> 0 then fold16 (s mod 65536 + s div 65536) else s)"
  by pat_completeness auto
termination
proof (relation "measure id")
  fix s :: nat
  assume "s div 65536 \<noteq> 0"
  moreover have "s div 65536 * 65536 + s mod 65536 = s" by (rule div_mult_mod_eq)
  ultimately have "s mod 65536 + s div 65536 < s" by linarith
  then show "(s mod 65536 + s div 65536, s) \<in> measure id" by simp
qed simp

declare fold16.simps [simp del]

definition inchksum :: "bytes \<Rightarrow> u16" where
  "inchksum data = of_nat (fold16 (sum16 data))"

text \<open>The pseudo header of the code: length, two zero fields and the protocol.\<close>

definition pseudo_hdr :: "u16 \<Rightarrow> u8 \<Rightarrow> bytes" where
  "pseudo_hdr len protocol = le16_bytes (htons len) @ [0, 0, 0, protocol]"

definition finish_chksum :: "u32 \<Rightarrow> u16" where
  "finish_chksum c0 =
     (let c1 = drop_bit 16 c0 + (c0 AND 0xffff);
          c2 = c1 + drop_bit 16 c1;
          c3 = (ucast (NOT c2) :: u16)
      in if c3 = 0 then 0xffff else c3)"

definition ipv6_checksum :: "in6_addr \<Rightarrow> in6_addr \<Rightarrow> u8 \<Rightarrow> bytes \<Rightarrow> u16" where
  "ipv6_checksum src dst protocol data =
     finish_chksum (ucast (inchksum (src @ dst))
       + ucast (inchksum (pseudo_hdr (of_nat (length data)) protocol))
       + ucast (inchksum data))"

section \<open>Ones' complement arithmetic\<close>

text \<open>The representative of a sum modulo \<open>65535\<close>, with \<open>0\<close> only for \<open>0\<close>.\<close>

definition ones :: "nat \<Rightarrow> nat" where
  "ones s = (if s = 0 then 0 else (s - 1) mod 65535 + 1)"

lemma ones_le: "ones s \<le> 65535"
proof -
  have "(s - 1) mod 65535 < 65535" by simp
  then show ?thesis unfolding ones_def by (auto simp: Suc_le_eq)
qed

lemma ones_mod: "ones s mod 65535 = s mod 65535"
proof (cases s)
  case (Suc n)
  have "(n mod 65535 + 1) mod 65535 = (n + 1) mod 65535" by (simp only: mod_add_left_eq)
  then show ?thesis by (simp add: ones_def Suc)
qed (simp add: ones_def)

lemma ones_range:
  assumes "0 < x" and "x \<le> 65535"
  shows "x = (if x mod 65535 = 0 then 65535 else x mod (65535::nat))"
proof (cases "x = 65535")
  case False
  with assms have "x mod 65535 = x" by simp
  with assms show ?thesis by simp
qed simp

lemma ones_eqI:
  assumes "x \<le> 65535" and "x = 0 \<longleftrightarrow> s = 0" and "x mod 65535 = s mod 65535"
  shows "ones s = x"
proof (cases "s = 0")
  case False
  with assms(2) have "0 < x" "0 < ones s" by (auto simp: ones_def)
  then have "x = (if s mod 65535 = 0 then 65535 else s mod 65535)"
    and "ones s = (if s mod 65535 = 0 then 65535 else s mod 65535)"
    using ones_range [of x] ones_range [of "ones s"] ones_le [of s] assms(1,3)
    by (simp_all only: ones_mod)
  then show ?thesis by simp
qed (use assms in \<open>auto simp: ones_def\<close>)

lemma ones_0 [simp]: "ones s = 0 \<longleftrightarrow> s = 0"
  by (simp add: ones_def)

lemma ones_cong: "s mod 65535 = t mod 65535 \<Longrightarrow> (s = 0 \<longleftrightarrow> t = 0) \<Longrightarrow> ones s = ones t"
  by (rule ones_eqI) (auto simp: ones_le ones_mod)

lemma fold16_ones: "fold16 s = ones s"
proof (induction s rule: fold16.induct)
  case (1 s)
  show ?case
  proof (cases "s div 65536 \<noteq> 0")
    case True
    then have "fold16 s = ones (s mod 65536 + s div 65536)"
      using 1 by (simp add: fold16.simps [of s])
    also have "\<dots> = ones s"
    proof (rule ones_cong)
      have "s = s mod 65536 + s div 65536 + 65535 * (s div 65536)"
        using div_mult_mod_eq [of s 65536] by simp
      then show "(s mod 65536 + s div 65536) mod 65535 = s mod 65535"
        by (metis mod_mult_self2)
      show "(s mod 65536 + s div 65536 = 0) = (s = 0)" using True by auto
    qed
    finally show ?thesis .
  next
    case False
    then have "s < 65536" by simp
    then have "ones s = s" by (intro ones_eqI) auto
    with False show ?thesis by (simp add: fold16.simps [of s])
  qed
qed

lemma unat_inchksum: "unat (inchksum data) = ones (sum16 data)"
proof -
  have "ones (sum16 data) < 65536" using ones_le [of "sum16 data"] by simp
  then show ?thesis by (simp add: inchksum_def fold16_ones unat_of_nat)
qed

lemma sum16_bound: "sum16 data \<le> 65535 * length data"
proof (induction data rule: sum16.induct)
  case (2 b)
  then show ?case using unat_u8_lt [of b] by simp
next
  case (3 b0 b1 bs)
  then show ?case using unat_u8_lt [of b0] unat_u8_lt [of b1] by (simp add: unat_le16)
qed simp

lemma sum16_append: "even (length xs) \<Longrightarrow> sum16 (xs @ ys) = sum16 xs + sum16 ys"
  by (induction xs rule: sum16.induct) auto

section \<open>The transmitted checksum\<close>

lemma unat_not_u16: "unat (NOT x) = 65535 - unat (x :: u16)"
proof -
  have "NOT x = -1 - x" by (simp add: not_eq_complement)
  moreover have "x \<le> -1" by simp
  moreover have "unat (-1 :: u16) = 65535" by (simp add: unsigned_minus_1_eq_mask mask_eq_exp_minus_1)
  ultimately show ?thesis by (simp add: unat_sub)
qed

lemma ucast_not_u16: "(ucast (NOT (x::u32)) :: u16) = NOT (ucast x)"
  by (rule bit_word_eqI) (auto simp: bit_simps)

lemma unat_hi16: "unat (drop_bit 16 (x::u32)) = unat x div 65536"
  by (simp add: drop_bit_eq_div unat_div)

lemma unat_lo16: "unat (x AND 0xffff :: u32) = unat x mod 65536"
proof -
  have "(0xffff :: u32) = mask 16" by (simp add: mask_eq_exp_minus_1)
  then have "x AND 0xffff = take_bit 16 x" by (simp only: take_bit_eq_mask)
  then show ?thesis by (simp add: take_bit_eq_mod unat_mod)
qed

lemma unat_ucast_u16: "unat (ucast (x::u32) :: u16) = unat x mod 65536"
  by (simp add: unsigned_ucast_eq take_bit_eq_mod)

lemma unat_add_u32: "unat x + unat y < 4294967296 \<Longrightarrow> unat (x + y :: u32) = unat x + unat y"
  by (simp add: unat_word_ariths)

lemma split16: "(s :: nat) = s div 65536 + s mod 65536 + 65535 * (s div 65536)"
proof -
  have "s div 65536 * 65536 + s mod 65536 = s" by (rule div_mult_mod_eq)
  then show ?thesis by linarith
qed

lemma fold_mod: "(s div 65536 + s mod 65536) mod 65535 = s mod (65535 :: nat)"
  by (metis split16 mod_mult_self2)

lemma finish_chksum_unat:
  assumes "unat c0 \<le> 196605"
  shows "\<exists>u. u \<le> 65535 \<and> u mod 65535 = unat c0 mod 65535 \<and>
    unat (finish_chksum c0) = (if u = 65535 then 65535 else 65535 - u)"
proof -
  define t where "t = unat c0 div 65536 + unat c0 mod 65536"
  have t: "t \<le> 65537"
  proof -
    have "unat c0 div 65536 \<le> 2" using assms by linarith
    moreover have "unat c0 mod 65536 \<le> 65535" by linarith
    ultimately show ?thesis unfolding t_def by linarith
  qed
  let ?c1 = "drop_bit 16 c0 + (c0 AND 0xffff)"
  let ?c2 = "?c1 + drop_bit 16 ?c1"
  have c1: "unat ?c1 = t"
    using t by (subst unat_add_u32) (simp_all add: unat_hi16 unat_lo16 t_def)
  have "unat ?c1 + unat (drop_bit 16 ?c1) = t + t div 65536" by (simp only: unat_hi16 c1)
  moreover have "t + t div 65536 < 4294967296" using t by linarith
  ultimately have c2: "unat ?c2 = t + t div 65536"
    using unat_add_u32 [of ?c1 "drop_bit 16 ?c1"] by argo
  define u where "u = (t + t div 65536) mod 65536"
  have u: "u \<le> 65535" unfolding u_def by linarith
  have ue: "u = t div 65536 + t mod 65536"
  proof (cases "t < 65536")
    case False
    with t have "t = 65536 \<or> t = 65537" by linarith
    then show ?thesis by (auto simp: u_def)
  qed (simp add: u_def)
  have um: "u mod 65535 = unat c0 mod 65535"
    unfolding ue fold_mod unfolding t_def fold_mod ..
  have c3: "unat (ucast (NOT ?c2) :: u16) = 65535 - u"
    by (simp only: ucast_not_u16 unat_not_u16 unat_ucast_u16 c2 u_def)
  have "(ucast (NOT ?c2) :: u16) = 0 \<longleftrightarrow> unat (ucast (NOT ?c2) :: u16) = 0"
    by (rule unat_eq_zero [symmetric])
  then have "(ucast (NOT ?c2) :: u16) = 0 \<longleftrightarrow> u = 65535"
    unfolding c3 using u by linarith
  with c3 have "unat (finish_chksum c0) = (if u = 65535 then 65535 else 65535 - u)"
    unfolding finish_chksum_def Let_def by simp
  with u um show ?thesis by blast
qed

lemma finish_chksum_completes:
  assumes "unat c0 \<le> 196605"
  shows "(unat c0 + unat (finish_chksum c0)) mod 65535 = 0" and "0 < unat (finish_chksum c0)"
proof -
  obtain u where u: "u \<le> 65535" "u mod 65535 = unat c0 mod 65535"
    and f: "unat (finish_chksum c0) = (if u = 65535 then 65535 else 65535 - u)"
    using finish_chksum_unat [OF assms] by blast
  have "(unat c0 + unat (finish_chksum c0)) mod 65535 = (u + unat (finish_chksum c0)) mod 65535"
    by (metis u(2) mod_add_left_eq)
  also have "\<dots> = 0" using u(1) f by auto
  finally show "(unat c0 + unat (finish_chksum c0)) mod 65535 = 0" .
  show "0 < unat (finish_chksum c0)" using u(1) f by auto
qed

lemma unat_u16_le: "unat (x :: u16) \<le> 65535"
  using unsigned_less [of x, where ?'a = nat] by simp

lemma unat_ucast_up: "unat (ucast (x :: u16) :: u32) = unat x"
  using unat_u16_le [of x] by (simp add: unsigned_ucast_eq take_bit_eq_mod)

text \<open>The ones' complement sum that the receiver checks: pseudo header, then data.\<close>

definition rfc_sum :: "in6_addr \<Rightarrow> in6_addr \<Rightarrow> u8 \<Rightarrow> bytes \<Rightarrow> nat" where
  "rfc_sum src dst protocol data = sum16 (src @ dst)
     + sum16 (pseudo_hdr (of_nat (length data)) protocol) + sum16 data"

lemma ipv6_checksum_completes:
  "(rfc_sum src dst protocol data + unat (ipv6_checksum src dst protocol data)) mod 65535 = 0"
  "0 < unat (ipv6_checksum src dst protocol data)"
proof -
  let ?a = "inchksum (src @ dst)" and ?d = "inchksum data"
  let ?p = "inchksum (pseudo_hdr (of_nat (length data)) protocol)"
  let ?c = "ucast ?a + ucast ?p + ucast ?d :: u32"
  have sum: "unat ?c = unat ?a + unat ?p + unat ?d"
    using unat_u16_le [of ?a] unat_u16_le [of ?p] unat_u16_le [of ?d]
    by (simp add: unat_add_u32 unat_ucast_up)
  have le: "unat ?c \<le> 196605"
    unfolding sum using unat_u16_le [of ?a] unat_u16_le [of ?p] unat_u16_le [of ?d] by linarith
  have "rfc_sum src dst protocol data mod 65535 = unat ?c mod 65535"
    unfolding sum rfc_sum_def unat_inchksum
    by (rule mod_add_cong [OF mod_add_cong]) (simp_all only: ones_mod)
  with finish_chksum_completes [OF le] show
    "(rfc_sum src dst protocol data + unat (ipv6_checksum src dst protocol data)) mod 65535 = 0"
    "0 < unat (ipv6_checksum src dst protocol data)"
    unfolding ipv6_checksum_def by (metis mod_add_left_eq, simp)
qed

lemma sum16_insert:
  assumes "even (length pre)"
  shows "sum16 (pre @ le16_bytes c @ post) = sum16 (pre @ [0, 0] @ post) + unat c"
proof -
  obtain b0 b1 where c: "c = le16 b0 b1" by (metis le16_le16_bytes)
  show ?thesis using assms by (simp add: c sum16_append unat_le16)
qed

lemma ipv6_checksum_fold:
  assumes "even (length pre)"
  shows "fold16 (rfc_sum src dst protocol
      (pre @ le16_bytes (ipv6_checksum src dst protocol (pre @ [0, 0] @ post)) @ post)) = 0xffff"
proof -
  define c where "c = ipv6_checksum src dst protocol (pre @ [0, 0] @ post)"
  let ?z = "pre @ [0, 0] @ post" and ?f = "pre @ le16_bytes c @ post"
  have eq: "rfc_sum src dst protocol ?f = rfc_sum src dst protocol ?z + unat c"
    by (simp only: rfc_sum_def sum16_insert [OF assms(1)]) simp
  have "rfc_sum src dst protocol ?f mod 65535 = 0"
    unfolding eq unfolding c_def by (rule ipv6_checksum_completes)
  moreover have "0 < rfc_sum src dst protocol ?f"
    unfolding eq unfolding c_def using ipv6_checksum_completes(2) by (rule add_strict_increasing2 [rotated]) simp
  ultimately
  show ?thesis unfolding fold16_ones c_def [symmetric] by (intro ones_eqI) auto
qed

section \<open>Byte order\<close>

fun be_sum16 :: "bytes \<Rightarrow> nat" where
  "be_sum16 [] = 0"
| "be_sum16 [b] = 256 * unat b"
| "be_sum16 (b0 # b1 # bs) = 256 * unat b0 + unat b1 + be_sum16 bs"

lemma sum16_be: "sum16 bs mod 65535 = (256 * be_sum16 bs) mod 65535 \<and> (sum16 bs = 0 \<longleftrightarrow> be_sum16 bs = 0)"
proof (induction bs rule: sum16.induct)
  case (2 b)
  have "256 * (256 * unat b) = unat b + 65535 * unat b" by simp
  then show ?case by (simp only: sum16.simps be_sum16.simps mod_mult_self2) simp
next
  case (3 b0 b1 bs)
  have "256 * be_sum16 (b0 # b1 # bs) = (unat (le16 b0 b1) + 256 * be_sum16 bs) + 65535 * unat b0"
    by (simp add: unat_le16)
  then have "256 * be_sum16 (b0 # b1 # bs) mod 65535 = (unat (le16 b0 b1) + 256 * be_sum16 bs) mod 65535"
    by (simp only: mod_mult_self2)
  moreover have "\<dots> = sum16 (b0 # b1 # bs) mod 65535"
    unfolding sum16.simps using 3 by (metis mod_add_right_eq)
  ultimately show ?case using 3 by (auto simp: unat_le16)
qed simp

lemma unat_htons: "unat (htons x) = 256 * (unat x mod 256) + unat x div 256"
proof -
  obtain b0 b1 where x: "x = le16 b0 b1" by (metis le16_le16_bytes)
  show ?thesis using unat_u8_lt [of b0] by (simp add: x htons_le16 unat_le16)
qed

text \<open>
  C15: \<open>inchksum\<close>, which adds up the message in the byte order of the host, computes the RFC 1071
  sum: its result is the byte-swapped ones' complement sum of the big-endian 16-bit words, also for
  an odd number of bytes, so that storing it as it is gives the bytes of the network-order sum.
\<close>

theorem inchksum_byte_order:
  "inchksum bs = htons (of_nat (fold16 (be_sum16 bs)))"
proof -
  let ?b = "of_nat (fold16 (be_sum16 bs)) :: u16"
  have b: "unat ?b = ones (be_sum16 bs)"
    using ones_le [of "be_sum16 bs"] by (simp add: fold16_ones unat_of_nat)
  have "256 * ones (be_sum16 bs) = 256 * (ones (be_sum16 bs) mod 256) + ones (be_sum16 bs) div 256
      + 65535 * (ones (be_sum16 bs) div 256)"
    using div_mult_mod_eq [of "ones (be_sum16 bs)" 256] by linarith
  then have "unat (htons ?b) mod 65535 = 256 * ones (be_sum16 bs) mod 65535"
    unfolding unat_htons b by (metis mod_mult_self2)
  also have "\<dots> = 256 * be_sum16 bs mod 65535"
    by (metis ones_mod mod_mult_right_eq)
  also have "\<dots> = sum16 bs mod 65535" using sum16_be [of bs] by simp
  finally have "unat (htons ?b) mod 65535 = sum16 bs mod 65535" .
  moreover have "unat (htons ?b) = 0 \<longleftrightarrow> sum16 bs = 0"
  proof -
    have "unat (htons ?b) = 0 \<longleftrightarrow> unat ?b = 0"
      unfolding unat_htons by (auto simp: div_eq_0_iff)
    then show ?thesis using b sum16_be [of bs] by simp
  qed
  ultimately have "ones (sum16 bs) = unat (htons ?b)"
    by (intro ones_eqI unat_u16_le) auto
  then show ?thesis by (metis unat_inchksum word_unat_eq_iff)
qed

text \<open>
  C14: The checksum that \<open>ipv6_checksum\<close> computes over a message with a zeroed checksum field makes
  the message verify: with the checksum stored in the field (at any even offset), the folded sum of
  pseudo header and message that a receiver computes is all ones. The checksum is never zero.
\<close>

theorem ipv6_checksum_verifies:
  assumes "even (length pre)"
  shows "fold16 (rfc_sum src dst protocol
      (pre @ le16_bytes (ipv6_checksum src dst protocol (pre @ [0, 0] @ post)) @ post)) = 0xffff \<and>
    ipv6_checksum src dst protocol (pre @ [0, 0] @ post) \<noteq> 0"
  using ipv6_checksum_fold [OF assms] ipv6_checksum_completes(2) [of src dst protocol "pre @ [0, 0] @ post"]
  by (simp add: unat_gt_0)

theorem ipv6_checksum_verifies_witness:
  "fold16 (rfc_sum in6addr_any in6addr_any 58 ([128, 0] @ le16_bytes (ipv6_checksum in6addr_any in6addr_any 58
     ([128, 0] @ [0, 0] @ [1, 2, 3])) @ [1, 2, 3])) = 0xffff"
  using ipv6_checksum_verifies [of "[128, 0]" in6addr_any in6addr_any 58 "[1, 2, 3]"] by simp

text \<open>
  The accumulator of \<open>inchksum\<close>, a \<open>long\<close>, cannot overflow for any length that the unsigned
  parameter can hold, and the folding loop leaves a value that fits the 16-bit result.
\<close>

theorem inchksum_fits:
  assumes "length data < 2 ^ 32"
  shows "sum16 data < 2 ^ 63 \<and> fold16 (sum16 data) < 2 ^ 16"
proof
  have "65535 * length data \<le> 65535 * 2 ^ 32" using assms by simp
  then show "sum16 data < 2 ^ 63" using sum16_bound [of data] by simp
  show "fold16 (sum16 data) < 2 ^ 16" using ones_le [of "sum16 data"] by (simp add: fold16_ones)
qed

theorem inchksum_fits_witness: "sum16 [0xff, 0xff, 0xff] < 2 ^ 63"
  using inchksum_fits [of "[0xff, 0xff, 0xff]"] by simp

end
