(* ===== verification/Ecmh_State.thy ===== *)
theory Ecmh_State
  imports Linklist Checksum
begin

text \<open>
  The data of the daemon: the structs of \<open>subscr.h\<close>, \<open>grpint.h\<close>, \<open>groups.h\<close>,
  \<open>interfaces.h\<close> and \<open>ecmh.h\<close> in the configuration that the top-level Makefile builds on
  Linux (\<open>ECMH_SUPPORT_MLD2\<close> and \<open>ECMH_GETIFADDR\<close> set; \<open>ECMH_BPF\<close>, \<open>ECMH_SUPPORT_IPV4\<close> and
  \<open>DEBUG\<close> not set), and the outside world that the code talks to.

  A list of the program is a counted list. A \<open>struct intnode *\<close> is an index into the array
  \<open>g_conf->ints\<close>; a pointer to a node of one of the lists designates the first node with
  the key that was searched for.
\<close>

section \<open>Constants\<close>

definition ECMH_SUBSCRIPTION_TIMEOUT :: u64 where [layout]: "ECMH_SUBSCRIPTION_TIMEOUT = 125"
definition ECMH_ROBUSTNESS_FACTOR :: int where [layout]: "ECMH_ROBUSTNESS_FACTOR = 2"

abbreviation MODE_INCLUDE :: u64 where "MODE_INCLUDE \<equiv> ucast MLD2_MODE_IS_INCLUDE"
abbreviation MODE_EXCLUDE :: u64 where "MODE_EXCLUDE \<equiv> ucast MLD2_MODE_IS_EXCLUDE"

section \<open>Structs\<close>

record subscrnode =
  sb_ipv6 :: in6_addr
  sb_mode :: u64
  sb_refreshtime :: u64

record grpintnode =
  gi_ifindex :: u64
  gi_subscriptions :: "subscrnode clist"

record groupnode =
  gr_mca :: in6_addr
  gr_interfaces :: "grpintnode clist"
  gr_lastforward :: u64
  gr_bytes :: u64
  gr_packets :: u64

text \<open>Of the \<open>struct sockaddr\<close> with the hardware address only the family is ever read.\<close>

record intnode =
  in_ifindex :: u64
  in_name :: string
  in_groupcount :: u64
  in_mtu :: u64
  in_mld_version :: u64
  in_mld_last_v1 :: u64
  in_hwaddr :: u16
  in_linklocal :: in6_addr
  in_global :: in6_addr
  in_packets_received :: u64
  in_packets_sent :: u64
  in_bytes_received :: u64
  in_bytes_sent :: u64
  in_icmp_received :: u64
  in_icmp_sent :: u64
  in_upstream :: bool

text \<open>What \<open>memzero\<close> leaves in an entry of the interface array.\<close>

definition int_zero :: intnode where
  "int_zero = \<lparr>in_ifindex = 0, in_name = [], in_groupcount = 0, in_mtu = 0, in_mld_version = 0,
     in_mld_last_v1 = 0, in_hwaddr = 0, in_linklocal = in6addr_any, in_global = in6addr_any,
     in_packets_received = 0, in_packets_sent = 0, in_bytes_received = 0, in_bytes_sent = 0,
     in_icmp_received = 0, in_icmp_sent = 0, in_upstream = False\<rparr>"

text \<open>\<open>struct conf\<close>, the daemon's global state \<open>g_conf\<close>.\<close>

record conf =
  maxgroups :: u64
  maxinterfaces :: u64
  ints :: "intnode list"
  groups :: "groupnode clist"
  upstream :: "string option"
  upstream_id :: u64
  daemonize :: bool
  verbose :: bool
  quit :: bool
  mld1only :: bool
  mld2only :: bool
  promisc :: bool
  buffer :: bytes
  bufferlen :: u64
  rawsocket :: int
  stat_starttime :: u64
  stat_packets_received :: u64
  stat_packets_sent :: u64
  stat_bytes_received :: u64
  stat_bytes_sent :: u64
  stat_icmp_received :: u64
  stat_icmp_sent :: u64
  stat_hlim_exceeded :: u64

section \<open>The outside world\<close>

text \<open>\<open>struct sockaddr_ll\<close>, the link-layer address of a packet socket.\<close>

record sockaddr_ll =
  sll_family :: u16
  sll_protocol :: u16
  sll_ifindex :: u32
  sll_hatype :: u16
  sll_pkttype :: u8
  sll_halen :: u8
  sll_addr :: bytes

type_synonym transmission = "sockaddr_ll \<times> bytes"

text \<open>The outcomes of \<open>sendto\<close> that the code tells apart.\<close>

datatype sendres = Sent | SendENXIO | SendError

text \<open>
  One address of the list that \<open>getifaddrs\<close> gives. \<open>SA_INET\<close> has the sixteen bytes from \<open>sin_addr\<close> on in the
  local copy of the \<open>struct sockaddr_in\<close>; the last four of them lie behind that struct.
\<close>

datatype ifaddr_sa = SA_INET bytes | SA_INET6 in6_addr | SA_PACKET | SA_OTHER u16

record ifaddr =
  ifa_name :: string
  ifa_flags :: u32
  ifa_addr :: "ifaddr_sa option"

text \<open>
  The system calls. \<open>sendto\<close> may answer differently on every call, so it is given what was
  sent before; the others answer for an interface index or name. The MTU is a C \<open>int\<close>, read with \<open>sint\<close>.
  \<open>env_behind\<close> tells whether the platform lets the four bytes behind a local struct be read.
\<close>

record env =
  env_sendto :: "transmission list \<Rightarrow> transmission \<Rightarrow> sendres"
  env_socket :: bool
  env_ifname :: "u32 \<Rightarrow> string option"
  env_ifmtu :: "u32 \<Rightarrow> u32 option"
  env_ifhwaddr :: "u32 \<Rightarrow> u16 option"
  env_nametoindex :: "string \<Rightarrow> u32"
  env_getifaddrs :: "ifaddr list option"
  env_behind :: bool

text \<open>
  The whole state: \<open>g_conf\<close>, the clock that \<open>gettimes\<close> and \<open>time\<close> read, the answers of the
  coming \<open>calloc\<close> calls (all succeed once the list is used up), everything handed to
  \<open>sendto\<close> so far, the static \<open>last_update\<close> of \<open>update_interfaces\<close> and \<open>g_needs_timeout\<close>.
  The clock does not move while one event is handled.
\<close>

record world = conf +
  w_now :: u64
  w_calloc :: "bool list"
  w_sent :: "transmission list"
  w_last_update :: u64
  w_needs_timeout :: bool

definition gettimes :: "world \<Rightarrow> u64" where
  "gettimes w = w_now w"

definition calloc :: "world \<Rightarrow> bool \<times> world" where
  "calloc w = (case w_calloc w of [] \<Rightarrow> (True, w) | b # bs \<Rightarrow> (b, w\<lparr>w_calloc := bs\<rparr>))"

text \<open>Writing through a \<open>struct intnode *\<close>.\<close>

definition upd_int :: "nat \<Rightarrow> (intnode \<Rightarrow> intnode) \<Rightarrow> world \<Rightarrow> world" where
  "upd_int i f w = w\<lparr>ints := (ints w)[i := f (ints w ! i)]\<rparr>"

lemma calloc_fields:
  assumes "calloc w = (b, w')"
  shows "ints w' = ints w" "groups w' = groups w" "w_now w' = w_now w" "w_sent w' = w_sent w"
    "maxinterfaces w' = maxinterfaces w" "buffer w' = buffer w" "bufferlen w' = bufferlen w"
    "mld1only w' = mld1only w" "mld2only w' = mld2only w" "upstream w' = upstream w"
    "upstream_id w' = upstream_id w" "w_last_update w' = w_last_update w"
  using assms by (auto simp: calloc_def split: list.splits)

lemma upd_int_fields [simp]:
  "groups (upd_int i f w) = groups w" "w_now (upd_int i f w) = w_now w"
  "w_sent (upd_int i f w) = w_sent w" "maxinterfaces (upd_int i f w) = maxinterfaces w"
  "length (ints (upd_int i f w)) = length (ints w)" "buffer (upd_int i f w) = buffer w"
  "bufferlen (upd_int i f w) = bufferlen w" "mld1only (upd_int i f w) = mld1only w"
  "mld2only (upd_int i f w) = mld2only w" "upstream (upd_int i f w) = upstream w"
  "upstream_id (upd_int i f w) = upstream_id w" "w_last_update (upd_int i f w) = w_last_update w"
  "w_calloc (upd_int i f w) = w_calloc w" "stat_packets_sent (upd_int i f w) = stat_packets_sent w"
  by (simp_all add: upd_int_def)

lemma upd_int_nth: "j < length (ints w) \<Longrightarrow>
    ints (upd_int i f w) ! j = (if i = j then f (ints w ! i) else ints w ! j)"
  by (simp add: upd_int_def nth_list_update)

section \<open>Tables searched by key\<close>

text \<open>
  The contract that \<open>subscr_find\<close>, \<open>grpint_find\<close> and \<open>group_find\<close> share: the first node with
  the key. What their clients need of it follows once and for all.
\<close>

locale keyed_table =
  fixes key :: "'a \<Rightarrow> 'k" and tfind :: "'a clist \<Rightarrow> 'k \<Rightarrow> 'a option"
  assumes tfind_eq: "tfind c k = find (\<lambda>x. key x = k) (nodes c)"
begin

lemma tfind_SomeD: "tfind c k = Some x \<Longrightarrow> x \<in> set (nodes c) \<and> key x = k"
  unfolding tfind_eq by (rule find_Some_in)

lemma tfind_None: "tfind c k = None \<longleftrightarrow> k \<notin> key ` set (nodes c)"
  by (auto simp: tfind_eq find_None_iff)

lemma tfind_add:
  assumes "tfind c (key x) = None"
  shows "tfind (cl_add ok x c) k = (if ok \<and> k = key x then Some x else tfind c k)"
  using assms by (cases ok) (auto simp: tfind_eq find_append split: option.splits)

lemma tfind_upd:
  assumes "\<And>x. key x = k \<Longrightarrow> key (f x) = k"
  shows "tfind (cl_upd (\<lambda>x. key x = k) f c) k' =
    (if k' = k then map_option f (tfind c k) else tfind c k')"
  unfolding tfind_eq cl_nodes
  using find_upd_first [of "nodes c" "\<lambda>x. key x = k" f]
    find_upd_first_other [of "nodes c" "\<lambda>x. key x = k" "\<lambda>x. key x = k'" f] assms
  by auto

lemma keys_upd:
  assumes "\<And>x. key x = k \<Longrightarrow> key (f x) = k"
  shows "map key (nodes (cl_upd (\<lambda>x. key x = k) f c)) = map key (nodes c)"
  unfolding cl_nodes by (rule map_upd_first) (simp add: assms)

lemma all_upd:
  assumes "\<forall>x \<in> set (nodes c). P x" and "\<And>x. tfind c k = Some x \<Longrightarrow> P (f x)"
  shows "\<forall>x \<in> set (nodes (cl_upd (\<lambda>x. key x = k) f c)). P x"
  unfolding cl_nodes using assms(1) assms(2) [unfolded tfind_eq] by (rule all_upd_first)

lemma distinct_add:
  assumes "distinct (map key (nodes c))" and "tfind c (key x) = None"
  shows "distinct (map key (nodes (cl_add ok x c)))"
  using assms by (cases ok) (auto simp: tfind_None)

lemma tfind_in:
  assumes "distinct (map key (nodes c))" and "x \<in> set (nodes c)"
  shows "tfind c (key x) = Some x"
proof (cases "tfind c (key x)")
  case None
  with assms(2) show ?thesis by (auto simp: tfind_None)
next
  case (Some y)
  with tfind_SomeD [OF Some] assms show ?thesis
    by (auto simp: distinct_map dest: inj_onD)
qed

lemma tfind_iff:
  assumes "distinct (map key (nodes c))"
  shows "tfind c k = Some x \<longleftrightarrow> x \<in> set (nodes c) \<and> key x = k"
  using assms tfind_in tfind_SomeD by blast

lemma tfind_delete:
  assumes "distinct (map key (nodes c))"
  shows "tfind (cl_delete_first (\<lambda>x. key x = k) c) k' = (if k' = k then None else tfind c k')"
proof -
  have "find (\<lambda>x. key x = k') (del_first (\<lambda>x. key x = k) xs) =
      (if k' = k then None else find (\<lambda>x. key x = k') xs)" if "distinct (map key xs)" for xs
    using that by (induction xs) (auto simp: find_None_iff image_iff)
  with assms show ?thesis by (simp add: tfind_eq)
qed

lemma tfind_purge:
  assumes "distinct (map key (nodes c))"
  shows "tfind (cl_loop2_delete P c) k =
    (case tfind c k of None \<Rightarrow> None | Some x \<Rightarrow> if P x then None else Some x)"
proof -
  have "find (\<lambda>x. key x = k) (filter (\<lambda>x. \<not> P x) xs) =
      (case find (\<lambda>x. key x = k) xs of None \<Rightarrow> None | Some x \<Rightarrow> if P x then None else Some x)"
    if "distinct (map key xs)" for xs
    using that by (induction xs)
      (auto simp: find_None_iff image_iff dest!: find_Some_in split: option.splits)
  with assms show ?thesis by (simp add: tfind_eq)
qed

end

end
