(* ===== verification/Subscr.thy ===== *)
theory Subscr
  imports Ecmh_State
begin

text \<open>
  \<open>subscr.c\<close>: the subscriptions of one interface to one group, keyed by the source address
  (the unspecified address stands for any source).
\<close>

definition subscr_create :: "in6_addr \<Rightarrow> u64 \<Rightarrow> world \<Rightarrow> subscrnode option \<times> world" where
  "subscr_create ipv6 mode w = (case calloc w of
       (False, w1) \<Rightarrow> (None, w1)
     | (True, w1) \<Rightarrow>
         (Some \<lparr>sb_ipv6 = ipv6, sb_mode = mode, sb_refreshtime = gettimes w1\<rparr>, w1))"

definition subscr_find :: "subscrnode clist \<Rightarrow> in6_addr \<Rightarrow> subscrnode option" where
  "subscr_find l ipv6 = find (\<lambda>s. IN6_ARE_ADDR_EQUAL ipv6 (sb_ipv6 s)) (nodes l)"

definition subscr_unsub :: "subscrnode clist \<Rightarrow> in6_addr \<Rightarrow> bool \<times> subscrnode clist" where
  "subscr_unsub l ipv6 =
     (case find (\<lambda>s. IN6_ARE_ADDR_EQUAL ipv6 (sb_ipv6 s)) (nodes l) of
        None \<Rightarrow> (False, l)
      | Some _ \<Rightarrow> (True, cl_delete_first (\<lambda>s. IN6_ARE_ADDR_EQUAL ipv6 (sb_ipv6 s)) l))"

text \<open>
  What holds of every subscription: a whole address, one of the two filter modes, and an
  exclusion always names a source.
\<close>

definition sub_ok :: "subscrnode \<Rightarrow> bool" where
  "sub_ok s \<longleftrightarrow> addr_wf (sb_ipv6 s) \<and> sb_mode s \<in> {MODE_INCLUDE, MODE_EXCLUDE} \<and>
     (sb_mode s = MODE_EXCLUDE \<longrightarrow> sb_ipv6 s \<noteq> in6addr_any)"

definition subs_ok :: "subscrnode clist \<Rightarrow> bool" where
  "subs_ok l \<longleftrightarrow> cl_marked (- ECMH_ROBUSTNESS_FACTOR) l \<and> distinct (map sb_ipv6 (nodes l)) \<and>
     (\<forall>s \<in> set (nodes l). sub_ok s)"

lemma MODE_neq [simp]: "MODE_EXCLUDE \<noteq> MODE_INCLUDE" "MODE_INCLUDE \<noteq> MODE_EXCLUDE"
  by (simp_all add: layout)

interpretation subs: keyed_table sb_ipv6 subscr_find
  by unfold_locales (simp add: subscr_find_def IN6_ARE_ADDR_EQUAL_def eq_commute)

lemma subs_ok_new [simp]: "subs_ok cl_new"
  by (auto simp: subs_ok_def)

lemma subs_ok_purge: "subs_ok l \<Longrightarrow> subs_ok (cl_loop2_delete P l)"
  by (auto simp: subs_ok_def distinct_map intro: inj_on_subset)

lemma subscr_unsub_eq: "subscr_unsub l ipv6 =
    (subscr_find l ipv6 \<noteq> None, cl_delete_first (\<lambda>s. sb_ipv6 s = ipv6) l)"
  by (auto simp: subscr_unsub_def subscr_find_def cl_delete_first_def IN6_ARE_ADDR_EQUAL_def
      eq_commute [of ipv6] split: option.splits)

lemma subs_ok_unsub: "subs_ok l \<Longrightarrow> subs_ok (snd (subscr_unsub l ipv6))"
  using set_del_first [of "\<lambda>s. sb_ipv6 s = ipv6" "nodes l"]
  by (auto simp: subscr_unsub_eq subs_ok_def distinct_map_del_first)

lemma subscr_create_world:
  "subscr_create ipv6 mode w = (r, w') \<Longrightarrow> (\<exists>b. calloc w = (b, w'))"
  by (auto simp: subscr_create_def split: prod.splits bool.splits)

end
