(* ===== verification/Grpint.thy ===== *)
theory Grpint
  imports Subscr
begin

text \<open>
  \<open>grpint.c\<close>: the interfaces that joined a group, keyed by interface index, each with its
  subscriptions.
\<close>

text \<open>
  \<open>list_new\<close> may fail as well; its result is used unchecked.
\<close>

definition grpint_create :: "intnode \<Rightarrow> world \<Rightarrow> (grpintnode option \<times> world) result" where
  "grpint_create interface w = (case calloc w of
       (False, w1) \<Rightarrow> Inr (None, w1)
     | (True, w1) \<Rightarrow> (case calloc w1 of
           (False, w2) \<Rightarrow> Inl NullDeref
         | (True, w2) \<Rightarrow> Inr (Some \<lparr>gi_ifindex = in_ifindex interface, gi_subscriptions = cl_new\<rparr>, w2)))"

definition grpint_find :: "grpintnode clist \<Rightarrow> u64 \<Rightarrow> grpintnode option" where
  "grpint_find l ifindex = find (\<lambda>g. gi_ifindex g = ifindex) (nodes l)"

text \<open>The update that ends \<open>grpint_refresh\<close>.\<close>

definition subscr_touch :: "u64 \<Rightarrow> u64 \<Rightarrow> subscrnode \<Rightarrow> subscrnode" where
  "subscr_touch mode now s =
     (let s1 = (if mode \<noteq> sb_mode s then s\<lparr>sb_mode := mode\<rparr> else s)
      in s1\<lparr>sb_refreshtime := now\<rparr>)"

definition grpint_refresh ::
    "grpintnode \<Rightarrow> in6_addr \<Rightarrow> u64 \<Rightarrow> world \<Rightarrow> bool \<times> grpintnode \<times> world" where
  "grpint_refresh g ipv6 mode w =
     (let subs = gi_subscriptions g; subscrn = subscr_find subs ipv6 in
      if mode = MODE_EXCLUDE \<and> IN6_IS_ADDR_UNSPECIFIED ipv6 then (True, g, w)
      else case subscrn of
        Some s \<Rightarrow>
          (True, g\<lparr>gi_subscriptions :=
             cl_upd (\<lambda>s. IN6_ARE_ADDR_EQUAL ipv6 (sb_ipv6 s)) (subscr_touch mode (w_now w)) subs\<rparr>, w)
      | None \<Rightarrow> (case subscr_create ipv6 mode w of
            (None, w1) \<Rightarrow> (False, g, w1)
          | (Some s, w1) \<Rightarrow>
              (let (ok, w2) = calloc w1
               in (True, g\<lparr>gi_subscriptions := cl_add ok (subscr_touch mode (w_now w2) s) subs\<rparr>, w2))))"

definition grpint_ok :: "grpintnode \<Rightarrow> bool" where
  "grpint_ok g \<longleftrightarrow> subs_ok (gi_subscriptions g)"

definition grpints_ok :: "grpintnode clist \<Rightarrow> bool" where
  "grpints_ok l \<longleftrightarrow> cl_exact l \<and> distinct (map gi_ifindex (nodes l)) \<and>
     (\<forall>g \<in> set (nodes l). grpint_ok g)"

text \<open>What a call of \<open>calloc\<close> can change of the state.\<close>

definition same_but_calloc :: "world \<Rightarrow> world \<Rightarrow> bool" where
  "same_but_calloc w w' \<longleftrightarrow> (\<exists>n. w' = w\<lparr>w_calloc := drop n (w_calloc w)\<rparr>)"

lemma same_but_calloc_refl [simp]: "same_but_calloc w w"
  unfolding same_but_calloc_def by (rule exI [of _ 0]) simp

lemma same_but_calloc_trans:
  "same_but_calloc u v \<Longrightarrow> same_but_calloc v w \<Longrightarrow> same_but_calloc u w"
  unfolding same_but_calloc_def by (elim exE) (simp, blast)

lemma calloc_same: "calloc w = (b, w') \<Longrightarrow> same_but_calloc w w'"
proof (cases "w_calloc w")
  case (Cons c bs)
  then show "calloc w = (b, w') \<Longrightarrow> same_but_calloc w w'"
    by (auto simp: calloc_def same_but_calloc_def intro: exI [of _ 1])
qed (simp add: calloc_def)

lemma same_but_calloc_fields:
  assumes "same_but_calloc w w'"
  shows "ints w' = ints w" "groups w' = groups w" "w_now w' = w_now w" "w_sent w' = w_sent w"
    "maxinterfaces w' = maxinterfaces w" "buffer w' = buffer w" "bufferlen w' = bufferlen w"
    "mld1only w' = mld1only w" "mld2only w' = mld2only w" "upstream w' = upstream w"
    "upstream_id w' = upstream_id w" "w_last_update w' = w_last_update w"
    "w_calloc w = [] \<Longrightarrow> w_calloc w' = []"
  using assms by (auto simp: same_but_calloc_def)

interpretation gints: keyed_table gi_ifindex grpint_find
  by unfold_locales (simp add: grpint_find_def)

lemma subscr_touch_simps [simp]:
  "sb_ipv6 (subscr_touch m t s) = sb_ipv6 s" "sb_mode (subscr_touch m t s) = m"
  "sb_refreshtime (subscr_touch m t s) = t"
  by (simp_all add: subscr_touch_def Let_def)

lemma sub_ok_touch:
  assumes "addr_wf (sb_ipv6 s)" and "m \<in> {MODE_INCLUDE, MODE_EXCLUDE}"
    and "\<not> (m = MODE_EXCLUDE \<and> IN6_IS_ADDR_UNSPECIFIED (sb_ipv6 s))"
  shows "sub_ok (subscr_touch m t s)"
  using assms by (auto simp: sub_ok_def IN6_IS_ADDR_UNSPECIFIED_def)

lemma grpint_refresh_same:
  assumes "grpint_refresh g ipv6 mode w = (r, g', w')"
  shows "same_but_calloc w w'" and "gi_ifindex g' = gi_ifindex g"
proof -
  consider (skip) "g' = g" "w' = w"
    | (found) f where "g' = g\<lparr>gi_subscriptions := f\<rparr>" "w' = w"
    | (full) s where "subscr_create ipv6 mode w = (s, w')" "g' = g"
    | (new) s w1 b f where "subscr_create ipv6 mode w = (s, w1)" "calloc w1 = (b, w')"
        "g' = g\<lparr>gi_subscriptions := f\<rparr>"
    using assms by (auto simp: grpint_refresh_def Let_def split: if_splits option.splits prod.splits)
  then have "same_but_calloc w w' \<and> gi_ifindex g' = gi_ifindex g"
    by cases (auto dest!: subscr_create_world calloc_same intro: same_but_calloc_trans)
  then show "same_but_calloc w w'" and "gi_ifindex g' = gi_ifindex g" by auto
qed

text \<open>
  The effect on the table of subscriptions, as a map from sources: refreshed or entered,
  unless memory runs out.
\<close>

lemma grpint_refresh_lookup:
  assumes "grpint_refresh g ipv6 mode w = (r, g', w')"
    and "\<not> (mode = MODE_EXCLUDE \<and> ipv6 = in6addr_any)"
  shows "subscr_find (gi_subscriptions g') a =
      (if a = ipv6 then Some \<lparr>sb_ipv6 = ipv6, sb_mode = mode, sb_refreshtime = w_now w\<rparr>
       else subscr_find (gi_subscriptions g) a) \<or>
     (g' = g \<and> w_calloc w \<noteq> [])"
proof (cases "subscr_find (gi_subscriptions g) ipv6")
  case (Some s)
  with assms have g': "g' = g\<lparr>gi_subscriptions :=
      cl_upd (\<lambda>s. sb_ipv6 s = ipv6) (subscr_touch mode (w_now w)) (gi_subscriptions g)\<rparr>"
    by (auto simp: grpint_refresh_def Let_def IN6_IS_ADDR_UNSPECIFIED_def IN6_ARE_ADDR_EQUAL_def
        eq_commute [of ipv6])
  have "subscr_touch mode (w_now w) s = \<lparr>sb_ipv6 = ipv6, sb_mode = mode, sb_refreshtime = w_now w\<rparr>"
    using subs.tfind_SomeD [OF Some] by (simp add: subscr_touch_def)
  then show ?thesis by (simp add: g' subs.tfind_upd Some)
next
  case None
  from assms None have "(\<exists>w1 w2 b s. subscr_create ipv6 mode w = (Some s, w1) \<and> calloc w1 = (b, w2) \<and>
      g' = g\<lparr>gi_subscriptions := cl_add b (subscr_touch mode (w_now w2) s) (gi_subscriptions g)\<rparr>) \<or>
      (\<exists>w1. subscr_create ipv6 mode w = (None, w1) \<and> g' = g)"
    by (auto simp: grpint_refresh_def Let_def IN6_IS_ADDR_UNSPECIFIED_def
        split: prod.splits option.splits)
  then show ?thesis
  proof (elim disjE exE conjE)
    fix w1 w2 b s
    assume c: "subscr_create ipv6 mode w = (Some s, w1)" "calloc w1 = (b, w2)"
      and g': "g' = g\<lparr>gi_subscriptions := cl_add b (subscr_touch mode (w_now w2) s) (gi_subscriptions g)\<rparr>"
    from c have s: "subscr_touch mode (w_now w2) s =
        \<lparr>sb_ipv6 = ipv6, sb_mode = mode, sb_refreshtime = w_now w\<rparr>"
      by (auto simp: subscr_create_def subscr_touch_def Let_def gettimes_def calloc_fields
          split: prod.splits bool.splits)
    have "b \<or> w_calloc w \<noteq> []"
      using c by (auto simp: subscr_create_def calloc_def split: prod.splits bool.splits list.splits)
    then show ?thesis using None
      by (cases b) (auto simp: g' s subs.tfind_add)
  next
    fix w1
    assume none: "subscr_create ipv6 mode w = (None, w1)" and g': "g' = g"
    have "w_calloc w \<noteq> []" using none
      by (cases "w_calloc w") (simp_all add: subscr_create_def calloc_def)
    with g' show ?thesis by simp
  qed
qed

lemma subs_ok_upd:
  assumes "subs_ok l" and "addr_wf ipv6" and "m \<in> {MODE_INCLUDE, MODE_EXCLUDE}"
    and "\<not> (m = MODE_EXCLUDE \<and> IN6_IS_ADDR_UNSPECIFIED ipv6)"
  shows "subs_ok (cl_upd (\<lambda>s. IN6_ARE_ADDR_EQUAL ipv6 (sb_ipv6 s)) (subscr_touch m t) l)"
proof -
  have "sub_ok s" if "s \<in> set (upd_first (\<lambda>s. IN6_ARE_ADDR_EQUAL ipv6 (sb_ipv6 s)) (subscr_touch m t) (nodes l))" for s
    using that assms set_upd_first [of "\<lambda>s. IN6_ARE_ADDR_EQUAL ipv6 (sb_ipv6 s)" "subscr_touch m t" "nodes l"]
    by (auto simp: subs_ok_def IN6_ARE_ADDR_EQUAL_def intro: sub_ok_touch)
  with assms(1) show ?thesis
    by (auto simp: subs_ok_def map_upd_first)
qed

lemma subs_ok_add:
  assumes "subs_ok l" and "sub_ok s" and "subscr_find l (sb_ipv6 s) = None"
  shows "subs_ok (cl_add ok s l)"
  using assms subs.distinct_add [of l s ok]
  by (cases ok) (auto simp: subs_ok_def layout)

lemma grpint_refresh_ok:
  assumes "grpint_ok g" and "addr_wf ipv6" and "mode \<in> {MODE_INCLUDE, MODE_EXCLUDE}"
    and "grpint_refresh g ipv6 mode w = (r, g', w')"
  shows "grpint_ok g'"
proof (cases "mode = MODE_EXCLUDE \<and> IN6_IS_ADDR_UNSPECIFIED ipv6")
  case True
  with assms show ?thesis by (auto simp: grpint_refresh_def Let_def)
next
  case no_skip: False
  show ?thesis
  proof (cases "subscr_find (gi_subscriptions g) ipv6")
    case (Some s)
    with assms no_skip subs_ok_upd show ?thesis
      by (auto simp: grpint_refresh_def grpint_ok_def Let_def)
  next
    case None
    have touch: "sub_ok (subscr_touch mode t \<lparr>sb_ipv6 = ipv6, sb_mode = mode, sb_refreshtime = u\<rparr>)" for t u
      using assms no_skip by (intro sub_ok_touch) auto
    from None assms no_skip touch show ?thesis
      by (auto simp: grpint_refresh_def grpint_ok_def Let_def subscr_create_def
          split: prod.splits bool.splits intro!: subs_ok_add)
  qed
qed

text \<open>Without memory pressure a refresh always succeeds.\<close>

lemma grpint_refresh_True:
  assumes "w_calloc w = []" and "grpint_refresh g ipv6 mode w = (r, g', w')"
  shows "r \<and> w' = w"
  using assms
  by (auto simp: grpint_refresh_def Let_def subscr_create_def calloc_def
      split: if_splits option.splits)

end
