(* ===== verification/Mcast_Groups.thy ===== *)
theory Mcast_Groups
  imports Grpint
begin

text \<open>
  \<open>groups.c\<close>: the multicast groups, keyed by address, each with the interfaces that joined.
\<close>

definition group_create :: "in6_addr \<Rightarrow> world \<Rightarrow> (groupnode option \<times> world) result" where
  "group_create mca w = (case calloc w of
       (False, w1) \<Rightarrow> Inr (None, w1)
     | (True, w1) \<Rightarrow> (case calloc w1 of
           (False, w2) \<Rightarrow> Inl NullDeref
         | (True, w2) \<Rightarrow> Inr (Some \<lparr>gr_mca = mca, gr_interfaces = cl_new, gr_lastforward = 0,
             gr_bytes = 0, gr_packets = 0\<rparr>, w2)))"

definition group_find :: "groupnode clist \<Rightarrow> in6_addr \<Rightarrow> groupnode option" where
  "group_find l mca = find (\<lambda>g. IN6_ARE_ADDR_EQUAL mca (gr_mca g)) (nodes l)"

definition upd_group :: "in6_addr \<Rightarrow> (groupnode \<Rightarrow> groupnode) \<Rightarrow> world \<Rightarrow> world" where
  "upd_group mca f w = w\<lparr>groups := cl_upd (\<lambda>g. IN6_ARE_ADDR_EQUAL mca (gr_mca g)) f (groups w)\<rparr>"

text \<open>
  A \<open>struct grpintnode *\<close> as \<open>groupint_get\<close> returns it: a node of the tables, or a node that
  \<open>listnode_add\<close> could not enter, which is then reachable through this pointer only.
\<close>

datatype grpint_ptr = Linked in6_addr u64 | Unlinked grpintnode

text \<open>
  The first half: find the group or create it, and tell whether a report is due. The
  third component tells whether the group is a node of \<open>g_conf->groups\<close>.
\<close>

definition groupint_get_group ::
    "in6_addr \<Rightarrow> world \<Rightarrow> (groupnode option \<times> bool \<times> bool \<times> world) result" where
  "groupint_get_group mca w =
     (let t = gettimes w in
      case group_find (groups w) mca of
        None \<Rightarrow> rbind (group_create mca w) (\<lambda>(groupn, w1).
          case groupn of
            None \<Rightarrow> Inr (None, False, False, w1)
          | Some g \<Rightarrow> (let (ok, w2) = calloc w1
              in Inr (Some g, ok, True, w2\<lparr>groups := cl_add ok g (groups w2)\<rparr>)))
      | Some g \<Rightarrow> Inr (Some g, True, t - gr_lastforward g \<ge> ECMH_SUBSCRIPTION_TIMEOUT, w))"

text \<open>
  The second half. The test \<open>if (isnew)\<close> is on the pointer, so the time of the last report is
  set on every call.
\<close>

definition groupint_get ::
    "in6_addr \<Rightarrow> intnode \<Rightarrow> world \<Rightarrow> (grpint_ptr option \<times> bool \<times> world) result" where
  "groupint_get mca interface w =
     rbind (groupint_get_group mca w) (\<lambda>(groupn, linked, isnew, w1).
       case groupn of
         None \<Rightarrow> Inr (None, isnew, w1)
       | Some g0 \<Rightarrow>
          (let g = g0\<lparr>gr_lastforward := gettimes w\<rparr>;
               back = (\<lambda>g' u. if linked then upd_group mca (\<lambda>_. g') u else u)
           in case grpint_find (gr_interfaces g) (in_ifindex interface) of
                Some gi \<Rightarrow> Inr (Some (if linked then Linked mca (in_ifindex interface) else Unlinked gi),
                                 isnew, back g w1)
              | None \<Rightarrow> rbind (grpint_create interface w1) (\<lambda>(grpintn, w2).
                  case grpintn of
                    None \<Rightarrow> Inr (None, isnew, back g w2)
                  | Some gi \<Rightarrow>
                     (let (ok, w3) = calloc w2;
                          g' = g\<lparr>gr_interfaces := cl_add ok gi (gr_interfaces g)\<rparr>
                      in Inr (Some (if linked \<and> ok then Linked mca (in_ifindex interface) else Unlinked gi),
                              isnew, back g' w3)))))"

text \<open>\<open>grpint_refresh\<close> through such a pointer.\<close>

definition grpint_of :: "world \<Rightarrow> in6_addr \<Rightarrow> u64 \<Rightarrow> grpintnode option" where
  "grpint_of w mca ifindex = (case group_find (groups w) mca of None \<Rightarrow> None
     | Some g \<Rightarrow> grpint_find (gr_interfaces g) ifindex)"

definition upd_grpint :: "in6_addr \<Rightarrow> u64 \<Rightarrow> (grpintnode \<Rightarrow> grpintnode) \<Rightarrow> world \<Rightarrow> world" where
  "upd_grpint mca ifindex f =
     upd_group mca (\<lambda>g. g\<lparr>gr_interfaces := cl_upd (\<lambda>gi. gi_ifindex gi = ifindex) f (gr_interfaces g)\<rparr>)"

definition grpint_refresh_at ::
    "grpint_ptr \<Rightarrow> in6_addr \<Rightarrow> u64 \<Rightarrow> world \<Rightarrow> (bool \<times> grpint_ptr \<times> world) result" where
  "grpint_refresh_at p ipv6 mode w =
     (case p of
        Unlinked gi \<Rightarrow> (let (r, gi', w') = grpint_refresh gi ipv6 mode w in Inr (r, Unlinked gi', w'))
      | Linked mca ifindex \<Rightarrow>
          (case grpint_of w mca ifindex of
             None \<Rightarrow> Inl OutOfBounds
           | Some gi \<Rightarrow> (let (r, gi', w') = grpint_refresh gi ipv6 mode w
               in Inr (r, p, upd_grpint mca ifindex (\<lambda>_. gi') w'))))"

definition group_destroy :: "groupnode \<Rightarrow> groupnode" where
  "group_destroy g = g\<lparr>gr_interfaces := cl_delete_all (gr_interfaces g)\<rparr>"

section \<open>Well-formed tables\<close>

text \<open>
  No group of the tables is node-local or link-local: both kinds of report are filtered.
\<close>

definition group_ok :: "groupnode \<Rightarrow> bool" where
  "group_ok g \<longleftrightarrow> addr_wf (gr_mca g) \<and> \<not> IN6_IS_ADDR_MC_NODELOCAL (gr_mca g) \<and>
     \<not> IN6_IS_ADDR_MC_LINKLOCAL (gr_mca g) \<and> grpints_ok (gr_interfaces g)"

definition groups_ok :: "groupnode clist \<Rightarrow> bool" where
  "groups_ok l \<longleftrightarrow> cl_exact l \<and> distinct (map gr_mca (nodes l)) \<and> (\<forall>g \<in> set (nodes l). group_ok g)"

text \<open>The membership table that the three levels of lists stand for.\<close>

definition membership :: "world \<Rightarrow> in6_addr \<Rightarrow> u64 \<Rightarrow> in6_addr \<Rightarrow> subscrnode option" where
  "membership w mca ifindex src = (case grpint_of w mca ifindex of None \<Rightarrow> None
     | Some gi \<Rightarrow> subscr_find (gi_subscriptions gi) src)"

interpretation grps: keyed_table gr_mca group_find
  by unfold_locales (simp add: group_find_def IN6_ARE_ADDR_EQUAL_def eq_commute)

text \<open>What the table operations leave alone: all but the groups and the allocator.\<close>

definition same_but_groups :: "world \<Rightarrow> world \<Rightarrow> bool" where
  "same_but_groups w w' \<longleftrightarrow> (\<exists>gs n. w' = w\<lparr>groups := gs, w_calloc := drop n (w_calloc w)\<rparr>)"

lemma same_but_groups_refl [simp]: "same_but_groups w w"
  unfolding same_but_groups_def by (intro exI [of _ "groups w"] exI [of _ 0]) simp

lemma same_but_groups_trans:
  assumes "same_but_groups u v" and "same_but_groups v w"
  shows "same_but_groups u w"
proof -
  obtain gs n where "w = v\<lparr>groups := gs, w_calloc := drop n (w_calloc v)\<rparr>"
    using assms(2) unfolding same_but_groups_def by blast
  moreover obtain gs' n' where "v = u\<lparr>groups := gs', w_calloc := drop n' (w_calloc u)\<rparr>"
    using assms(1) unfolding same_but_groups_def by blast
  ultimately have "w = u\<lparr>groups := gs, w_calloc := drop (n + n') (w_calloc u)\<rparr>" by simp
  then show ?thesis unfolding same_but_groups_def by blast
qed

lemma same_but_groups_calloc: "same_but_calloc w w' \<Longrightarrow> same_but_groups w w'"
  unfolding same_but_calloc_def same_but_groups_def
  by (elim exE) (intro exI [of _ "groups w"] exI, simp)

lemma same_but_groups_upd:
  assumes "same_but_groups w u"
  shows "same_but_groups w (u\<lparr>groups := gs\<rparr>)"
proof -
  obtain gs' n where "u = w\<lparr>groups := gs', w_calloc := drop n (w_calloc w)\<rparr>"
    using assms unfolding same_but_groups_def by blast
  then have "u\<lparr>groups := gs\<rparr> = w\<lparr>groups := gs, w_calloc := drop n (w_calloc w)\<rparr>" by simp
  then show ?thesis unfolding same_but_groups_def by blast
qed

lemma same_but_groups_fields:
  assumes "same_but_groups w w'"
  shows "ints w' = ints w" "w_now w' = w_now w" "w_sent w' = w_sent w"
    "maxinterfaces w' = maxinterfaces w" "buffer w' = buffer w" "bufferlen w' = bufferlen w"
    "mld1only w' = mld1only w" "mld2only w' = mld2only w" "upstream w' = upstream w"
    "upstream_id w' = upstream_id w" "w_last_update w' = w_last_update w"
    "w_calloc w = [] \<Longrightarrow> w_calloc w' = []"
  using assms by (auto simp: same_but_groups_def)

lemma upd_group_eq:
  "upd_group mca f w = w\<lparr>groups := cl_upd (\<lambda>g. gr_mca g = mca) f (groups w)\<rparr>"
  by (simp add: upd_group_def IN6_ARE_ADDR_EQUAL_def eq_commute [of mca])

lemma groups_upd_group [simp]:
  "groups (upd_group mca f w) = cl_upd (\<lambda>g. gr_mca g = mca) f (groups w)"
  by (simp add: upd_group_eq)

lemma groups_ok_upd:
  assumes "groups_ok l" and "\<And>g. gr_mca g = mca \<Longrightarrow> gr_mca (f g) = mca"
    and "\<And>g. group_find l mca = Some g \<Longrightarrow> group_ok (f g)"
  shows "groups_ok (cl_upd (\<lambda>g. gr_mca g = mca) f l)"
  using assms grps.keys_upd [of mca f l, OF assms(2)] grps.all_upd [of l group_ok mca f]
  by (auto simp: groups_ok_def)

lemma grpints_ok_upd:
  assumes "grpints_ok l" and "\<And>g. gi_ifindex g = i \<Longrightarrow> gi_ifindex (f g) = i"
    and "\<And>g. grpint_find l i = Some g \<Longrightarrow> grpint_ok (f g)"
  shows "grpints_ok (cl_upd (\<lambda>g. gi_ifindex g = i) f l)"
  using assms gints.keys_upd [of i f l, OF assms(2)] gints.all_upd [of l grpint_ok i f]
  by (auto simp: grpints_ok_def)

lemma grpints_ok_new [simp]: "grpints_ok cl_new"
  by (simp add: grpints_ok_def)

lemma grpints_ok_add:
  assumes "grpints_ok l" and "grpint_ok g" and "grpint_find l (gi_ifindex g) = None"
  shows "grpints_ok (cl_add ok g l)"
  using assms gints.distinct_add [of l g ok] by (cases ok) (auto simp: grpints_ok_def)

lemma groups_ok_add:
  assumes "groups_ok l" and "group_ok g" and "group_find l (gr_mca g) = None"
  shows "groups_ok (cl_add ok g l)"
  using assms grps.distinct_add [of l g ok] by (cases ok) (auto simp: groups_ok_def)

lemma groups_okD:
  assumes "groups_ok l" and "group_find l mca = Some g"
  shows "group_ok g" and "gr_mca g = mca"
  using assms grps.tfind_SomeD [OF assms(2)] by (auto simp: groups_ok_def)

lemma grpint_create_Inr:
  assumes "grpint_create interface w = Inr (r, w')"
  shows "same_but_calloc w w'"
    and "\<And>gi. r = Some gi \<Longrightarrow> gi = \<lparr>gi_ifindex = in_ifindex interface, gi_subscriptions = cl_new\<rparr>"
  using assms by (auto simp: grpint_create_def split: prod.splits bool.splits
      dest!: calloc_same intro: same_but_calloc_trans)

lemma group_create_Inr:
  assumes "group_create mca w = Inr (r, w')"
  shows "same_but_calloc w w'"
    and "\<And>g. r = Some g \<Longrightarrow> g = \<lparr>gr_mca = mca, gr_interfaces = cl_new, gr_lastforward = 0,
             gr_bytes = 0, gr_packets = 0\<rparr>"
  using assms by (auto simp: group_create_def split: prod.splits bool.splits
      dest!: calloc_same intro: same_but_calloc_trans)

text \<open>The group that the first half hands to the second.\<close>

definition got_group ::
    "in6_addr \<Rightarrow> world \<Rightarrow> groupnode \<Rightarrow> bool \<Rightarrow> world \<Rightarrow> bool" where
  "got_group mca w g linked w1 \<longleftrightarrow> gr_mca g = mca \<and>
     (case group_find (groups w) mca of
        Some g0 \<Rightarrow> g = g0 \<and> linked \<and> groups w1 = groups w
      | None \<Rightarrow> gr_interfaces g = cl_new \<and> groups w1 = cl_add linked g (groups w))"

lemma groupint_get_group_Inr:
  assumes "groupint_get_group mca w = Inr (gn, linked, isnew, w1)"
  shows "same_but_groups w w1"
    and "gn = None \<Longrightarrow> groups w1 = groups w"
    and "gn = Some g \<Longrightarrow> got_group mca w g linked w1"
proof -
  have "same_but_groups w w1 \<and> (gn = None \<longrightarrow> groups w1 = groups w) \<and>
      (\<forall>g. gn = Some g \<longrightarrow> got_group mca w g linked w1)"
  proof (cases "group_find (groups w) mca")
    case (Some g0)
    with assms grps.tfind_SomeD [OF Some] show ?thesis
      by (auto simp: groupint_get_group_def got_group_def Let_def)
  next
    case None
    with assms obtain r u where c: "group_create mca w = Inr (r, u)"
      by (auto simp: groupint_get_group_def)
    note cr = group_create_Inr [OF c] and def = assms [unfolded groupint_get_group_def, simplified None c]
    show ?thesis
    proof (cases r)
      case None
      with def cr(1) show ?thesis
        by (auto simp: same_but_calloc_fields intro: same_but_groups_calloc)
    next
      case (Some g)
      obtain ok v where cv: "calloc u = (ok, v)" by (cases "calloc u")
      from cr(1) calloc_same [OF cv] have v: "same_but_calloc w v"
        by (rule same_but_calloc_trans)
      from Some def cv have "gn = Some g" "linked = ok" "w1 = v\<lparr>groups := cl_add ok g (groups v)\<rparr>"
        by auto
      moreover have "same_but_groups w (v\<lparr>groups := cl_add ok g (groups v)\<rparr>)"
        using v by (intro same_but_groups_upd same_but_groups_calloc)
      ultimately show ?thesis using cr(2) [OF Some] None
        by (simp add: got_group_def same_but_calloc_fields [OF v])
    qed
  qed
  then show "same_but_groups w w1" "gn = None \<Longrightarrow> groups w1 = groups w"
    "gn = Some g \<Longrightarrow> got_group mca w g linked w1" by auto
qed

text \<open>The interfaces of the group after the second half.\<close>

definition joined :: "u64 \<Rightarrow> grpintnode clist \<Rightarrow> grpintnode clist \<Rightarrow> bool" where
  "joined i l l' \<longleftrightarrow> l' = l \<or> (\<exists>ok. grpint_find l i = None \<and>
     l' = cl_add ok \<lparr>gi_ifindex = i, gi_subscriptions = cl_new\<rparr> l)"

definition good_ptr :: "in6_addr \<Rightarrow> u64 \<Rightarrow> grpintnode clist \<Rightarrow> grpint_ptr option \<Rightarrow> bool" where
  "good_ptr mca i l p \<longleftrightarrow> (case p of None \<Rightarrow> True
     | Some (Unlinked gi) \<Rightarrow> gi = \<lparr>gi_ifindex = i, gi_subscriptions = cl_new\<rparr>
     | Some (Linked m j) \<Rightarrow> m = mca \<and> j = i \<and> grpint_find l i \<noteq> None)"

lemma groupint_get_None:
  assumes "groupint_get_group mca w = Inr (None, linked, isnew, w1)"
  shows "groupint_get mca interface w = Inr (None, isnew, w1)"
  by (simp add: groupint_get_def assms)

lemma groupint_get_Some:
  assumes get: "groupint_get mca interface w = Inr (p, isnew', w')"
    and group: "groupint_get_group mca w = Inr (Some g0, linked, isnew, w1)"
  obtains u ifs where "same_but_calloc w1 u" and "joined (in_ifindex interface) (gr_interfaces g0) ifs"
    and "w' = (if linked then upd_group mca (\<lambda>_. g0\<lparr>gr_lastforward := w_now w, gr_interfaces := ifs\<rparr>) u else u)"
    and "linked \<Longrightarrow> good_ptr mca (in_ifindex interface) ifs p"
    and "\<not> linked \<Longrightarrow> gr_interfaces g0 = cl_new \<Longrightarrow> good_ptr mca (in_ifindex interface) cl_new p"
proof (cases "grpint_find (gr_interfaces g0) (in_ifindex interface)")
  case (Some gi)
  with get group show ?thesis
    by (intro that [of w1 "gr_interfaces g0"])
      (auto simp: groupint_get_def Let_def joined_def good_ptr_def gettimes_def grpint_find_def)
next
  case None
  then obtain r v where c: "grpint_create interface w1 = Inr (r, v)"
    using get group by (auto simp: groupint_get_def Let_def)
  note cr = grpint_create_Inr [OF c]
  show ?thesis
  proof (cases r)
    case none: None
    with get group None c cr(1) show ?thesis
      by (intro that [of v "gr_interfaces g0"])
        (auto simp: groupint_get_def Let_def joined_def good_ptr_def gettimes_def)
  next
    case (Some gi)
    obtain ok u where cu: "calloc v = (ok, u)" by (cases "calloc v")
    have u: "same_but_calloc w1 u"
      using cr(1) calloc_same [OF cu] by (rule same_but_calloc_trans)
    have "w' = (if linked then upd_group mca
        (\<lambda>_. g0\<lparr>gr_lastforward := w_now w, gr_interfaces := cl_add ok gi (gr_interfaces g0)\<rparr>) u else u)"
      and p: "p = Some (if linked \<and> ok then Linked mca (in_ifindex interface) else Unlinked gi)"
      using get group None c Some cu by (auto simp: groupint_get_def Let_def gettimes_def)
    moreover have "grpint_find (cl_add True gi (gr_interfaces g0)) (in_ifindex interface) = Some gi"
      using cr(2) [OF Some] None gints.tfind_add [of "gr_interfaces g0" gi True] by simp
    ultimately show ?thesis using u cr(2) [OF Some] None
      by (intro that [of u "cl_add ok gi (gr_interfaces g0)"])
        (auto simp: joined_def good_ptr_def)
  qed
qed

text \<open>
  Both halves together: either the tables stay as they are, or the group is in them, with the
  interface entered unless memory ran out.
\<close>

lemma groupint_get_Inr:
  assumes "groupint_get mca interface w = Inr (p, isnew, w')"
  obtains (same) "same_but_groups w w'" and "groups w' = groups w"
      and "good_ptr mca (in_ifindex interface) cl_new p"
    | (entered) g0 ifs where "same_but_groups w w'" and "gr_mca g0 = mca"
      and "case group_find (groups w) mca of Some g \<Rightarrow> g0 = g | None \<Rightarrow> gr_interfaces g0 = cl_new"
      and "joined (in_ifindex interface) (gr_interfaces g0) ifs"
      and "groups w' = cl_upd (\<lambda>g. gr_mca g = mca)
            (\<lambda>_. g0\<lparr>gr_lastforward := w_now w, gr_interfaces := ifs\<rparr>)
            (if group_find (groups w) mca = None then cl_add True g0 (groups w) else groups w)"
      and "good_ptr mca (in_ifindex interface) ifs p"
proof -
  obtain gn linked nw w1 where g: "groupint_get_group mca w = Inr (gn, linked, nw, w1)"
    using assms by (auto simp: groupint_get_def)
  note gg = groupint_get_group_Inr [OF g]
  show thesis
  proof (cases gn)
    case None
    with assms gg g show ?thesis
      by (intro same) (auto simp: groupint_get_None good_ptr_def)
  next
    case (Some g0)
    note got = gg(3) [OF Some]
    from groupint_get_Some [OF assms g [unfolded Some]] obtain u ifs
      where u: "same_but_calloc w1 u" and j: "joined (in_ifindex interface) (gr_interfaces g0) ifs"
        and w': "w' = (if linked then upd_group mca
          (\<lambda>_. g0\<lparr>gr_lastforward := w_now w, gr_interfaces := ifs\<rparr>) u else u)"
        and lp: "linked \<Longrightarrow> good_ptr mca (in_ifindex interface) ifs p"
        and up: "\<not> linked \<Longrightarrow> gr_interfaces g0 = cl_new \<Longrightarrow> good_ptr mca (in_ifindex interface) cl_new p"
      by metis
    have su: "same_but_groups w u"
      using gg(1) same_but_groups_calloc [OF u] by (rule same_but_groups_trans)
    show ?thesis
    proof (cases linked)
      case True
      have "same_but_groups w w'"
        using w' True same_but_groups_upd [OF su] by (simp add: upd_group_eq)
      with True w' j lp got u show ?thesis
        by (intro entered [of g0 ifs])
          (auto simp: got_group_def same_but_calloc_fields split: option.splits)
    next
      case False
      with got su w' up u show ?thesis
        by (intro same) (auto simp: got_group_def same_but_calloc_fields split: option.splits)
    qed
  qed
qed

text \<open>A filtered multicast address never becomes a group of the tables.\<close>

definition group_addr :: "in6_addr \<Rightarrow> bool" where
  "group_addr mca \<longleftrightarrow> addr_wf mca \<and> \<not> IN6_IS_ADDR_MC_NODELOCAL mca \<and> \<not> IN6_IS_ADDR_MC_LINKLOCAL mca"

lemma joined_ok: "joined i l l' \<Longrightarrow> grpints_ok l \<Longrightarrow> grpints_ok l'"
  by (auto simp: joined_def grpint_ok_def intro: grpints_ok_add)

lemma joined_find:
  assumes "joined i l l'"
  shows "grpint_find l' k = grpint_find l k \<or>
    (grpint_find l k = None \<and> grpint_find l' k = Some \<lparr>gi_ifindex = i, gi_subscriptions = cl_new\<rparr>)"
  using assms gints.tfind_add [of l "\<lparr>gi_ifindex = i, gi_subscriptions = cl_new\<rparr>"]
  by (auto simp: joined_def split: if_splits)

lemma groupint_get_ok:
  assumes "groupint_get mca interface w = Inr (p, isnew, w')"
    and "groups_ok (groups w)" and "group_addr mca"
  shows "groups_ok (groups w')"
  using assms(1)
proof (cases rule: groupint_get_Inr)
  case same
  with assms(2) show ?thesis by simp
next
  case (entered g0 ifs)
  let ?base = "if group_find (groups w) mca = None then cl_add True g0 (groups w) else groups w"
  have g0: "group_ok g0"
    using entered(2,3) assms(2,3) groups_okD(1) [OF assms(2)]
    by (auto simp: group_ok_def group_addr_def split: option.splits)
  then have "groups_ok ?base"
    using assms(2) entered(2) by (auto intro: groups_ok_add)
  moreover have "group_ok (g0\<lparr>gr_lastforward := w_now w, gr_interfaces := ifs\<rparr>)"
    using g0 joined_ok [OF entered(4)] by (simp add: group_ok_def)
  ultimately show ?thesis
    unfolding entered(5) by (intro groups_ok_upd) (simp_all add: entered(2))
qed

lemma groupint_get_group_find:
  assumes "groupint_get mca interface w = Inr (p, isnew, w')"
  shows "group_find (groups w') k = group_find (groups w) k \<or> (k = mca \<and>
    (\<exists>g0 ifs. group_find (groups w') mca = Some (g0\<lparr>gr_lastforward := w_now w, gr_interfaces := ifs\<rparr>) \<and>
      (case group_find (groups w) mca of Some g \<Rightarrow> g0 = g | None \<Rightarrow> gr_interfaces g0 = cl_new) \<and>
      joined (in_ifindex interface) (gr_interfaces g0) ifs))"
  using assms
proof (cases rule: groupint_get_Inr)
  case (entered g0 ifs)
  have "group_find (groups w') k = (if k = mca then Some (g0\<lparr>gr_lastforward := w_now w, gr_interfaces := ifs\<rparr>)
      else group_find (groups w) k)"
    unfolding entered(5)
    using entered(2,3) grps.tfind_add [of "groups w" g0 True]
    by (subst grps.tfind_upd) (auto split: option.splits)
  with entered(3,4) show ?thesis by auto
qed simp

text \<open>Entering a group or an interface subscribes nobody.\<close>

lemma grpint_find_new [simp]: "grpint_find cl_new i = None"
  by (simp add: gints.tfind_None)

lemma subscr_find_new [simp]: "subscr_find cl_new a = None"
  by (simp add: subs.tfind_None)

lemma groupint_get_membership:
  assumes "groupint_get mca interface w = Inr (p, isnew, w')"
  shows "membership w' = membership w"
proof (intro ext)
  fix k i src
  from groupint_get_group_find [OF assms, of k]
  show "membership w' k i src = membership w k i src"
    by (auto simp: membership_def grpint_of_def split: option.splits dest!: joined_find [of _ _ _ i])
qed

lemma groupint_get_ptr:
  assumes "groupint_get mca interface w = Inr (Some p, isnew, w')"
  shows "case p of Unlinked gi \<Rightarrow> gi = \<lparr>gi_ifindex = in_ifindex interface, gi_subscriptions = cl_new\<rparr>
    | Linked m i \<Rightarrow> m = mca \<and> i = in_ifindex interface \<and> grpint_of w' m i \<noteq> None"
  using assms
proof (cases rule: groupint_get_Inr)
  case same
  then show ?thesis by (auto simp: good_ptr_def split: grpint_ptr.splits)
next
  case (entered g0 ifs)
  have "group_find (groups w') mca = Some (g0\<lparr>gr_lastforward := w_now w, gr_interfaces := ifs\<rparr>)"
    unfolding entered(5)
    using entered(2,3) grps.tfind_add [of "groups w" g0 True]
    by (subst grps.tfind_upd) (auto split: option.splits)
  with entered(6) show ?thesis
    by (auto simp: good_ptr_def grpint_of_def split: grpint_ptr.splits)
qed

section \<open>Refreshing through a pointer\<close>

text \<open>A pointer that may be used in a state.\<close>

definition valid_ptr :: "world \<Rightarrow> grpint_ptr \<Rightarrow> bool" where
  "valid_ptr w p \<longleftrightarrow> (case p of Unlinked gi \<Rightarrow> grpint_ok gi | Linked m i \<Rightarrow> grpint_of w m i \<noteq> None)"

lemma groupint_get_valid:
  "groupint_get mca interface w = Inr (Some p, isnew, w') \<Longrightarrow> valid_ptr w' p"
  using groupint_get_ptr [of mca interface w p isnew w']
  by (auto simp: valid_ptr_def grpint_ok_def split: grpint_ptr.splits)

text \<open>The change of the membership table by one report of a source.\<close>

definition mem_report ::
    "in6_addr \<Rightarrow> u64 \<Rightarrow> in6_addr \<Rightarrow> u64 \<Rightarrow> u64 \<Rightarrow> (in6_addr \<Rightarrow> u64 \<Rightarrow> in6_addr \<Rightarrow> subscrnode option) \<Rightarrow>
     in6_addr \<Rightarrow> u64 \<Rightarrow> in6_addr \<Rightarrow> subscrnode option" where
  "mem_report mca i src mode t m = (if mode = MODE_EXCLUDE \<and> src = in6addr_any then m
     else (\<lambda>mca' i' src'. if mca' = mca \<and> i' = i \<and> src' = src
             then Some \<lparr>sb_ipv6 = src, sb_mode = mode, sb_refreshtime = t\<rparr> else m mca' i' src'))"

lemma upd_grpint_eq: "upd_grpint mca i f w = w\<lparr>groups := cl_upd (\<lambda>g. gr_mca g = mca)
    (\<lambda>g. g\<lparr>gr_interfaces := cl_upd (\<lambda>gi. gi_ifindex gi = i) f (gr_interfaces g)\<rparr>) (groups w)\<rparr>"
  by (simp add: upd_grpint_def upd_group_eq)

lemma grpint_of_upd:
  assumes "grpint_of w mca i = Some gi" and "gi_ifindex gi' = gi_ifindex gi"
  shows "grpint_of (upd_grpint mca i (\<lambda>_. gi') w) k j =
    (if k = mca \<and> j = i then Some gi' else grpint_of w k j)"
proof -
  have i: "gi_ifindex gi' = i"
    using assms by (auto simp: grpint_of_def split: option.splits dest!: gints.tfind_SomeD)
  show ?thesis
    using assms(1) i
    by (auto simp: upd_grpint_eq grpint_of_def grps.tfind_upd gints.tfind_upd split: option.splits)
qed

lemma groups_ok_upd_grpint:
  assumes "groups_ok (groups w)" and "grpint_of w mca i = Some gi"
    and "gi_ifindex gi' = gi_ifindex gi" and "grpint_ok gi \<Longrightarrow> grpint_ok gi'"
  shows "groups_ok (groups (upd_grpint mca i (\<lambda>_. gi') w))"
proof -
  obtain g where g: "group_find (groups w) mca = Some g" "grpint_find (gr_interfaces g) i = Some gi"
    using assms(2) by (auto simp: grpint_of_def split: option.splits)
  note gi = gints.tfind_SomeD [OF g(2)]
  have ok: "group_ok g" using assms(1) g(1) by (rule groups_okD)
  then have "grpint_ok gi" using gi by (auto simp: group_ok_def grpints_ok_def)
  then have "grpints_ok (cl_upd (\<lambda>x. gi_ifindex x = i) (\<lambda>_. gi') (gr_interfaces g))"
    using ok gi assms(3,4) by (intro grpints_ok_upd) (auto simp: group_ok_def)
  then show ?thesis
    unfolding upd_grpint_eq using assms(1) g(1) ok
    by (auto simp: group_ok_def intro!: groups_ok_upd)
qed

lemma grpint_refresh_at_Linked:
  assumes "grpint_refresh_at (Linked mca i) src mode w = Inr (r, p', w')"
  obtains gi gi' u where "grpint_of w mca i = Some gi" and "grpint_refresh gi src mode w = (r, gi', u)"
    and "p' = Linked mca i" and "w' = upd_grpint mca i (\<lambda>_. gi') u"
    and "same_but_calloc w u" and "gi_ifindex gi' = gi_ifindex gi"
  using assms grpint_refresh_same
  by (auto simp: grpint_refresh_at_def split: option.splits prod.splits)

lemma grpint_refresh_at_same:
  assumes "grpint_refresh_at p src mode w = Inr (r, p', w')"
  shows "same_but_groups w w'"
proof (cases p)
  case (Linked mca i)
  with assms show ?thesis
    by (auto elim!: grpint_refresh_at_Linked simp: upd_grpint_eq
        intro!: same_but_groups_upd dest: same_but_groups_calloc)
next
  case (Unlinked gi)
  with assms grpint_refresh_same(1) [of gi src mode w] show ?thesis
    by (auto simp: grpint_refresh_at_def intro: same_but_groups_calloc split: prod.splits)
qed

lemma grpint_of_calloc: "same_but_calloc w u \<Longrightarrow> grpint_of u = grpint_of w"
  by (simp add: grpint_of_def fun_eq_iff same_but_calloc_fields)

lemma grpint_refresh_at_ok:
  assumes "grpint_refresh_at p src mode w = Inr (r, p', w')" and "groups_ok (groups w)"
    and "addr_wf src" and "mode \<in> {MODE_INCLUDE, MODE_EXCLUDE}"
  shows "groups_ok (groups w')"
proof (cases p)
  case (Linked mca i)
  from assms(1) [unfolded Linked] show ?thesis
  proof (rule grpint_refresh_at_Linked)
    fix gi gi' u
    assume a: "grpint_of w mca i = Some gi" "grpint_refresh gi src mode w = (r, gi', u)"
      "w' = upd_grpint mca i (\<lambda>_. gi') u" "same_but_calloc w u" "gi_ifindex gi' = gi_ifindex gi"
    have "groups_ok (groups (upd_grpint mca i (\<lambda>_. gi') u))"
    proof (rule groups_ok_upd_grpint)
      show "groups_ok (groups u)" using a(4) assms(2) by (simp add: same_but_calloc_fields)
      show "grpint_of u mca i = Some gi" using a(1,4) by (simp add: grpint_of_calloc)
      show "grpint_ok gi'" if "grpint_ok gi"
        using that assms(3,4) a(2) by (rule grpint_refresh_ok)
    qed (rule a(5))
    then show ?thesis by (simp add: a(3))
  qed
next
  case (Unlinked gi)
  with assms grpint_refresh_same(1) [of gi src mode w] show ?thesis
    by (auto simp: grpint_refresh_at_def same_but_calloc_fields split: prod.splits)
qed

lemma grpint_refresh_skip:
  "grpint_refresh gi in6addr_any MODE_EXCLUDE w = (True, gi, w)"
  by (simp add: grpint_refresh_def IN6_IS_ADDR_UNSPECIFIED_def)

text \<open>
  A refresh through a pointer into the tables is one report of the source, unless memory runs
  out; a refresh of a node outside of the tables has no effect on them.
\<close>

lemma grpint_refresh_at_membership:
  assumes "grpint_refresh_at p src mode w = Inr (r, p', w')"
  shows "membership w' = (case p of Linked mca i \<Rightarrow> mem_report mca i src mode (w_now w) (membership w)
      | Unlinked _ \<Rightarrow> membership w) \<or> (membership w' = membership w \<and> w_calloc w \<noteq> [])"
proof (cases p)
  case (Linked mca i)
  from assms [unfolded Linked] show ?thesis
  proof (rule grpint_refresh_at_Linked)
    fix gi gi' u
    assume a: "grpint_of w mca i = Some gi" "grpint_refresh gi src mode w = (r, gi', u)"
      "w' = upd_grpint mca i (\<lambda>_. gi') u" "same_but_calloc w u" "gi_ifindex gi' = gi_ifindex gi"
    have m: "membership w' k j a = (if k = mca \<and> j = i then subscr_find (gi_subscriptions gi') a
        else membership w k j a)" for k j a
      using a(1,4,5) by (simp add: membership_def a(3) grpint_of_calloc grpint_of_upd)
    have m0: "membership w mca i = subscr_find (gi_subscriptions gi)"
      by (simp add: membership_def a(1) fun_eq_iff)
    show ?thesis
    proof (cases "mode = MODE_EXCLUDE \<and> src = in6addr_any")
      case True
      with a(2) have "gi' = gi" by (simp add: grpint_refresh_skip)
      with True Linked m m0 show ?thesis by (auto simp: mem_report_def fun_eq_iff)
    next
      case False
      note l = grpint_refresh_lookup [OF a(2) False]
      show ?thesis
      proof (cases "gi' = gi \<and> w_calloc w \<noteq> []")
        case True
        with m m0 show ?thesis by (auto simp: fun_eq_iff)
      next
        case no: False
        with l have "subscr_find (gi_subscriptions gi') a = (if a = src
            then Some \<lparr>sb_ipv6 = src, sb_mode = mode, sb_refreshtime = w_now w\<rparr>
            else subscr_find (gi_subscriptions gi) a)" for a by blast
        with m m0 False Linked show ?thesis by (auto simp: mem_report_def fun_eq_iff)
      qed
    qed
  qed
next
  case (Unlinked gi)
  with assms grpint_refresh_same(1) [of gi src mode w] show ?thesis
    by (auto simp: grpint_refresh_at_def membership_def fun_eq_iff grpint_of_calloc split: prod.splits)
qed

lemma grpint_refresh_at_valid:
  assumes "valid_ptr w p" and "addr_wf src" and "mode \<in> {MODE_INCLUDE, MODE_EXCLUDE}"
  shows "\<exists>r p' w'. grpint_refresh_at p src mode w = Inr (r, p', w') \<and> valid_ptr w' p'"
proof (cases p)
  case (Linked mca i)
  with assms obtain gi r gi' u where gi: "grpint_of w mca i = Some gi"
    "grpint_refresh gi src mode w = (r, gi', u)"
    by (cases "grpint_refresh (the (grpint_of w mca i)) src mode w") (auto simp: valid_ptr_def)
  with grpint_refresh_same [OF gi(2)] show ?thesis
    by (auto simp: Linked grpint_refresh_at_def valid_ptr_def grpint_of_upd grpint_of_calloc)
next
  case (Unlinked gi)
  obtain r gi' u where "grpint_refresh gi src mode w = (r, gi', u)"
    by (cases "grpint_refresh gi src mode w")
  moreover have "grpint_ok gi'" if "grpint_refresh gi src mode w = (r, gi', u)" for r gi' u
    using assms Unlinked that by (auto simp: valid_ptr_def intro: grpint_refresh_ok)
  ultimately show ?thesis by (simp add: Unlinked grpint_refresh_at_def valid_ptr_def)
qed

section \<open>Without memory pressure\<close>

lemma calloc_Nil: "w_calloc w = [] \<Longrightarrow> calloc w = (True, w)"
  by (simp add: calloc_def)

lemma groupint_get_mem:
  assumes "w_calloc w = []"
  shows "\<exists>isnew w'. groupint_get mca interface w = Inr (Some (Linked mca (in_ifindex interface)), isnew, w')"
proof (cases "group_find (groups w) mca")
  case None
  then show ?thesis using assms
    by (auto simp: groupint_get_def groupint_get_group_def group_create_def grpint_create_def calloc_Nil Let_def)
next
  case (Some g)
  then show ?thesis using assms
    by (cases "grpint_find (gr_interfaces g) (in_ifindex interface)")
      (simp_all add: groupint_get_def groupint_get_group_def grpint_create_def calloc_Nil Let_def)
qed

lemma grpint_refresh_at_mem:
  assumes "w_calloc w = []" and "grpint_refresh_at p src mode w = Inr (r, p', w')"
  shows "r" and "w_calloc w' = []"
proof -
  show "r" using assms
    by (auto simp: grpint_refresh_at_def dest!: grpint_refresh_True split: grpint_ptr.splits option.splits prod.splits)
  show "w_calloc w' = []"
    using same_but_groups_fields(12) [OF grpint_refresh_at_same [OF assms(2)] assms(1)] .
qed

lemma grpint_refresh_at_ptr:
  "grpint_refresh_at (Linked mca i) src mode w = Inr (r, p', w') \<Longrightarrow> p' = Linked mca i"
  by (erule grpint_refresh_at_Linked) simp

end
