(* ===== verification/Interfaces.thy ===== *)
theory Interfaces
  imports Ecmh_State
begin

text \<open>
  \<open>interfaces.c\<close>: the array of interfaces, indexed by interface index; an entry is in use
  when its MTU is not zero. The temporary socket and the switch to promiscuous mode change
  nothing of the daemon's own state.
\<close>

definition ARPHRD_LOOPBACK :: u16 where [layout]: "ARPHRD_LOOPBACK = 772"

text \<open>\<open>strcasecmp(a, b) == 0\<close> and \<open>isspace\<close> in the C locale.\<close>

definition tolower :: "char \<Rightarrow> char" where
  "tolower c = (if of_char c \<ge> (65 :: nat) \<and> of_char c \<le> (90 :: nat) then char_of (of_char c + 32 :: nat) else c)"

definition strcaseeq :: "string \<Rightarrow> string \<Rightarrow> bool" where
  "strcaseeq a b \<longleftrightarrow> map tolower a = map tolower b"

definition is_space :: "char \<Rightarrow> bool" where
  "is_space c \<longleftrightarrow> c = CHR '' '' \<or> of_char c \<in> {9 .. 13 :: nat}"

definition int_destroy :: "nat \<Rightarrow> world \<Rightarrow> world" where
  "int_destroy i w = upd_int i (\<lambda>intn. intn\<lparr>in_mtu := 0\<rparr>) w"

definition int_find :: "u32 \<Rightarrow> world \<Rightarrow> nat option" where
  "int_find ifindex w =
     (if ucast ifindex \<ge> maxinterfaces w \<or> in_mtu (ints w ! unat ifindex) = 0 then None
      else Some (unat ifindex))"

text \<open>
  The growth of the array. The sum \<open>ifindex + 1\<close> is taken in \<open>unsigned int\<close>.
\<close>

definition int_resize :: "u32 \<Rightarrow> world \<Rightarrow> world result" where
  "int_resize ifindex w =
     (if ucast (ifindex + 1) > maxinterfaces w then
        (case calloc w of
           (False, _) \<Rightarrow> Inl ExitFailure
         | (True, w1) \<Rightarrow> Inr (w1\<lparr>
             ints := ints w1 @ replicate (unat (ucast (ifindex + 1) - maxinterfaces w1 :: u64)) int_zero,
             maxinterfaces := ucast (ifindex + 1)\<rparr>))
      else Inr w)"

text \<open>What follows once the entry has been cleared: name, MTU, hardware type, upstream.\<close>

definition int_setup :: "env \<Rightarrow> u32 \<Rightarrow> world \<Rightarrow> nat option \<times> world" where
  "int_setup E ifindex w =
     (let i = unat ifindex in
      case env_ifname E ifindex of
        None \<Rightarrow> (None, int_destroy i w)
      | Some name \<Rightarrow>
         (let w1 = upd_int i (\<lambda>intn. intn\<lparr>in_name := name\<rparr>) w in
          case env_ifmtu E ifindex of
            None \<Rightarrow> (None, int_destroy i w1)
          | Some mtu \<Rightarrow>
             if sint mtu < 1280 then (None, int_destroy i w1)
             else (let w2 = upd_int i (\<lambda>intn. intn\<lparr>in_mtu := scast mtu\<rparr>) w1 in
               case env_ifhwaddr E ifindex of
                 None \<Rightarrow> (None, int_destroy i w2)
               | Some hw \<Rightarrow>
                  (let w3 = upd_int i (\<lambda>intn. intn\<lparr>in_hwaddr := hw\<rparr>) w2 in
                   if hw = ARPHRD_LOOPBACK then (None, int_destroy i w3)
                   else (case upstream w3 of
                       Some up \<Rightarrow>
                         if strcaseeq name up
                         then (Some i, (upd_int i (\<lambda>intn. intn\<lparr>in_upstream := True\<rparr>) w3)
                                         \<lparr>upstream_id := in_ifindex (ints w3 ! i)\<rparr>)
                         else (Some i, upd_int i (\<lambda>intn. intn\<lparr>in_upstream := False\<rparr>) w3)
                     | None \<Rightarrow> (Some i, upd_int i (\<lambda>intn. intn\<lparr>in_upstream := False\<rparr>) w3))))))"

definition int_create :: "env \<Rightarrow> u32 \<Rightarrow> world \<Rightarrow> (nat option \<times> world) result" where
  "int_create E ifindex w =
     rbind (int_resize ifindex w) (\<lambda>w1.
       if \<not> env_socket E then Inr (None, w1)
       else if unat ifindex \<ge> length (ints w1) then Inl OutOfBounds
       else Inr (int_setup E ifindex
              (upd_int (unat ifindex) (\<lambda>_. int_zero\<lparr>in_ifindex := ucast ifindex, in_mld_version := 0\<rparr>) w1)))"

definition int_set_mld_version :: "nat \<Rightarrow> u32 \<Rightarrow> world \<Rightarrow> world" where
  "int_set_mld_version i newversion w =
     (let intn = ints w ! i in
      if newversion = 1 then
        (if mld2only w then w
         else if in_mld_version intn = 0 \<and> in_mld_version intn \<noteq> 1
           then upd_int i (\<lambda>n. n\<lparr>in_mld_version := 1, in_mld_last_v1 := gettimes w\<rparr>) w
         else w)
      else
        (let w1 = (if in_mld_last_v1 intn \<noteq> 0 \<and>
                      gettimes w > in_mld_last_v1 intn + ECMH_SUBSCRIPTION_TIMEOUT
                   then upd_int i (\<lambda>n. n\<lparr>in_mld_version := 0, in_mld_last_v1 := 0\<rparr>) w else w);
             intn1 = ints w1 ! i
         in if mld1only w1 then w1
            else if in_mld_version intn1 = 0 \<and> in_mld_version intn1 \<noteq> 1 \<and> in_mld_version intn1 \<noteq> 2
              then upd_int i (\<lambda>n. n\<lparr>in_mld_version := ucast newversion\<rparr>) w1
            else w1))"

section \<open>The array invariant\<close>

definition int_ok :: "nat \<Rightarrow> intnode \<Rightarrow> bool" where
  "int_ok i n \<longleftrightarrow> addr_wf (in_linklocal n) \<and> addr_wf (in_global n) \<and> in_mld_version n \<in> {0, 1, 2} \<and>
     (in_mtu n \<noteq> 0 \<longrightarrow> in_ifindex n = of_nat i \<and> 1280 \<le> in_mtu n \<and> in_mtu n < 2 ^ 31 \<and>
       in_hwaddr n \<noteq> ARPHRD_LOOPBACK)"

definition ints_ok :: "world \<Rightarrow> bool" where
  "ints_ok w \<longleftrightarrow> unat (maxinterfaces w) = length (ints w) \<and> length (ints w) \<le> 2 ^ 32 \<and>
     (\<forall>i < length (ints w). int_ok i (ints w ! i))"

lemma ints_ok_frame:
  "ints_ok w \<Longrightarrow> ints w' = ints w \<Longrightarrow> maxinterfaces w' = maxinterfaces w \<Longrightarrow> ints_ok w'"
  by (simp add: ints_ok_def)

lemma ints_ok_upd:
  assumes "ints_ok w" and "i < length (ints w) \<Longrightarrow> int_ok i (f (ints w ! i))"
  shows "ints_ok (upd_int i f w)"
  using assms by (auto simp: ints_ok_def upd_int_nth)

lemma int_ok_nth: "ints_ok w \<Longrightarrow> i < length (ints w) \<Longrightarrow> int_ok i (ints w ! i)"
  by (simp add: ints_ok_def)

text \<open>A lookup stays inside of the array and finds the entry of that index.\<close>

lemma ucast_u32_le: "unat (ucast (i :: u32) :: u64) = unat i"
  using unsigned_less [of i, where ?'a = nat] by (simp add: unsigned_ucast_eq take_bit_nat_eq_self)

lemma int_find_Some:
  assumes "ints_ok w" and "int_find k w = Some i"
  shows "i = unat k" and "i < length (ints w)" and "in_mtu (ints w ! i) \<noteq> 0"
    and "in_ifindex (ints w ! i) = ucast k" and "1280 \<le> in_mtu (ints w ! i)"
proof -
  from assms(2) have i: "i = unat k" "\<not> ucast k \<ge> maxinterfaces w" "in_mtu (ints w ! i) \<noteq> 0"
    by (auto simp: int_find_def split: if_splits)
  then have len: "i < length (ints w)"
    using assms(1) by (simp add: ints_ok_def word_le_nat_alt ucast_u32_le)
  have "(of_nat (unat k) :: u64) = ucast k"
    by simp
  with i len int_ok_nth [OF assms(1) len]
  show "i = unat k" "i < length (ints w)" "in_mtu (ints w ! i) \<noteq> 0"
    "in_ifindex (ints w ! i) = ucast k" "1280 \<le> in_mtu (ints w ! i)"
    by (simp_all add: int_ok_def)
qed

lemma mtu_bounds:
  assumes "1280 \<le> sint (mtu :: u32)"
  shows "1280 \<le> (scast mtu :: u64)" and "(scast mtu :: u64) < 2 ^ 31"
proof -
  have lt: "sint mtu < 2 ^ 31" using sint_less [of mtu] by simp
  have "uint (scast mtu :: u64) = sint mtu"
    using assms lt by (simp only: scast_eq uint_word_of_int) simp
  with assms lt show "1280 \<le> (scast mtu :: u64)" "(scast mtu :: u64) < 2 ^ 31"
    by (simp_all add: word_le_def word_less_def)
qed

lemma int_resize_ok:
  assumes "ints_ok w" and "int_resize k w = Inr w'"
  shows "ints_ok w'"
proof (cases "ucast (k + 1) > maxinterfaces w")
  case False
  with assms show ?thesis by (simp add: int_resize_def)
next
  case True
  let ?n = "ucast (k + 1) :: u64"
  obtain w1 where c: "calloc w = (True, w1)"
    and w': "w' = w1\<lparr>ints := ints w1 @ replicate (unat (?n - maxinterfaces w1)) int_zero, maxinterfaces := ?n\<rparr>"
    using assms(2) True by (auto simp: int_resize_def split: prod.splits bool.splits)
  have max: "maxinterfaces w1 = maxinterfaces w" "ints w1 = ints w" using c by (simp_all add: calloc_fields)
  have d: "unat (?n - maxinterfaces w) = unat ?n - unat (maxinterfaces w)"
    using True by (simp add: unat_sub word_le_nat_alt word_less_nat_alt)
  have "unat ?n \<le> 2 ^ 32"
    using unsigned_less [of "k + 1", where ?'a = nat] by (simp add: ucast_u32_le)
  moreover have "int_ok i int_zero" for i
    by (simp add: int_ok_def int_zero_def)
  ultimately show ?thesis using assms(1) True
    by (auto simp: ints_ok_def w' max d word_less_nat_alt nth_append)
qed

text \<open>What creating an interface can change.\<close>

definition same_but_ints :: "world \<Rightarrow> world \<Rightarrow> bool" where
  "same_but_ints w w' \<longleftrightarrow> groups w' = groups w \<and> w_now w' = w_now w \<and> w_sent w' = w_sent w \<and>
     buffer w' = buffer w \<and> bufferlen w' = bufferlen w \<and> mld1only w' = mld1only w \<and>
     mld2only w' = mld2only w \<and> upstream w' = upstream w \<and> w_last_update w' = w_last_update w"

lemma same_but_ints_upd [simp]: "same_but_ints w (upd_int i f u) = same_but_ints w u"
  by (simp add: same_but_ints_def)

lemma int_destroy_ok:
  assumes "unat (maxinterfaces w) = length (ints w)" "length (ints w) \<le> 2 ^ 32"
    and "\<forall>j < length (ints w). j \<noteq> i \<longrightarrow> int_ok j (ints w ! j)"
    and "i < length (ints w) \<Longrightarrow> int_ok i ((ints w ! i)\<lparr>in_mtu := 0\<rparr>)"
  shows "ints_ok (int_destroy i w)"
  using assms by (auto simp: ints_ok_def int_destroy_def upd_int_nth)

lemma int_setup_same: "int_setup E k w = (r, w') \<Longrightarrow> same_but_ints w w' \<and> maxinterfaces w' = maxinterfaces w"
  by (auto simp: int_setup_def int_destroy_def Let_def same_but_ints_def
      split: option.splits if_splits)

lemma int_create_same:
  assumes "int_create E k w = Inr (r, w')"
  shows "same_but_ints w w'"
proof -
  obtain w1 where w1: "int_resize k w = Inr w1" using assms by (auto simp: int_create_def)
  have "same_but_ints w w1"
    using w1 by (auto simp: int_resize_def same_but_ints_def calloc_fields split: if_splits prod.splits bool.splits)
  then show ?thesis using assms w1
    by (auto simp: int_create_def same_but_ints_def dest!: int_setup_same split: if_splits)
qed

text \<open>Setting up writes only the entry of the index.\<close>

lemma int_setup_entry:
  assumes "int_setup E k w = (r, w')" and "unat k < length (ints w)"
    and "ints w ! unat k = int_zero\<lparr>in_ifindex := ucast k, in_mld_version := 0\<rparr>"
  shows "\<exists>n. ints w' = (ints w)[unat k := n] \<and> int_ok (unat k) n \<and>
     r = (if in_mtu n = 0 then None else Some (unat k))"
proof -
  have wf: "addr_wf (in_linklocal int_zero)" "addr_wf (in_global int_zero)"
    by (simp_all add: int_zero_def)
  have nz: "1280 \<le> sint mtu \<Longrightarrow> (scast mtu :: u64) \<noteq> 0" for mtu :: u32
    using mtu_bounds(1) [of mtu] by auto
  note [simp] = int_destroy_def upd_int_def nth_list_update_eq
  show ?thesis
  proof (cases "env_ifname E k")
    case None
    with assms wf show ?thesis
      by (intro exI [of _ "int_zero\<lparr>in_ifindex := ucast k, in_mld_version := 0, in_mtu := 0\<rparr>"])
        (auto simp: int_setup_def int_ok_def)
  next
    case (Some name)
    note [simp] = Some
    define n where "n = int_zero\<lparr>in_ifindex := ucast k, in_mld_version := 0, in_name := name\<rparr>"
    consider (nomtu) "env_ifmtu E k = None \<or> (\<exists>m. env_ifmtu E k = Some m \<and> sint m < 1280)"
      | (mtu) m where "env_ifmtu E k = Some m" "1280 \<le> sint m"
      by (metis not_less option.exhaust)
    then show ?thesis
    proof cases
      case nomtu
      with assms wf show ?thesis
        by (intro exI [of _ "n\<lparr>in_mtu := 0\<rparr>"]) (auto simp: int_setup_def int_ok_def n_def)
    next
      case (mtu m)
      note b = mtu_bounds [OF mtu(2)] nz [OF mtu(2)]
      show ?thesis
      proof (cases "env_ifhwaddr E k")
        case None
        with assms wf mtu show ?thesis
          by (intro exI [of _ "n\<lparr>in_mtu := 0\<rparr>"]) (auto simp: int_setup_def int_ok_def n_def)
      next
        case (Some hw)
        let ?u = "case upstream w of None \<Rightarrow> False | Some up \<Rightarrow> strcaseeq name up"
        show ?thesis
        proof (cases "hw = ARPHRD_LOOPBACK")
          case True
          with Some assms wf mtu show ?thesis
            by (intro exI [of _ "n\<lparr>in_hwaddr := hw, in_mtu := 0\<rparr>"])
              (auto simp: int_setup_def int_ok_def n_def)
        next
          case False
          with Some assms wf mtu b show ?thesis
            by (intro exI [of _ "n\<lparr>in_mtu := scast m, in_hwaddr := hw, in_upstream := ?u\<rparr>"])
              (auto simp: int_setup_def int_ok_def n_def Let_def split: option.splits if_splits)
        qed
      qed
    qed
  qed
qed

lemma int_create_ok:
  assumes "ints_ok w" and "int_create E k w = Inr (r, w')"
  shows "ints_ok w'" and "r = Some i \<Longrightarrow> i = unat k \<and> int_find k w' = Some i"
proof -
  obtain w1 where w1: "int_resize k w = Inr w1" using assms by (auto simp: int_create_def)
  have ok1: "ints_ok w1" using assms(1) w1 by (rule int_resize_ok)
  have "ints_ok w' \<and> (\<forall>i. r = Some i \<longrightarrow> i = unat k \<and> int_find k w' = Some i)"
  proof (cases "env_socket E")
    case False
    with assms w1 ok1 show ?thesis by (auto simp: int_create_def)
  next
    case True
    let ?w2 = "upd_int (unat k) (\<lambda>_. int_zero\<lparr>in_ifindex := ucast k, in_mld_version := 0\<rparr>) w1"
    have len: "unat k < length (ints w1)" and s: "int_setup E k ?w2 = (r, w')"
      using assms(2) w1 True by (auto simp: int_create_def split: if_splits)
    obtain n where n: "ints w' = (ints ?w2)[unat k := n]" "int_ok (unat k) n"
      "r = (if in_mtu n = 0 then None else Some (unat k))"
      using int_setup_entry [OF s] len by (auto simp: upd_int_nth)
    have "maxinterfaces w' = maxinterfaces w1" using int_setup_same [OF s] by simp
    with n len ok1 show ?thesis
      by (auto simp: ints_ok_def nth_list_update upd_int_def int_find_def word_le_nat_alt ucast_u32_le)
  qed
  then show "ints_ok w'" "r = Some i \<Longrightarrow> i = unat k \<and> int_find k w' = Some i" by auto
qed

text \<open>With memory and an index below the largest, creation never runs out of the array.\<close>

lemma int_create_total:
  assumes "ints_ok w" and "w_calloc w = []" and "k \<noteq> - 1"
  shows "\<exists>r w'. int_create E k w = Inr (r, w')"
proof -
  have k1: "unat (k + 1) = Suc (unat k)"
    using assms(3) unatSuc [of k] by (simp add: add.commute eq_neg_iff_add_eq_0)
  have "\<exists>w1. int_resize k w = Inr w1 \<and> unat k < length (ints w1)"
  proof (cases "ucast (k + 1) > maxinterfaces w")
    case True
    then have "unat (ucast (k + 1) - maxinterfaces w :: u64) = Suc (unat k) - unat (maxinterfaces w)"
      by (simp add: unat_sub word_le_nat_alt word_less_nat_alt ucast_u32_le k1)
    with True assms show ?thesis
      by (auto simp: int_resize_def calloc_def ints_ok_def word_less_nat_alt ucast_u32_le k1)
  next
    case False
    with assms show ?thesis
      by (auto simp: int_resize_def ints_ok_def word_less_nat_alt ucast_u32_le k1)
  qed
  then obtain w1 where w1: "int_resize k w = Inr w1" "unat k < length (ints w1)" by blast
  obtain r w' where "int_setup E k (upd_int (unat k)
      (\<lambda>_. int_zero\<lparr>in_ifindex := ucast k, in_mld_version := 0\<rparr>) w1) = (r, w')"
    by fastforce
  with w1 show ?thesis
    by (cases "env_socket E") (simp_all add: int_create_def)
qed

section \<open>The MLD version of an interface\<close>

text \<open>The version automaton of one interface, as the code runs it.\<close>

definition mld_step :: "bool \<Rightarrow> bool \<Rightarrow> u64 \<Rightarrow> u32 \<Rightarrow> u64 \<times> u64 \<Rightarrow> u64 \<times> u64" where
  "mld_step only1 only2 now new = (\<lambda>(version, last_v1).
     if new = 1 then if only2 \<or> version \<noteq> 0 then (version, last_v1) else (1, now)
     else let expired = last_v1 \<noteq> 0 \<and> now > last_v1 + ECMH_SUBSCRIPTION_TIMEOUT;
              (v, l) = (if expired then (0, 0) else (version, last_v1))
          in if only1 \<or> v \<noteq> 0 then (v, l) else (ucast new, l))"

lemma upd_int_id: "f (ints w ! i) = ints w ! i \<Longrightarrow> upd_int i f w = w"
  by (simp add: upd_int_def)

lemma upd_int_cong: "f (ints w ! i) = g (ints w ! i) \<Longrightarrow> upd_int i f w = upd_int i g w"
  by (simp add: upd_int_def)

lemma upd_int_upd_int:
  "i < length (ints w) \<Longrightarrow> upd_int i f (upd_int i g w) = upd_int i (\<lambda>n. f (g n)) w"
  by (simp add: upd_int_def)

lemma int_set_mld_version_eq:
  assumes "i < length (ints w)"
  shows "int_set_mld_version i new w = upd_int i (\<lambda>n.
    let (v, l) = mld_step (mld1only w) (mld2only w) (w_now w) new (in_mld_version n, in_mld_last_v1 n)
    in n\<lparr>in_mld_version := v, in_mld_last_v1 := l\<rparr>) w" (is "_ = upd_int i ?f w")
proof (cases "new = 1")
  case True
  then show ?thesis
    by (auto simp: int_set_mld_version_def mld_step_def gettimes_def Let_def
        intro: upd_int_cong upd_int_id [symmetric])
next
  case False
  define n where "n = ints w ! i"
  consider (expired) "in_mld_last_v1 n \<noteq> 0" "in_mld_last_v1 n + ECMH_SUBSCRIPTION_TIMEOUT < w_now w"
    | (fresh) "\<not> (in_mld_last_v1 n \<noteq> 0 \<and> in_mld_last_v1 n + ECMH_SUBSCRIPTION_TIMEOUT < w_now w)"
    by blast
  then show ?thesis
  proof cases
    case expired
    with False assms show ?thesis
      by (auto simp: int_set_mld_version_def mld_step_def gettimes_def Let_def upd_int_nth
          upd_int_upd_int n_def intro!: upd_int_cong)
  next
    case fresh
    show ?thesis
    proof (cases "mld1only w \<or> in_mld_version n \<noteq> 0")
      case True
      with fresh False have "int_set_mld_version i new w = w"
        by (auto simp: int_set_mld_version_def gettimes_def Let_def n_def)
      moreover have "?f n = n" using True fresh False
        by (auto simp: mld_step_def Let_def)
      ultimately show ?thesis by (simp add: upd_int_id n_def)
    next
      case upd: False
      with fresh False have "int_set_mld_version i new w = upd_int i (\<lambda>n. n\<lparr>in_mld_version := ucast new\<rparr>) w"
        by (auto simp: int_set_mld_version_def gettimes_def Let_def n_def)
      moreover have "?f n = n\<lparr>in_mld_version := ucast new\<rparr>" using upd fresh False
        by (auto simp: mld_step_def Let_def)
      ultimately show ?thesis by (auto simp: n_def intro: upd_int_cong)
    qed
  qed
qed

lemma mld_step_range:
  assumes "new \<in> {1, 2}" and "fst s \<in> {0, 1, 2}"
  shows "fst (mld_step o1 o2 now new s) \<in> {0, 1, 2}"
  using assms by (auto simp: mld_step_def Let_def split: prod.splits)

lemma int_set_mld_version_ok:
  assumes "ints_ok w" and "i < length (ints w)" and "new \<in> {1, 2}"
  shows "ints_ok (int_set_mld_version i new w)"
  unfolding int_set_mld_version_eq [OF assms(2)]
  using assms(1) int_ok_nth [OF assms(1,2)]
    mld_step_range [OF assms(3), of "(in_mld_version (ints w ! i), in_mld_last_v1 (ints w ! i))"
      "mld1only w" "mld2only w" "w_now w"]
  by (intro ints_ok_upd) (simp_all add: int_ok_def Let_def case_prod_beta)

lemma int_set_mld_version_same:
  "same_but_ints w (int_set_mld_version i new w)" 
  "maxinterfaces (int_set_mld_version i new w) = maxinterfaces w"
  "length (ints (int_set_mld_version i new w)) = length (ints w)"
  by (simp_all add: int_set_mld_version_def Let_def same_but_ints_def)

end
