(* ===== verification/Send.thy ===== *)
theory Send
  imports Mcast_Groups Interfaces
begin

text \<open>
  The sending side of \<open>ecmh.c\<close>: \<open>sendpacket6\<close>, and the packets with a fixed layout, which are
  ICMPv6 replies, MLD queries and MLDv1 reports. A packet under construction is the byte image
  of the struct that the code fills in.
\<close>

section \<open>sendpacket6\<close>

definition AF_PACKET :: u16 where [layout]: "AF_PACKET = 17"
definition IP6OPT_PADN :: u8 where [layout]: "IP6OPT_PADN = 1"

text \<open>The Ethernet multicast address of RFC 2464, in the eight bytes of \<open>sll_addr\<close>.\<close>

definition mcast_mac :: "bytes \<Rightarrow> bytes" where
  "mcast_mac last4 = [0x33, 0x33] @ last4 @ [0, 0]"

definition link_addr :: "intnode \<Rightarrow> bytes \<Rightarrow> sockaddr_ll" where
  "link_addr intn last4 = \<lparr>sll_family = AF_PACKET, sll_protocol = htons ETH_P_IPV6,
     sll_ifindex = ucast (in_ifindex intn), sll_hatype = in_hwaddr intn, sll_pkttype = 0,
     sll_halen = 6, sll_addr = mcast_mac last4\<rparr>"

text \<open>What follows the system call: an interface that is gone is taken out of use.\<close>

definition sendpacket6_done :: "sendres \<Rightarrow> nat \<Rightarrow> u16 \<Rightarrow> world \<Rightarrow> world" where
  "sendpacket6_done sent i len w = (case sent of
       SendENXIO \<Rightarrow> int_destroy i w
     | SendError \<Rightarrow> w
     | Sent \<Rightarrow> upd_int i (\<lambda>n. n\<lparr>in_bytes_sent := in_bytes_sent n + ucast len,
                                in_packets_sent := in_packets_sent n + 1\<rparr>)
         (w\<lparr>stat_packets_sent := stat_packets_sent w + 1,
            stat_bytes_sent := stat_bytes_sent w + ucast len\<rparr>))"

text \<open>\<open>iph\<close> is the offset of the packet in the object \<open>obj\<close>.\<close>

definition sendpacket6 :: "env \<Rightarrow> nat \<Rightarrow> bytes \<Rightarrow> nat \<Rightarrow> u16 \<Rightarrow> world \<Rightarrow> world result" where
  "sendpacket6 E i obj iph len w =
     rbind (rd obj (iph + 36) 4) (\<lambda>last4.
     rbind (rd obj iph (unat len)) (\<lambda>data.
       let t = (link_addr (ints w ! i) last4, data)
       in Inr (sendpacket6_done (env_sendto E (w_sent w) t) i len (w\<lparr>w_sent := w_sent w @ [t]\<rparr>))))"

text \<open>The two counters that every ICMPv6 sender increases.\<close>

definition count_icmp_sent :: "nat \<Rightarrow> world \<Rightarrow> world" where
  "count_icmp_sent i w = upd_int i (\<lambda>n. n\<lparr>in_icmp_sent := in_icmp_sent n + 1\<rparr>)
     (w\<lparr>stat_icmp_sent := stat_icmp_sent w + 1\<rparr>)"

section \<open>Packets with a fixed layout\<close>

text \<open>\<open>ipv6_checksum\<close> on memory: the header at \<open>iph\<close>, the data at \<open>data\<close>.\<close>

definition ipv6_checksum_at :: "bytes \<Rightarrow> nat \<Rightarrow> u8 \<Rightarrow> nat \<Rightarrow> u16 \<Rightarrow> u16 result" where
  "ipv6_checksum_at obj iph protocol data len =
     rbind (rd obj (iph + 8) 16) (\<lambda>src.
     rbind (rd obj (iph + 24) 16) (\<lambda>dst.
     rbind (rd obj data (unat len)) (\<lambda>bs. Inr (ipv6_checksum src dst protocol bs))))"

text \<open>\<open>struct ip6_hdr\<close> as the senders fill it in.\<close>

definition ip6_hdr :: "u16 \<Rightarrow> u8 \<Rightarrow> u8 \<Rightarrow> in6_addr \<Rightarrow> in6_addr \<Rightarrow> bytes" where
  "ip6_hdr plen nxt hlim src dst =
     [0x60, 0, 0, 0] @ le16_bytes (htons plen) @ [nxt, hlim] @ src @ dst"

text \<open>The hop-by-hop header with the router alert option and its padding.\<close>

definition hbh_routeralert :: bytes where
  "hbh_routeralert = [IPPROTO_ICMPV6, 0, 5, 2, 0, 0, IP6OPT_PADN, 0]"

definition all_nodes :: in6_addr where
  "all_nodes = [0xff, 0x02] @ replicate 13 0 @ [0x01]"

text \<open>\<open>struct mld1\<close>, with its checksum field.\<close>

definition mld1_bytes :: "u8 \<Rightarrow> u16 \<Rightarrow> u16 \<Rightarrow> in6_addr \<Rightarrow> bytes" where
  "mld1_bytes type csum mrc mca = [type, 0] @ le16_bytes csum @ le16_bytes mrc @ [0, 0] @ mca"

text \<open>
  The message after the first 24 bytes of an MLDv2 query: robustness in the low three bits,
  the query interval, no sources.
\<close>

definition mld2_query_tail :: bytes where
  "mld2_query_tail = [of_int ECMH_ROBUSTNESS_FACTOR, ucast ECMH_SUBSCRIPTION_TIMEOUT] @ le16_bytes (htons 0)"

definition mld_query_msg :: "bool \<Rightarrow> u16 \<Rightarrow> in6_addr \<Rightarrow> bytes" where
  "mld_query_msg only1 csum mca = mld1_bytes ICMP6_MEMBERSHIP_QUERY csum (htons 2000) mca
     @ (if only1 then [] else mld2_query_tail)"

definition mld_send_query :: "env \<Rightarrow> nat \<Rightarrow> in6_addr \<Rightarrow> world \<Rightarrow> world result" where
  "mld_send_query E i mca w =
     (let intn = ints w ! i in
      if in_upstream intn then Inr w
      else
        (let packetlen = (if mld1only w then sizeof_ip6_hdr + sizeof_hbh_ra + sizeof_mld2_query
                            + sizeof_in6_addr - sizeof_in6_addr - sizeof_mld2_query + sizeof_mld1
                          else sizeof_ip6_hdr + sizeof_hbh_ra + sizeof_mld2_query);
             hdr = ip6_hdr (of_nat (packetlen - sizeof_ip6_hdr)) IPPROTO_HOPOPTS 1
                     (in_linklocal intn) all_nodes @ hbh_routeralert;
             body = (\<lambda>csum. hdr @ mld_query_msg (mld1only w) csum mca)
         in rbind (ipv6_checksum_at (body 0) 0 IPPROTO_ICMPV6 (sizeof_ip6_hdr + sizeof_hbh_ra)
                     (of_nat (packetlen - sizeof_ip6_hdr - sizeof_hbh_ra))) (\<lambda>csum.
            rbind (sendpacket6 E i (body csum) 0 (of_nat packetlen) w) (\<lambda>w1.
              Inr (count_icmp_sent i w1)))))"

definition mld1_send_report :: "env \<Rightarrow> nat \<Rightarrow> in6_addr \<Rightarrow> world \<Rightarrow> world result" where
  "mld1_send_report E i mca w =
     (let intn = ints w ! i;
          hdr = ip6_hdr (of_nat (sizeof_hbh_ra + sizeof_mld1)) IPPROTO_HOPOPTS 1 (in_linklocal intn) mca
                  @ hbh_routeralert;
          body = (\<lambda>csum. hdr @ mld1_bytes ICMP6_MEMBERSHIP_REPORT csum 0 mca)
      in rbind (ipv6_checksum_at (body 0) 0 IPPROTO_ICMPV6 (sizeof_ip6_hdr + sizeof_hbh_ra)
                  (of_nat sizeof_mld1)) (\<lambda>csum.
         rbind (sendpacket6 E i (body csum) 0 (of_nat (sizeof_ip6_hdr + sizeof_hbh_ra + sizeof_mld1)) w)
           (\<lambda>w1. Inr (count_icmp_sent i w1))))"

text \<open>
  \<open>icmp6_send\<close>: the packet struct has 1500 bytes of data after the ICMPv6 header, and the data
  is copied from the last four bytes of that header on. The lengths are computed in \<open>size_t\<close>
  and cut to the width of the parameters; \<open>data\<close> is the offset in \<open>obj\<close>.
\<close>

definition sizeof_hoplimit_packet :: nat where [layout]: "sizeof_hoplimit_packet = 1548"

definition icmp6_send ::
    "env \<Rightarrow> nat \<Rightarrow> in6_addr \<Rightarrow> u8 \<Rightarrow> u8 \<Rightarrow> bytes \<Rightarrow> nat \<Rightarrow> u32 \<Rightarrow> world \<Rightarrow> world result" where
  "icmp6_send E i src type code obj data dlen w =
     (let intn = ints w ! i;
          size = (of_nat sizeof_hoplimit_packet :: u64);
          plen = (ucast (size - (1500 - ucast dlen) - 4 - of_nat sizeof_ip6_hdr) :: u16);
          n = (if (1500 :: u64) > ucast dlen then unat dlen else 1500);
          hdr = ip6_hdr plen IPPROTO_ICMPV6 64 (in_global intn) src;
          pkt0 = hdr @ [type, code] @ replicate 1506 0
      in rbind (rd obj data n) (\<lambda>bs.
         rbind (wr pkt0 44 bs) (\<lambda>pkt1.
         rbind (ipv6_checksum_at pkt1 0 IPPROTO_ICMPV6 sizeof_ip6_hdr
                  (ucast (of_nat sizeof_icmp6_hdr + ucast dlen - 4 :: u64))) (\<lambda>csum.
         rbind (wr pkt1 42 (le16_bytes csum)) (\<lambda>pkt2.
         rbind (sendpacket6 E i pkt2 0 (ucast (size - (1500 - ucast dlen) - 4)) w) (\<lambda>w1.
           Inr (count_icmp_sent i w1)))))))"

section \<open>What sending can change\<close>

text \<open>
  Sending never touches the tables. Of an interface it changes the counters, and it takes the
  interface out of use when the system says that it is gone.
\<close>

definition int_sends :: "intnode \<Rightarrow> intnode \<Rightarrow> bool" where
  "int_sends n n' \<longleftrightarrow> (\<exists>m p b c. n' = n\<lparr>in_mtu := m, in_packets_sent := p, in_bytes_sent := b,
     in_icmp_sent := c\<rparr> \<and> (m = in_mtu n \<or> m = 0))"

definition sends :: "world \<Rightarrow> world \<Rightarrow> bool" where
  "sends w w' \<longleftrightarrow> (\<exists>ns ts p b c k. list_all2 int_sends (ints w) ns \<and>
     w' = w\<lparr>ints := ns, w_sent := w_sent w @ ts, stat_packets_sent := p, stat_bytes_sent := b,
            stat_icmp_sent := c, w_calloc := drop k (w_calloc w)\<rparr>)"

lemma int_sends_refl [simp]: "int_sends n n"
  unfolding int_sends_def
  by (intro exI [of _ "in_mtu n"] exI [of _ "in_packets_sent n"] exI [of _ "in_bytes_sent n"]
      exI [of _ "in_icmp_sent n"]) simp

lemma int_sends_trans:
  assumes "int_sends a b" and "int_sends b c"
  shows "int_sends a c"
proof -
  obtain m p q r where b: "b = a\<lparr>in_mtu := m, in_packets_sent := p, in_bytes_sent := q, in_icmp_sent := r\<rparr>"
    and m: "m = in_mtu a \<or> m = 0" using assms(1) unfolding int_sends_def by blast
  obtain m' p' q' r' where
    c: "c = b\<lparr>in_mtu := m', in_packets_sent := p', in_bytes_sent := q', in_icmp_sent := r'\<rparr>"
    and m': "m' = in_mtu b \<or> m' = 0" using assms(2) unfolding int_sends_def by blast
  have "c = a\<lparr>in_mtu := m', in_packets_sent := p', in_bytes_sent := q', in_icmp_sent := r'\<rparr>"
    unfolding c b by simp
  moreover have "m' = in_mtu a \<or> m' = 0" using m m' unfolding b by auto
  ultimately show ?thesis unfolding int_sends_def by blast
qed

lemma sends_refl [simp]: "sends w w"
  unfolding sends_def
  by (intro exI [of _ "ints w"] exI [of _ "[]"] exI [of _ "stat_packets_sent w"]
      exI [of _ "stat_bytes_sent w"] exI [of _ "stat_icmp_sent w"] exI [of _ 0])
    (simp add: list_all2_refl)

lemma sends_trans:
  assumes "sends u v" and "sends v w"
  shows "sends u w"
proof -
  obtain ns ts p b c k where v: "list_all2 int_sends (ints u) ns"
    "v = u\<lparr>ints := ns, w_sent := w_sent u @ ts, stat_packets_sent := p, stat_bytes_sent := b,
           stat_icmp_sent := c, w_calloc := drop k (w_calloc u)\<rparr>"
    using assms(1) unfolding sends_def by blast
  obtain ns' ts' p' b' c' k' where w: "list_all2 int_sends (ints v) ns'"
    "w = v\<lparr>ints := ns', w_sent := w_sent v @ ts', stat_packets_sent := p', stat_bytes_sent := b',
           stat_icmp_sent := c', w_calloc := drop k' (w_calloc v)\<rparr>"
    using assms(2) unfolding sends_def by blast
  have "list_all2 int_sends (ints u) ns'"
    using list_all2_trans [OF int_sends_trans v(1)] w(1) v(2) by simp
  moreover have "w = u\<lparr>ints := ns', w_sent := w_sent u @ (ts @ ts'), stat_packets_sent := p',
      stat_bytes_sent := b', stat_icmp_sent := c', w_calloc := drop (k' + k) (w_calloc u)\<rparr>"
    by (simp add: w(2) v(2))
  ultimately show ?thesis unfolding sends_def by blast
qed

lemma sends_fields:
  assumes "sends w w'"
  shows "groups w' = groups w" "w_now w' = w_now w" "maxinterfaces w' = maxinterfaces w"
    "buffer w' = buffer w" "bufferlen w' = bufferlen w" "mld1only w' = mld1only w"
    "mld2only w' = mld2only w" "upstream w' = upstream w" "upstream_id w' = upstream_id w"
    "w_last_update w' = w_last_update w" "length (ints w') = length (ints w)"
    "list_all2 int_sends (ints w) (ints w')" "w_calloc w = [] \<Longrightarrow> w_calloc w' = []"
  using assms by (auto simp: sends_def list_all2_lengthD)

lemma sends_sent: "sends w w' \<Longrightarrow> \<exists>ts. w_sent w' = w_sent w @ ts"
  by (auto simp: sends_def)

lemma sends_nth:
  assumes "sends w w'" and "i < length (ints w)"
  shows "int_sends (ints w ! i) (ints w' ! i)"
  using sends_fields(12) [OF assms(1)] assms(2) by (simp add: list_all2_nthD)

lemma int_sends_fields:
  assumes "int_sends n n'"
  shows "in_ifindex n' = in_ifindex n" "in_name n' = in_name n" "in_mld_version n' = in_mld_version n"
    "in_linklocal n' = in_linklocal n" "in_global n' = in_global n" "in_hwaddr n' = in_hwaddr n"
    "in_upstream n' = in_upstream n" "in_mld_last_v1 n' = in_mld_last_v1 n"
    "in_mtu n' = in_mtu n \<or> in_mtu n' = 0"
  using assms by (auto simp: int_sends_def)

lemma int_ok_sends: "int_sends n n' \<Longrightarrow> int_ok i n \<Longrightarrow> int_ok i n'"
  by (auto simp: int_sends_def int_ok_def)

lemma sends_ints_ok:
  assumes "sends w w'" and "ints_ok w"
  shows "ints_ok w'"
  using assms(2) sends_fields [OF assms(1)] int_ok_sends [OF sends_nth [OF assms(1)]]
  by (simp add: ints_ok_def)

lemma sends_membership: "sends w w' \<Longrightarrow> membership w' = membership w"
  by (simp add: membership_def grpint_of_def fun_eq_iff sends_fields)

lemma sends_upd_int:
  assumes "\<And>n. int_sends n (f n)"
  shows "sends w (upd_int i f w)"
proof -
  have "list_all2 int_sends (ints w) ((ints w)[i := f (ints w ! i)])"
    using assms
    by (auto simp: list_all2_conv_all_nth) (metis int_sends_refl nth_list_update_eq nth_list_update_neq)
  then show ?thesis unfolding sends_def upd_int_def
    by (intro exI [of _ "(ints w)[i := f (ints w ! i)]"] exI [of _ "[]"] exI [of _ "stat_packets_sent w"]
      exI [of _ "stat_bytes_sent w"] exI [of _ "stat_icmp_sent w"] exI [of _ 0]) simp
qed

lemma sends_stats:
  "sends w (w\<lparr>w_sent := w_sent w @ ts, stat_packets_sent := p, stat_bytes_sent := b\<rparr>)"
  "sends w (w\<lparr>w_sent := w_sent w @ ts\<rparr>)"
  "sends w (w\<lparr>stat_icmp_sent := c\<rparr>)"
  "sends w (w\<lparr>w_calloc := drop k (w_calloc w)\<rparr>)"
  unfolding sends_def
  by (intro exI [of _ "ints w"] exI [of _ ts] exI [of _ p] exI [of _ b] exI [of _ "stat_icmp_sent w"]
        exI [of _ 0], simp add: list_all2_refl,
      intro exI [of _ "ints w"] exI [of _ ts] exI [of _ "stat_packets_sent w"]
        exI [of _ "stat_bytes_sent w"] exI [of _ "stat_icmp_sent w"] exI [of _ 0],
      simp add: list_all2_refl,
      intro exI [of _ "ints w"] exI [of _ "[]"] exI [of _ "stat_packets_sent w"]
        exI [of _ "stat_bytes_sent w"] exI [of _ c] exI [of _ 0],
      simp add: list_all2_refl,
      intro exI [of _ "ints w"] exI [of _ "[]"] exI [of _ "stat_packets_sent w"]
        exI [of _ "stat_bytes_sent w"] exI [of _ "stat_icmp_sent w"] exI [of _ k],
      simp add: list_all2_refl)

lemma sends_calloc: "same_but_calloc w w' \<Longrightarrow> sends w w'"
  using sends_stats(4) by (auto simp: same_but_calloc_def)

lemma int_sends_mtu0: "int_sends n (n\<lparr>in_mtu := 0\<rparr>)"
  unfolding int_sends_def
  by (intro exI [of _ 0] exI [of _ "in_packets_sent n"] exI [of _ "in_bytes_sent n"]
      exI [of _ "in_icmp_sent n"]) simp

lemma int_sends_counters: "int_sends n (n\<lparr>in_bytes_sent := b, in_packets_sent := p\<rparr>)"
  "int_sends n (n\<lparr>in_icmp_sent := c\<rparr>)"
  unfolding int_sends_def
  by (intro exI [of _ "in_mtu n"] exI [of _ p] exI [of _ b] exI [of _ "in_icmp_sent n"], simp,
      intro exI [of _ "in_mtu n"] exI [of _ "in_packets_sent n"] exI [of _ "in_bytes_sent n"]
      exI [of _ c], simp)

lemma count_icmp_sent_sends: "sends w (count_icmp_sent i w)"
  unfolding count_icmp_sent_def
  by (rule sends_trans [OF sends_stats(3) sends_upd_int]) (rule int_sends_counters)

text \<open>
  One call of \<open>sendpacket6\<close>: exactly the named bytes go out, to the group's MAC address on
  the named interface.
\<close>

lemma sendpacket6_Inr:
  assumes "iph + 40 \<le> length obj" and "iph + unat len \<le> length obj"
  shows "\<exists>w'. sendpacket6 E i obj iph len w = Inr w' \<and> sends w w' \<and>
    w_sent w' = w_sent w @ [(link_addr (ints w ! i) (take 4 (drop (iph + 36) obj)),
                             take (unat len) (drop iph obj))]"
proof -
  let ?t = "(link_addr (ints w ! i) (take 4 (drop (iph + 36) obj)), take (unat len) (drop iph obj))"
  let ?w1 = "w\<lparr>w_sent := w_sent w @ [?t]\<rparr>"
  have "sends w (int_destroy i ?w1)"
    unfolding int_destroy_def
    by (rule sends_trans [OF sends_stats(2) sends_upd_int]) (rule int_sends_mtu0)
  moreover have "sends w (upd_int i (\<lambda>n. n\<lparr>in_bytes_sent := in_bytes_sent n + ucast len,
      in_packets_sent := in_packets_sent n + 1\<rparr>) (?w1\<lparr>stat_packets_sent := stat_packets_sent ?w1 + 1,
      stat_bytes_sent := stat_bytes_sent ?w1 + ucast len\<rparr>))"
    by (rule sends_trans [OF _ sends_upd_int]) (simp add: sends_stats, rule int_sends_counters)
  ultimately show ?thesis using assms
    by (cases "env_sendto E (w_sent w) ?t")
      (auto simp: sendpacket6_def sendpacket6_done_def rd_Inr Let_def int_destroy_def sends_stats(2))
qed

lemma sendpacket6_sends:
  assumes "sendpacket6 E i obj iph len w = Inr w'"
  shows "sends w w'" and "w_sent w' = w_sent w @ [(link_addr (ints w ! i) (take 4 (drop (iph + 36) obj)),
                             take (unat len) (drop iph obj))]"
proof -
  have "iph + 40 \<le> length obj" "iph + unat len \<le> length obj"
    using assms by (auto simp: sendpacket6_def sendpacket6_done_def dest!: rd_InrD)
  from sendpacket6_Inr [OF this, of E i w] assms
  show "sends w w'" "w_sent w' = w_sent w @ [(link_addr (ints w ! i) (take 4 (drop (iph + 36) obj)),
                             take (unat len) (drop iph obj))]" by auto
qed

section \<open>The MLD messages on the wire\<close>

text \<open>
  What a listener may rely on: a link-local hop limit, the router alert, a payload length that
  matches the packet, and a checksum that verifies.
\<close>

definition mld_packet_ok :: "in6_addr \<Rightarrow> in6_addr \<Rightarrow> bytes \<Rightarrow> bool" where
  "mld_packet_ok src dst pkt \<longleftrightarrow> 48 \<le> length pkt \<and> take 4 pkt = [0x60, 0, 0, 0] \<and>
     unat (ntohs (le16 (pkt ! 4) (pkt ! 5))) = length pkt - 40 \<and>
     pkt ! 6 = IPPROTO_HOPOPTS \<and> pkt ! 7 = 1 \<and>
     take 16 (drop 8 pkt) = src \<and> take 16 (drop 24 pkt) = dst \<and>
     take 8 (drop 40 pkt) = hbh_routeralert \<and>
     fold16 (rfc_sum src dst IPPROTO_ICMPV6 (drop 48 pkt)) = 0xffff"

lemma length_ip6_hdr [simp]:
  "addr_wf src \<Longrightarrow> addr_wf dst \<Longrightarrow> length (ip6_hdr plen nxt hlim src dst) = 40"
  by (simp add: ip6_hdr_def addr_wf_def)

lemma length_hbh_routeralert [simp]: "length hbh_routeralert = 8"
  by (simp add: hbh_routeralert_def)

lemma length_mld1_bytes [simp]: "addr_wf mca \<Longrightarrow> length (mld1_bytes t c m mca) = 24"
  by (simp add: mld1_bytes_def addr_wf_def)

lemma length_mld2_query_tail [simp]: "length mld2_query_tail = 4"
  by (simp add: mld2_query_tail_def)

lemma addr_wf_all_nodes [simp]: "addr_wf all_nodes"
  by (simp add: all_nodes_def addr_wf_def)

lemma ip6_hdr_fields:
  assumes "addr_wf src" and "addr_wf dst"
  shows "take 4 (ip6_hdr plen nxt hlim src dst @ y) = [0x60, 0, 0, 0]"
    and "ntohs (le16 ((ip6_hdr plen nxt hlim src dst @ y) ! 4) ((ip6_hdr plen nxt hlim src dst @ y) ! 5)) = plen"
    and "(ip6_hdr plen nxt hlim src dst @ y) ! 6 = nxt"
    and "(ip6_hdr plen nxt hlim src dst @ y) ! 7 = hlim"
    and "take 16 (drop 8 (ip6_hdr plen nxt hlim src dst @ y)) = src"
    and "take 16 (drop 24 (ip6_hdr plen nxt hlim src dst @ y)) = dst"
    and "take 4 (drop 36 (ip6_hdr plen nxt hlim src dst @ y)) = drop 12 dst"
    and "drop (40 + n) (ip6_hdr plen nxt hlim src dst @ y) = drop n y"
    and "(ip6_hdr plen nxt hlim src dst @ y) ! (40 + n) = y ! n"
proof -
  show "take 4 (ip6_hdr plen nxt hlim src dst @ y) = [0x60, 0, 0, 0]"
    "ntohs (le16 ((ip6_hdr plen nxt hlim src dst @ y) ! 4) ((ip6_hdr plen nxt hlim src dst @ y) ! 5)) = plen"
    "(ip6_hdr plen nxt hlim src dst @ y) ! 6 = nxt" "(ip6_hdr plen nxt hlim src dst @ y) ! 7 = hlim"
    by (simp_all add: ip6_hdr_def nth_append le16_le16_bytes [simplified])
  show "take 16 (drop 8 (ip6_hdr plen nxt hlim src dst @ y)) = src"
    "take 16 (drop 24 (ip6_hdr plen nxt hlim src dst @ y)) = dst"
    "take 4 (drop 36 (ip6_hdr plen nxt hlim src dst @ y)) = drop 12 dst"
    using assms by (simp_all add: ip6_hdr_def addr_wf_def le16_bytes_def)
  show "drop (40 + n) (ip6_hdr plen nxt hlim src dst @ y) = drop n y"
    "(ip6_hdr plen nxt hlim src dst @ y) ! (40 + n) = y ! n"
    using assms by (simp_all add: nth_append)
qed

lemma ip6_hdr_alone:
  assumes "addr_wf src" and "addr_wf dst"
  shows "take 4 (ip6_hdr plen nxt hlim src dst) = [0x60, 0, 0, 0]"
    and "take 16 (drop 8 (ip6_hdr plen nxt hlim src dst)) = src"
    and "drop 24 (ip6_hdr plen nxt hlim src dst) = dst"
  using assms ip6_hdr_fields [OF assms, where y = "[]"] by (simp_all add: addr_wf_def)

lemma addr_wf_length [simp]: "addr_wf a \<Longrightarrow> length a = 16"
  by (simp add: addr_wf_def)

lemma ip6_hdr_checksum:
  assumes "addr_wf src" and "addr_wf dst" and "length x = 8" and "unat len = length msg"
  shows "ipv6_checksum_at (ip6_hdr plen nxt hlim src dst @ x @ msg) 0 proto 48 len
    = Inr (ipv6_checksum src dst proto msg)"
  using assms by (simp add: ipv6_checksum_at_def rd_Inr ip6_hdr_alone)

text \<open>An MLD message behind the two headers, its checksum in place.\<close>

definition mld_packet :: "in6_addr \<Rightarrow> in6_addr \<Rightarrow> u8 \<Rightarrow> bytes \<Rightarrow> bytes" where
  "mld_packet src dst t rest = ip6_hdr (of_nat (length rest + 12)) IPPROTO_HOPOPTS 1 src dst @
     hbh_routeralert @ [t, 0] @
     le16_bytes (ipv6_checksum src dst IPPROTO_ICMPV6 ([t, 0] @ [0, 0] @ rest)) @ rest"

lemma mld_packet_ok:
  assumes "addr_wf src" and "addr_wf dst" and "length rest + 12 < 65536"
  shows "mld_packet_ok src dst (mld_packet src dst t rest)"
    and "length (mld_packet src dst t rest) = 52 + length rest"
    and "mld_packet src dst t rest ! 48 = t" and "drop 52 (mld_packet src dst t rest) = rest"
    and "take 4 (drop 36 (mld_packet src dst t rest)) = drop 12 dst"
proof -
  define msg where "msg = [t, 0] @
    le16_bytes (ipv6_checksum src dst IPPROTO_ICMPV6 ([t, 0] @ [0, 0] @ rest)) @ rest"
  define n where "n = length rest + 12"
  have pkt: "mld_packet src dst t rest = ip6_hdr (of_nat n) IPPROTO_HOPOPTS 1 src dst @ hbh_routeralert @ msg"
    by (simp only: mld_packet_def msg_def n_def)
  have msg: "length msg = length rest + 4" "msg ! 0 = t" "drop 4 msg = rest"
    by (simp_all add: msg_def le16_bytes_def)
  have n: "unat (of_nat n :: u16) = n"
    using assms(3) by (simp add: n_def [symmetric] unsigned_of_nat take_bit_nat_eq_self)
  have "fold16 (rfc_sum src dst IPPROTO_ICMPV6 msg) = 0xffff"
    unfolding msg_def by (rule ipv6_checksum_fold) simp
  moreover have "drop 48 (mld_packet src dst t rest) = msg"
    by (simp add: pkt assms(1,2))
  moreover have "take 8 (drop 40 (mld_packet src dst t rest)) = hbh_routeralert"
    by (simp add: pkt assms(1,2))
  ultimately show "mld_packet_ok src dst (mld_packet src dst t rest)"
    unfolding mld_packet_ok_def using n msg(1)
    by (simp add: pkt ip6_hdr_fields [OF assms(1,2)] ip6_hdr_alone assms(1,2) n_def del: of_nat_add)
  show "length (mld_packet src dst t rest) = 52 + length rest"
    by (simp add: pkt assms(1,2) msg(1))
  show "mld_packet src dst t rest ! 48 = t"
    using msg by (simp add: pkt nth_append assms(1,2))
  show "drop 52 (mld_packet src dst t rest) = rest"
    using msg by (simp add: pkt assms(1,2))
  show "take 4 (drop 36 (mld_packet src dst t rest)) = drop 12 dst"
    unfolding pkt by (rule ip6_hdr_fields(7) [OF assms(1,2)])
qed

text \<open>The one packet that a sender of these messages hands to the system.\<close>

definition sent_one :: "world \<Rightarrow> nat \<Rightarrow> in6_addr \<Rightarrow> bytes \<Rightarrow> world \<Rightarrow> bool" where
  "sent_one w i dst pkt w' \<longleftrightarrow> sends w w' \<and>
     w_sent w' = w_sent w @ [(link_addr (ints w ! i) (drop 12 dst), pkt)]"

lemma send_built:
  assumes "unat len = length pkt" and "40 \<le> length pkt" and "take 4 (drop 36 pkt) = drop 12 dst"
  shows "\<exists>w'. rbind (sendpacket6 E i pkt 0 len w) (\<lambda>w1. Inr (count_icmp_sent i w1)) = Inr w' \<and>
     sent_one w i dst pkt w'"
proof -
  obtain w1 where w1: "sendpacket6 E i pkt 0 len w = Inr w1"
    "sends w w1" "w_sent w1 = w_sent w @ [(link_addr (ints w ! i) (drop 12 dst), pkt)]"
    using sendpacket6_Inr [of 0 pkt len E i w] assms by auto
  moreover have "w_sent (count_icmp_sent i w1) = w_sent w1" by (simp add: count_icmp_sent_def)
  ultimately show ?thesis
    using sends_trans [OF w1(2) count_icmp_sent_sends] by (simp add: sent_one_def)
qed

lemma le16_bytes_0 [simp]: "le16_bytes 0 = [0, 0]"
  by (simp add: le16_bytes_def)

text \<open>The two senders build that packet.\<close>

lemma mld1_send_report_eq:
  assumes "addr_wf (in_linklocal (ints w ! i))" and "addr_wf mca"
  shows "mld1_send_report E i mca w = rbind (sendpacket6 E i
    (mld_packet (in_linklocal (ints w ! i)) mca ICMP6_MEMBERSHIP_REPORT (le16_bytes 0 @ [0, 0] @ mca)) 0 72 w)
    (\<lambda>w1. Inr (count_icmp_sent i w1))"
  using assms ip6_hdr_checksum [OF assms, of hbh_routeralert 24
      "[ICMP6_MEMBERSHIP_REPORT, 0] @ [0, 0] @ le16_bytes 0 @ [0, 0] @ mca"]
  by (simp add: mld1_send_report_def mld1_bytes_def mld_packet_def sizes addr_wf_def Let_def)

lemma mld_send_query_eq:
  assumes "addr_wf (in_linklocal (ints w ! i))" and "addr_wf mca" and "\<not> in_upstream (ints w ! i)"
  shows "mld_send_query E i mca w = rbind (sendpacket6 E i
    (mld_packet (in_linklocal (ints w ! i)) all_nodes ICMP6_MEMBERSHIP_QUERY
       (le16_bytes (htons 2000) @ [0, 0] @ mca @ (if mld1only w then [] else mld2_query_tail))) 0
    (if mld1only w then 72 else 76) w) (\<lambda>w1. Inr (count_icmp_sent i w1))"
  using assms ip6_hdr_checksum [OF assms(1) addr_wf_all_nodes, of hbh_routeralert
      "if mld1only w then 24 else 28" "[ICMP6_MEMBERSHIP_QUERY, 0] @ [0, 0] @ le16_bytes (htons 2000) @
      [0, 0] @ mca @ (if mld1only w then [] else mld2_query_tail)"]
  by (auto simp: mld_send_query_def mld_query_msg_def mld1_bytes_def mld_packet_def sizes addr_wf_def Let_def)

lemma mld1_send_report_spec:
  assumes "addr_wf (in_linklocal (ints w ! i))" and "addr_wf mca"
  shows "\<exists>pkt w'. mld1_send_report E i mca w = Inr w' \<and> sent_one w i mca pkt w' \<and>
    mld_packet_ok (in_linklocal (ints w ! i)) mca pkt \<and> length pkt = 72 \<and>
    pkt ! 48 = ICMP6_MEMBERSHIP_REPORT \<and> drop 56 pkt = mca"
proof -
  define rest where "rest = le16_bytes 0 @ [0, 0] @ mca"
  define pkt where "pkt = mld_packet (in_linklocal (ints w ! i)) mca ICMP6_MEMBERSHIP_REPORT rest"
  have len: "length rest = 20" "drop 4 rest = mca" using assms(2) by (simp_all add: rest_def addr_wf_def)
  note ok = mld_packet_ok [OF assms, of rest ICMP6_MEMBERSHIP_REPORT, folded pkt_def, simplified len, simplified]
  have "drop 56 pkt = mca"
    using arg_cong [OF ok(4), of "drop 4"] len by simp
  moreover obtain w' where "mld1_send_report E i mca w = Inr w'" "sent_one w i mca pkt w'"
    using mld1_send_report_eq [OF assms, of E, folded rest_def, folded pkt_def]
      send_built [of 72 pkt mca E i w] ok(2,5) by auto
  ultimately show ?thesis using ok by blast
qed

lemma mld_send_query_spec:
  assumes "addr_wf (in_linklocal (ints w ! i))" and "addr_wf mca" and "\<not> in_upstream (ints w ! i)"
  shows "\<exists>pkt w'. mld_send_query E i mca w = Inr w' \<and> sent_one w i all_nodes pkt w' \<and>
    mld_packet_ok (in_linklocal (ints w ! i)) all_nodes pkt \<and>
    length pkt = (if mld1only w then 72 else 76) \<and>
    pkt ! 48 = ICMP6_MEMBERSHIP_QUERY \<and> take 16 (drop 56 pkt) = mca"
proof -
  define rest where "rest = le16_bytes (htons 2000) @ [0, 0] @ mca @ (if mld1only w then [] else mld2_query_tail)"
  define pkt where "pkt = mld_packet (in_linklocal (ints w ! i)) all_nodes ICMP6_MEMBERSHIP_QUERY rest"
  have len: "length rest = (if mld1only w then 20 else 24)" "take 16 (drop 4 rest) = mca"
    using assms(2) by (simp_all add: rest_def addr_wf_def)
  have "length rest + 12 < 65536" by (simp add: len)
  note ok = mld_packet_ok [OF assms(1) addr_wf_all_nodes this, of ICMP6_MEMBERSHIP_QUERY, folded pkt_def]
  have "take 16 (drop 56 pkt) = mca"
    using arg_cong [OF ok(4), of "\<lambda>x. take 16 (drop 4 x)"] len by simp
  moreover obtain w' where "mld_send_query E i mca w = Inr w'" "sent_one w i all_nodes pkt w'"
    using mld_send_query_eq [OF assms, of E, folded rest_def, folded pkt_def]
      send_built [of "if mld1only w then 72 else 76" pkt all_nodes E i w] ok(2,5) len(1)
    by (cases "mld1only w") auto
  moreover have "length pkt = (if mld1only w then 72 else 76)" using ok(2) len by simp
  ultimately show ?thesis using ok by blast
qed

end
