(* ===== verification/Bpf.thy ===== *)
theory Bpf
  imports Send
begin

text \<open>
  The parts of the program that only the BPF build (FreeBSD, macOS) has: the set-up of a BPF device
  for an interface, the local IPv4 addresses, the frames that \<open>sendpacket6\<close> writes there, natively
  or in an IPv4 tunnel (protocol 41), and the walk along the packets of one \<open>read\<close>. What the system
  answers is a parameter; \<open>struct bpf_hdr\<close> belongs to the system, so its fields are given as
  functions of the offset.
\<close>

section \<open>State\<close>

text \<open>
  The fields that \<open>struct intnode\<close> has in this build (\<open>hwaddr\<close> is not among them and stays zero), and
  the fields of \<open>struct conf\<close> that the code below uses, with the static \<open>last_update\<close>, the clock, the
  descriptors that were closed, how often \<open>realloc\<close> moved the array (\<open>b_moves\<close>), and the answers of the
  coming allocations. A pointer to an interface is its position in the array, which stands for it only
  until the array moves (\<open>int_resize_bpf\<close>); a \<open>struct localnode\<close> is such a pointer.
\<close>

record bpf_int = intnode +
  bi_socket :: int
  bi_dlt :: u64
  bi_bufferlen :: u64
  bi_master :: "nat option"
  bi_ipv4_local :: "bytes list"
  bi_ipv4_remote :: bytes

record bpf_conf =
  b_ints :: "bpf_int list"
  b_maxinterfaces :: u64
  b_promisc :: bool
  b_buffer :: bytes
  b_bufferlen :: u64
  b_tunnelmode :: bool
  b_locals :: "nat clist"
  b_selectset :: "int list"
  b_hifd :: u64
  b_upstream :: "string option"
  b_upstream_id :: u64
  b_last_update :: u64
  b_now :: u64
  b_closed :: "int list"
  b_moves :: nat
  b_calloc :: "bool list"

definition INTNODE_MAXIPV4 :: nat where [layout]: "INTNODE_MAXIPV4 = 4"

definition ipv4_any :: bytes where "ipv4_any = [0, 0, 0, 0]"

definition b_alloc :: "bpf_conf \<Rightarrow> bool \<times> bpf_conf" where
  "b_alloc b = (case b_calloc b of [] \<Rightarrow> (True, b) | c # cs \<Rightarrow> (c, b\<lparr>b_calloc := cs\<rparr>))"

definition upd_bint :: "nat \<Rightarrow> (bpf_int \<Rightarrow> bpf_int) \<Rightarrow> bpf_conf \<Rightarrow> bpf_conf" where
  "upd_bint i f b = b\<lparr>b_ints := (b_ints b)[i := f (b_ints b ! i)]\<rparr>"

section \<open>Finding interfaces by IPv4 address\<close>

text \<open>The loop over the addresses of one interface; there is only one remote address.\<close>

fun ipv4_scan :: "bool \<Rightarrow> bytes \<Rightarrow> bytes \<Rightarrow> bytes list \<Rightarrow> bool" where
  "ipv4_scan local ipv4 remote [] = False"
| "ipv4_scan local ipv4 remote (a # as) =
     (if (if local then a else remote) = ipv4 then True
      else if \<not> local then False else ipv4_scan local ipv4 remote as)"

definition int_find_ipv4 :: "bool \<Rightarrow> bytes \<Rightarrow> bpf_conf \<Rightarrow> nat option" where
  "int_find_ipv4 local ipv4 b = find (\<lambda>i. let intn = b_ints b ! i in in_mtu intn \<noteq> 0 \<and>
       ipv4_scan local ipv4 (bi_ipv4_remote intn) (bi_ipv4_local intn)) [0..<unat (b_maxinterfaces b)]"

definition local_find :: "bytes \<Rightarrow> bpf_conf \<Rightarrow> nat option" where
  "local_find ipv4 b = find (\<lambda>k. list_ex (\<lambda>a. a = ipv4) (bi_ipv4_local (b_ints b ! k))) (nodes (b_locals b))"

text \<open>One round of \<open>local_update\<close>: a node for the interface, unless the address is empty or known.\<close>

definition local_add :: "nat \<Rightarrow> bytes \<Rightarrow> bpf_conf \<Rightarrow> bpf_conf" where
  "local_add i a b =
     (if a = ipv4_any then b
      else if local_find a b \<noteq> None then b
      else case b_alloc b of
        (False, b1) \<Rightarrow> b1
      | (True, b1) \<Rightarrow> (let (ok, b2) = b_alloc b1 in b2\<lparr>b_locals := cl_add ok i (b_locals b2)\<rparr>))"

definition local_update :: "nat \<Rightarrow> bpf_conf \<Rightarrow> bpf_conf" where
  "local_update i b = fold (local_add i) (bi_ipv4_local (b_ints b ! i)) b"

section \<open>Entering a local IPv4 address\<close>

text \<open>
  The fields from \<open>ipv4_local\<close> on, as they lie in memory: four local addresses, the remote address
  and the link-local address.
\<close>

definition int_mem :: "bpf_int \<Rightarrow> bytes" where
  "int_mem n = concat (bi_ipv4_local n) @ bi_ipv4_remote n @ in_linklocal n"

definition int_of_mem :: "bytes \<Rightarrow> bpf_int \<Rightarrow> bpf_int" where
  "int_of_mem m n = n\<lparr>bi_ipv4_local := map (\<lambda>k. take 4 (drop (4 * k) m)) [0..<INTNODE_MAXIPV4],
     bi_ipv4_remote := take 4 (drop 16 m), in_linklocal := take 16 (drop 20 m)\<rparr>"

text \<open>
  The loop over the slots. \<open>addr\<close> has sixteen bytes, of which the first four are the address; the
  code writes and compares all of them at the slot.
\<close>

fun ipv4_slot :: "bool \<Rightarrow> bytes \<Rightarrow> nat list \<Rightarrow> bytes \<Rightarrow> bool \<times> bytes" where
  "ipv4_slot ptp addr [] m = (False, m)"
| "ipv4_slot ptp addr (num # nums) m =
     (if take 4 (drop (4 * num) m) = ipv4_any
      then (True, take (4 * num) m @ addr @ drop (4 * num + 16) m)
      else if take 16 (drop (4 * num) m) = addr then (False, m)
      else if ptp then (False, m)
      else ipv4_slot ptp addr nums m)"

text \<open>The branch of \<open>update_interfaces\<close> for an IPv4 address; the result says whether it is new.\<close>

definition update_ipv4 :: "bool \<Rightarrow> bytes \<Rightarrow> nat \<Rightarrow> bool \<times> bpf_conf \<Rightarrow> bool \<times> bpf_conf" where
  "update_ipv4 ptp addr i = (\<lambda>(gotipv4, b).
     case ipv4_slot ptp addr [0..<INTNODE_MAXIPV4] (int_mem (b_ints b ! i)) of (new, m) \<Rightarrow>
       let b1 = upd_bint i (int_of_mem m) b; got = gotipv4 \<or> new in
       (got, if got \<and> \<not> ptp then local_update i b1 else b1))"

section \<open>The BPF device of an interface\<close>

text \<open>
  What \<open>open\<close> of a device answers: a descriptor, \<open>EBUSY\<close>, or another error. The answers of the system
  for an interface include whether \<open>realloc\<close> moves the array when the interface is the reason to enlarge it.
\<close>

datatype open_res = Opened nat | Busy | OpenError

record bpf_sys =
  bs_open :: "u32 \<Rightarrow> open_res"
  bs_setif :: bool
  bs_promisc :: bool
  bs_nonblock :: bool
  bs_immediate :: bool
  bs_dlt :: "u64 option"
  bs_blen :: "u64 option"
  bs_socket :: bool
  bs_phyaddr :: "(bytes \<times> bytes) option"
  bs_moves :: bool

text \<open>The search for a free device; with \<open>None\<close> it has not ended.\<close>

fun bpf_open :: "nat \<Rightarrow> (u32 \<Rightarrow> open_res) \<Rightarrow> u32 \<Rightarrow> int option" where
  "bpf_open 0 op i = None"
| "bpf_open (Suc fuel) op i = (case op i of
       Opened s \<Rightarrow> Some (int s)
     | OpenError \<Rightarrow> Some (- 1)
     | Busy \<Rightarrow> bpf_open fuel op (i + 1))"

definition DLT_NULL :: u64 where [layout]: "DLT_NULL = 0"
definition DLT_EN10MB :: u64 where [layout]: "DLT_EN10MB = 1"

text \<open>The buffer grows to what the device wants.\<close>

definition bpf_buffer :: "u64 \<Rightarrow> bpf_conf \<Rightarrow> bpf_conf result" where
  "bpf_buffer len b =
     (if len > b_bufferlen b then
        (case b_alloc (b\<lparr>b_bufferlen := len\<rparr>) of
           (False, _) \<Rightarrow> Inl ExitFailure
         | (True, b1) \<Rightarrow> Inr (b1\<lparr>b_buffer := replicate (unat (b_bufferlen b1)) 0\<rparr>))
      else Inr b)"

text \<open>\<open>FD_SET\<close> does not check the descriptor: one of \<open>FD_SETSIZE\<close> or more is written behind the set.\<close>

definition FD_SETSIZE :: nat where [layout]: "FD_SETSIZE = 1024"

definition bpf_select :: "int \<Rightarrow> bpf_conf \<Rightarrow> bpf_conf result" where
  "bpf_select sock b =
     (if sock \<ge> int FD_SETSIZE then Inl OutOfBounds
      else let b1 = b\<lparr>b_selectset := List.insert sock (b_selectset b)\<rparr> in
        Inr (if of_int sock > b_hifd b1 then b1\<lparr>b_hifd := of_int sock\<rparr> else b1))"

text \<open>The options of an opened device, in the order of the code.\<close>

definition bpf_configure :: "bpf_sys \<Rightarrow> nat \<Rightarrow> bpf_conf \<Rightarrow> (bool \<times> bpf_conf) result" where
  "bpf_configure S i b =
     (if \<not> bs_setif S then Inr (False, b)
      else if b_promisc b \<and> \<not> bs_promisc S then Inr (False, b)
      else if \<not> bs_nonblock S then Inr (False, b)
      else if \<not> bs_immediate S then Inr (False, b)
      else case bs_dlt S of
        None \<Rightarrow> Inr (False, b)
      | Some dlt \<Rightarrow>
         (let b1 = upd_bint i (\<lambda>n. n\<lparr>bi_dlt := dlt\<rparr>) b in
          if dlt \<noteq> DLT_NULL \<and> dlt \<noteq> DLT_EN10MB then Inr (False, b1)
          else case bs_blen S of
            None \<Rightarrow> Inr (False, b1)
          | Some blen \<Rightarrow>
             rbind (bpf_buffer blen (upd_bint i (\<lambda>n. n\<lparr>bi_bufferlen := blen\<rparr>) b1)) (\<lambda>b2.
             rbind (bpf_select (bi_socket (b_ints b2 ! i)) b2) (\<lambda>b3.
               Inr (True, b3)))))"

text \<open>In tunnel mode a tunnel gets no device: it is served by the interface that has its address.\<close>

definition bpf_tunnel :: "bpf_sys \<Rightarrow> nat \<Rightarrow> bpf_conf \<Rightarrow> bool \<times> bpf_conf" where
  "bpf_tunnel S i b =
     (if \<not> bs_socket S then (False, b)
      else case bs_phyaddr S of
        None \<Rightarrow> (False, b)
      | Some (addr, dstaddr) \<Rightarrow>
         (let master = int_find_ipv4 True addr b;
              b1 = upd_bint i (\<lambda>n. n\<lparr>bi_master := master\<rparr>) b in
          if master = None then (False, b1)
          else (True, upd_bint i (\<lambda>n. n\<lparr>bi_ipv4_local := (bi_ipv4_local n)[0 := addr],
                                        bi_ipv4_remote := dstaddr\<rparr>) b1)))"

definition int_create_bpf :: "nat \<Rightarrow> bpf_sys \<Rightarrow> nat \<Rightarrow> bool \<Rightarrow> bpf_conf \<Rightarrow> (bool \<times> bpf_conf) result option" where
  "int_create_bpf fuel S i tunnel b =
     (if \<not> b_tunnelmode b \<or> \<not> tunnel then
        map_option (\<lambda>sock.
            let b1 = (upd_bint i (\<lambda>n. n\<lparr>bi_socket := sock\<rparr>) b)\<lparr>b_closed := removeAll sock (b_closed b)\<rparr> in
            if sock < 0 then Inr (False, b1) else bpf_configure S i b1)
          (if bi_socket (b_ints b ! i) < 0 then bpf_open fuel (bs_open S) 0
           else Some (bi_socket (b_ints b ! i)))
      else Some (Inr (bpf_tunnel S i b)))"

section \<open>Sending\<close>

definition eth_header :: "bytes \<Rightarrow> u16 \<Rightarrow> bytes" where
  "eth_header last4 type = [0x33, 0x33] @ last4 @ replicate 6 0 @ le16_bytes (htons type)"

text \<open>\<open>struct ip\<close> as the code fills it in, with its checksum field.\<close>

definition proto41_header :: "u16 \<Rightarrow> u16 \<Rightarrow> bytes \<Rightarrow> bytes \<Rightarrow> bytes" where
  "proto41_header len ipsum src dst =
     [0x45, 0] @ le16_bytes (htons (len + 20)) @ le16_bytes (htons 42) @ [0, 0] @ [100, IPPROTO_IPV6]
     @ le16_bytes ipsum @ src @ dst"

text \<open>The socket that is written to, and the frame for a packet, given the end of its destination address.\<close>

definition bpf_frame :: "bpf_conf \<Rightarrow> nat \<Rightarrow> bytes \<Rightarrow> u16 \<Rightarrow> bytes \<Rightarrow> int \<times> bytes" where
  "bpf_frame b i last4 len data =
     (let intn = b_ints b ! i in
      if \<not> b_tunnelmode b \<or> bi_master intn = None
      then (bi_socket intn, eth_header last4 ETH_P_IPV6 @ data)
      else
        (let hdr0 = proto41_header len 0 (bi_ipv4_local intn ! 0) (bi_ipv4_remote intn);
             ipsum = finish_chksum (ucast (inchksum hdr0))
         in (bi_socket (b_ints b ! the (bi_master intn)),
             eth_header last4 ETH_P_IP
             @ proto41_header len ipsum (bi_ipv4_local intn ! 0) (bi_ipv4_remote intn) @ data)))"

definition sendpacket6_bpf :: "bpf_conf \<Rightarrow> nat \<Rightarrow> bytes \<Rightarrow> nat \<Rightarrow> u16 \<Rightarrow> (int \<times> bytes) result" where
  "sendpacket6_bpf b i obj iph len =
     rbind (rd obj (iph + 36) 4) (\<lambda>last4.
     rbind (rd obj iph (unat len)) (\<lambda>data. Inr (bpf_frame b i last4 len data)))"

section \<open>Receiving\<close>

text \<open>
  The loop over the packets of one \<open>read\<close>. \<open>caplen\<close> and \<open>hdrlen\<close> give the fields of the header at an
  offset, \<open>align\<close> is \<open>BPF_WORDALIGN\<close>. The result is the interface with its counters and what is
  handed to \<open>l2_eth\<close>: offset and length of each frame.
\<close>

fun bpf_loop :: "nat \<Rightarrow> (nat \<Rightarrow> u32) \<Rightarrow> (nat \<Rightarrow> u16) \<Rightarrow> (nat \<Rightarrow> nat) \<Rightarrow> nat \<Rightarrow> nat \<Rightarrow> bpf_int \<Rightarrow>
    (bpf_int \<times> (nat \<times> u32) list) option" where
  "bpf_loop 0 caplen hdrlen align ep bp intn = None"
| "bpf_loop (Suc fuel) caplen hdrlen align ep bp intn =
     (if bp < ep then
        map_option (\<lambda>(n, fs). (n, (bp + unat (hdrlen bp), caplen bp) # fs))
          (bpf_loop fuel caplen hdrlen align ep (bp + align (unat (caplen bp + ucast (hdrlen bp))))
            (intn\<lparr>in_packets_received := in_packets_received intn + 1,
                  in_bytes_received := in_bytes_received intn + ucast (caplen bp)\<rparr>))
      else Some (intn, []))"

definition bpf_read :: "nat \<Rightarrow> (nat \<Rightarrow> u32) \<Rightarrow> (nat \<Rightarrow> u16) \<Rightarrow> (nat \<Rightarrow> nat) \<Rightarrow> bpf_int \<Rightarrow>
    (bpf_int \<times> (nat \<times> u32) list) option" where
  "bpf_read fuel caplen hdrlen align intn = bpf_loop fuel caplen hdrlen align (unat (caplen 0)) 0 intn"

text \<open>The arguments with which \<open>l2_eth\<close> calls \<open>l2_ethtype\<close>.\<close>

definition l2_eth :: "bytes \<Rightarrow> nat \<Rightarrow> u32 \<Rightarrow> (nat \<times> u32 \<times> u16) result" where
  "l2_eth buf eth len = rbind (rd16 buf (eth + 12)) (\<lambda>t. Inr (eth + 14, len - 14, ntohs t))"

section \<open>The invariant of the BPF state\<close>

text \<open>
  The array has its size, every entry has its four local addresses, the buffer has its length, and
  room for a read of any interface, and the highest descriptor bounds what \<open>select\<close> looks at.
\<close>

definition bpf_ok :: "bpf_conf \<Rightarrow> bool" where
  "bpf_ok b \<longleftrightarrow> unat (b_maxinterfaces b) = length (b_ints b) \<and>
     list_all (\<lambda>n. length (bi_ipv4_local n) = INTNODE_MAXIPV4 \<and> bi_bufferlen n \<le> b_bufferlen b) (b_ints b) \<and>
     length (b_buffer b) = unat (b_bufferlen b) \<and>
     list_all (\<lambda>fd. 0 \<le> fd \<and> fd < 2 ^ 31 \<and> of_int fd \<le> b_hifd b) (b_selectset b)"

lemma upd_bint_fields [simp]:
  "length (b_ints (upd_bint i f b)) = length (b_ints b)" "b_maxinterfaces (upd_bint i f b) = b_maxinterfaces b"
  "b_buffer (upd_bint i f b) = b_buffer b" "b_bufferlen (upd_bint i f b) = b_bufferlen b"
  "b_selectset (upd_bint i f b) = b_selectset b" "b_hifd (upd_bint i f b) = b_hifd b"
  "b_tunnelmode (upd_bint i f b) = b_tunnelmode b" "b_promisc (upd_bint i f b) = b_promisc b"
  "b_locals (upd_bint i f b) = b_locals b" "b_calloc (upd_bint i f b) = b_calloc b"
  "b_upstream (upd_bint i f b) = b_upstream b" "b_upstream_id (upd_bint i f b) = b_upstream_id b"
  "b_last_update (upd_bint i f b) = b_last_update b" "b_now (upd_bint i f b) = b_now b"
  "b_closed (upd_bint i f b) = b_closed b" "b_moves (upd_bint i f b) = b_moves b"
  by (simp_all add: upd_bint_def)

lemma upd_bint_nth:
  "i < length (b_ints b) \<Longrightarrow> b_ints (upd_bint i f b) ! j = (if j = i then f (b_ints b ! i) else b_ints b ! j)"
  by (simp add: upd_bint_def nth_list_update)

lemma b_alloc_fields:
  assumes "b_alloc b = (c, b')"
  shows "\<exists>cs. b' = b\<lparr>b_calloc := cs\<rparr>"
  using assms by (auto simp: b_alloc_def split: list.splits) (metis bpf_conf.surjective bpf_conf.update_convs(16))+

lemma b_alloc_Nil [simp]: "b_calloc b = [] \<Longrightarrow> b_alloc b = (True, b)"
  by (simp add: b_alloc_def)

lemma bpf_ok_upd:
  assumes "bpf_ok b" and "\<And>n. length (bi_ipv4_local n) = INTNODE_MAXIPV4 \<Longrightarrow> length (bi_ipv4_local (f n)) = INTNODE_MAXIPV4"
    and "\<And>n. bi_bufferlen (f n) \<le> bi_bufferlen n"
  shows "bpf_ok (upd_bint i f b)"
proof (cases "i < length (b_ints b)")
  case True
  with assms show ?thesis
    by (auto simp: bpf_ok_def list_all_length upd_bint_nth intro: order_trans)
next
  case False
  then have "upd_bint i f b = b" by (simp add: upd_bint_def list_update_beyond)
  with assms(1) show ?thesis by simp
qed

lemma bpf_ok_closed: "bpf_ok b \<Longrightarrow> bpf_ok (b\<lparr>b_closed := fds\<rparr>)"
  by (simp add: bpf_ok_def)

lemma bpf_buffer_ok:
  assumes "bpf_ok b" and "bpf_buffer len (upd_bint i (\<lambda>n. n\<lparr>bi_bufferlen := len\<rparr>) b) = Inr b'"
  shows "bpf_ok b' \<and> len \<le> b_bufferlen b' \<and> b_ints b' = b_ints (upd_bint i (\<lambda>n. n\<lparr>bi_bufferlen := len\<rparr>) b)"
proof -
  let ?b = "upd_bint i (\<lambda>n. n\<lparr>bi_bufferlen := len\<rparr>) b"
  have b': "b_ints b' = b_ints ?b \<and> b_maxinterfaces b' = b_maxinterfaces b \<and> b_selectset b' = b_selectset b \<and>
      b_hifd b' = b_hifd b \<and> length (b_buffer b') = unat (b_bufferlen b') \<and> len \<le> b_bufferlen b' \<and> b_bufferlen b \<le> b_bufferlen b'"
  proof (cases "len > b_bufferlen b")
    case True
    with assms(2) obtain b1 where a: "b_alloc (?b\<lparr>b_bufferlen := len\<rparr>) = (True, b1)"
      and b': "b' = b1\<lparr>b_buffer := replicate (unat (b_bufferlen b1)) 0\<rparr>"
      by (auto simp: bpf_buffer_def split: prod.splits bool.splits)
    from b_alloc_fields [OF a] obtain cs where "b1 = ?b\<lparr>b_bufferlen := len, b_calloc := cs\<rparr>" by auto
    with True b' show ?thesis by simp
  next
    case False
    with assms(2) have "b' = ?b" by (simp add: bpf_buffer_def)
    with False assms(1) show ?thesis by (simp add: bpf_ok_def not_less)
  qed
  have "length (bi_ipv4_local (b_ints ?b ! j)) = INTNODE_MAXIPV4 \<and> bi_bufferlen (b_ints ?b ! j) \<le> b_bufferlen b'"
    if "j < length (b_ints b)" for j
  proof -
    have "length (bi_ipv4_local (b_ints b ! j)) = INTNODE_MAXIPV4 \<and> bi_bufferlen (b_ints b ! j) \<le> b_bufferlen b'"
      using assms(1) b' that by (auto simp: bpf_ok_def list_all_length intro: order_trans)
    then show ?thesis using b' that by (cases "i = j") (simp_all add: upd_bint_def)
  qed
  with assms(1) b' show ?thesis by (simp add: bpf_ok_def list_all_length)
qed

lemma bpf_select_fields:
  assumes "bpf_select sock b = Inr b'"
  shows "b_ints b' = b_ints b" and "b_bufferlen b' = b_bufferlen b" and "b_calloc b' = b_calloc b"
    and "b_moves b' = b_moves b" and "sock \<in> set (b_selectset b')" and "sock < 1024"
  using assms by (auto simp: bpf_select_def FD_SETSIZE_def Let_def split: if_splits)

lemma bpf_select_ok:
  assumes "bpf_ok b" and "0 \<le> sock" and "bpf_select sock b = Inr b'"
  shows "bpf_ok b'"
proof (cases "of_int sock > b_hifd b")
  case True
  have "\<forall>fd \<in> set (b_selectset b). of_int fd \<le> (of_int sock :: u64)"
    using assms(1) True by (auto simp: bpf_ok_def list_all_iff)
  with assms True show ?thesis
    by (simp add: bpf_ok_def bpf_select_def FD_SETSIZE_def Let_def list_all_iff split: if_splits) auto
next
  case False
  with assms show ?thesis
    by (auto simp: bpf_ok_def bpf_select_def FD_SETSIZE_def Let_def list_all_iff split: if_splits)
qed

section \<open>Devices and tunnels\<close>

lemma ipv4_scan_local [simp]: "ipv4_scan True a r as \<longleftrightarrow> a \<in> set as"
  by (induction as) auto

lemma int_find_ipv4_local:
  assumes "int_find_ipv4 True a b = Some m"
  shows "m < unat (b_maxinterfaces b)" and "in_mtu (b_ints b ! m) \<noteq> 0" and "a \<in> set (bi_ipv4_local (b_ints b ! m))"
  using find_Some_in [OF assms [unfolded int_find_ipv4_def]] by (auto simp: Let_def)

lemma bpf_open_ends:
  assumes "op (i + of_nat k) \<noteq> Busy" and "k < fuel" and "\<forall>k s. op k = Opened s \<longrightarrow> s < 2 ^ 31"
  shows "\<exists>sock. bpf_open fuel op i = Some sock \<and> sock < 2 ^ 31"
  using assms
proof (induction fuel op i arbitrary: k rule: bpf_open.induct)
  case (2 fuel op i)
  show ?case
  proof (cases "op i")
    case (Opened s)
    with 2(4) have "s < 2 ^ 31" by blast
    with Opened show ?thesis by simp
  next
    case Busy
    with 2(2,3) obtain k' where k: "k = Suc k'" by (cases k) auto
    with 2(2,3) have "op (i + 1 + of_nat k') \<noteq> Busy" "k' < fuel" by (simp_all add: add.assoc)
    from 2(1) [OF Busy this 2(4)] Busy show ?thesis by simp
  qed simp
qed simp

lemma bpf_configure_ready:
  assumes "bpf_ok b" and "i < length (b_ints b)" and "bpf_configure S i b = Inr (ok, b')"
    and "bi_socket (b_ints b ! i) = sock" and "0 \<le> sock"
  shows "bpf_ok b' \<and> (ok \<longrightarrow> bi_socket (b_ints b' ! i) = sock \<and> sock \<in> set (b_selectset b') \<and>
    bi_dlt (b_ints b' ! i) \<in> {DLT_NULL, DLT_EN10MB} \<and> bi_bufferlen (b_ints b' ! i) \<le> b_bufferlen b')"
proof (cases ok)
  case False
  with assms(1,3) show ?thesis
    by (auto simp: bpf_configure_def Let_def intro!: bpf_ok_upd split: if_splits option.splits)
next
  case True
  with assms(3) obtain dlt blen b2 where dlt: "dlt \<in> {DLT_NULL, DLT_EN10MB}"
    and b2: "bpf_buffer blen (upd_bint i (\<lambda>n. n\<lparr>bi_bufferlen := blen\<rparr>) (upd_bint i (\<lambda>n. n\<lparr>bi_dlt := dlt\<rparr>) b)) = Inr b2"
    and b': "bpf_select (bi_socket (b_ints b2 ! i)) b2 = Inr b'"
    by (auto simp: bpf_configure_def Let_def split: if_splits option.splits)
  have "bpf_ok (upd_bint i (\<lambda>n. n\<lparr>bi_dlt := dlt\<rparr>) b)"
    using assms(1) by (intro bpf_ok_upd) simp_all
  note buf = bpf_buffer_ok [OF this b2]
  then have n: "b_ints b2 ! i = (b_ints b ! i)\<lparr>bi_dlt := dlt, bi_bufferlen := blen\<rparr>"
    using assms(2) by (simp add: upd_bint_nth)
  have sel: "bpf_select sock b2 = Inr b'" using b' n assms(4) by simp
  from bpf_select_ok [OF _ assms(5) sel] bpf_select_fields [OF sel] buf n dlt assms(4) True show ?thesis by simp
qed

text \<open>The two ways in which it does not return: there is no memory, or the descriptor is too big for the set.\<close>

lemma bpf_configure_faults:
  assumes "i < length (b_ints b)" and "bpf_configure S i b = Inl e"
  shows "e = ExitFailure \<or> e = OutOfBounds \<and> 1024 \<le> bi_socket (b_ints b ! i)"
proof -
  have buf: "e = ExitFailure" if "bpf_buffer len u = Inl e" for len u
    using that by (auto simp: bpf_buffer_def split: if_splits prod.splits bool.splits)
  have ints: "b_ints u' = b_ints u" if "bpf_buffer len u = Inr u'" for len u u'
    using that by (auto simp: bpf_buffer_def dest!: b_alloc_fields split: if_splits prod.splits bool.splits)
  have sel: "e = OutOfBounds \<and> 1024 \<le> sock" if "bpf_select sock u = Inl e" for sock u
    using that by (auto simp: bpf_select_def FD_SETSIZE_def Let_def split: if_splits)
  obtain u len where "rbind (bpf_buffer len u) (\<lambda>b2. rbind (bpf_select (bi_socket (b_ints b2 ! i)) b2) (\<lambda>b3. Inr (True, b3))) = Inl e"
    and u: "bi_socket (b_ints u ! i) = bi_socket (b_ints b ! i)"
    using assms by (auto simp: bpf_configure_def Let_def upd_bint_nth split: if_splits option.splits)
  then consider "bpf_buffer len u = Inl e" | u' where "bpf_buffer len u = Inr u'" "bpf_select (bi_socket (b_ints u' ! i)) u' = Inl e"
    by (cases "bpf_buffer len u") (auto simp: rbind_def split: sum.splits)
  then show ?thesis using buf sel ints u by cases (blast, fastforce)
qed

lemma bpf_tunnel_ready:
  assumes "bpf_ok b" and "i < length (b_ints b)" and "bpf_tunnel S i b = (ok, b')"
  shows "bpf_ok b' \<and> (ok \<longrightarrow> (\<exists>m. bi_master (b_ints b' ! i) = Some m \<and> m < length (b_ints b') \<and>
    in_mtu (b_ints b ! m) \<noteq> 0 \<and> bi_ipv4_local (b_ints b' ! i) ! 0 \<in> set (bi_ipv4_local (b_ints b ! m))))"
proof (cases ok)
  case False
  with assms(1,3) show ?thesis
    by (auto simp: bpf_tunnel_def Let_def intro!: bpf_ok_upd split: if_splits option.splits)
next
  case True
  with assms(3) obtain addr dst m where m: "int_find_ipv4 True addr b = Some m"
    and b': "b' = upd_bint i (\<lambda>n. n\<lparr>bi_ipv4_local := (bi_ipv4_local n)[0 := addr], bi_ipv4_remote := dst\<rparr>)
      (upd_bint i (\<lambda>n. n\<lparr>bi_master := Some m\<rparr>) b)"
    by (auto simp: bpf_tunnel_def Let_def split: if_splits option.splits)
  have "0 < length (bi_ipv4_local (b_ints b ! i))"
    using assms(1,2) by (simp add: bpf_ok_def list_all_length INTNODE_MAXIPV4_def)
  moreover have "bpf_ok b'" unfolding b' using assms(1) by (intro bpf_ok_upd) simp_all
  moreover have "m < length (b_ints b')" using int_find_ipv4_local(1) [OF m] assms(1) b' by (simp add: bpf_ok_def)
  ultimately show ?thesis
    using int_find_ipv4_local(2,3) [OF m] assms(2) b' by (simp add: upd_bint_nth)
qed

lemma bpf_open_bound: "bpf_open fuel op i = Some sock \<Longrightarrow> \<forall>k s. op k = Opened s \<longrightarrow> s < 2 ^ 31 \<Longrightarrow> sock < 2 ^ 31"
  by (induction fuel op i rule: bpf_open.induct) (fastforce split: open_res.splits)+

text \<open>What holds after a device was set up, or was not.\<close>

definition bpf_ready :: "nat \<Rightarrow> bool \<Rightarrow> bpf_conf \<Rightarrow> bpf_conf \<Rightarrow> bool" where
  "bpf_ready i tunnel b b' \<longleftrightarrow> (let n = b_ints b' ! i in
     if \<not> b_tunnelmode b \<or> \<not> tunnel
     then bi_socket n \<in> set (b_selectset b') \<and> bi_dlt n \<in> {DLT_NULL, DLT_EN10MB} \<and> bi_bufferlen n \<le> b_bufferlen b'
     else \<exists>m. bi_master n = Some m \<and> m < length (b_ints b') \<and> in_mtu (b_ints b ! m) \<noteq> 0 \<and>
       bi_ipv4_local n ! 0 \<in> set (bi_ipv4_local (b_ints b ! m)))"

lemma int_create_bpf_inv:
  assumes "bpf_ok b" and "i < length (b_ints b)" and "bi_socket (b_ints b ! i) < 2 ^ 31"
    and "\<forall>k s. bs_open S k = Opened s \<longrightarrow> s < 2 ^ 31" and "int_create_bpf fuel S i tunnel b = Some (Inr (ok, b'))"
  shows "bpf_ok b' \<and> (ok \<longrightarrow> bpf_ready i tunnel b b')"
proof (cases "\<not> b_tunnelmode b \<or> \<not> tunnel")
  case native: True
  with assms(5) obtain sock where sock: "(if bi_socket (b_ints b ! i) < 0 then bpf_open fuel (bs_open S) 0
      else Some (bi_socket (b_ints b ! i))) = Some sock"
    by (auto simp: int_create_bpf_def)
  define b1 where "b1 = (upd_bint i (\<lambda>n. n\<lparr>bi_socket := sock\<rparr>) b)\<lparr>b_closed := removeAll sock (b_closed b)\<rparr>"
  have ok1: "bpf_ok b1" unfolding b1_def using assms(1) by (intro bpf_ok_closed bpf_ok_upd) simp_all
  have run: "(if sock < 0 then Inr (False, b1) else bpf_configure S i b1) = Inr (ok, b')"
    using native sock assms(5) unfolding b1_def by (auto simp: int_create_bpf_def Let_def split: if_splits)
  show ?thesis
  proof (cases "sock < 0")
    case True
    with run ok1 show ?thesis by simp
  next
    case False
    have "bi_socket (b_ints b1 ! i) = sock" using assms(2) by (simp add: b1_def upd_bint_nth)
    from bpf_configure_ready [OF ok1 _ _ this, of S ok b'] run False assms(2) native show ?thesis
      by (auto simp: b1_def bpf_ready_def Let_def)
  qed
next
  case False
  with assms(5) have t: "bpf_tunnel S i b = (ok, b')" by (simp add: int_create_bpf_def)
  with False bpf_tunnel_ready [OF assms(1,2) t] show ?thesis by (simp add: bpf_ready_def Let_def)
qed

lemma int_create_bpf_ends:
  assumes "\<forall>k s. bs_open S k = Opened s \<longrightarrow> s < 2 ^ 31" and "bs_open S (of_nat k) \<noteq> Busy" and "k < fuel"
  shows "int_create_bpf fuel S i tunnel b \<noteq> None"
proof -
  obtain sock where "(if bi_socket (b_ints b ! i) < 0 then bpf_open fuel (bs_open S) 0
      else Some (bi_socket (b_ints b ! i))) = Some sock"
    using bpf_open_ends [of "bs_open S" 0 k fuel] assms by (cases "bi_socket (b_ints b ! i) < 0") auto
  then show ?thesis by (simp add: int_create_bpf_def)
qed

lemma bpf_open_fits: "bpf_open fuel op i = Some sock \<Longrightarrow> \<forall>k s. op k = Opened s \<longrightarrow> s < 1024 \<Longrightarrow> sock < 1024"
  by (induction fuel op i rule: bpf_open.induct) (fastforce split: open_res.splits)+

lemma int_create_bpf_faults:
  assumes "i < length (b_ints b)" and "bi_socket (b_ints b ! i) < 1024"
    and "\<forall>k s. bs_open S k = Opened s \<longrightarrow> s < 1024" and "int_create_bpf fuel S i tunnel b = Some (Inl e)"
  shows "e = ExitFailure"
proof -
  from assms(4) obtain sock where sock: "(if bi_socket (b_ints b ! i) < 0 then bpf_open fuel (bs_open S) 0
      else Some (bi_socket (b_ints b ! i))) = Some sock"
    and e: "bpf_configure S i ((upd_bint i (\<lambda>n. n\<lparr>bi_socket := sock\<rparr>) b)\<lparr>b_closed := removeAll sock (b_closed b)\<rparr>) = Inl e"
    by (auto simp: int_create_bpf_def Let_def split: if_splits)
  have "sock < 1024" using sock assms(2,3) bpf_open_fits by (auto split: if_splits)
  with bpf_configure_faults [OF _ e] assms(1) show ?thesis by (simp add: upd_bint_nth)
qed

text \<open>
  Setting up an interface in the BPF build leaves it ready to receive. When some BPF device is
  not busy the search for one ends, and while the descriptors fit the select set the function returns, or
  exits for lack of memory. In every case the buffer has the length that is recorded and \<open>hifd\<close> bounds the descriptors of the select
  set. After success, an interface with a device of its own is in the select set, is Ethernet or
  null, and its reads fit the buffer; a tunnel has as its master an interface in use that owns the
  tunnel's local address.
\<close>

theorem int_create_bpf_ready:
  assumes "bpf_ok b" and "i < length (b_ints b)" and "bi_socket (b_ints b ! i) < 1024"
    and "\<forall>k s. bs_open S k = Opened s \<longrightarrow> s < 1024" and "bs_open S (of_nat k) \<noteq> Busy" and "k < fuel"
  shows "int_create_bpf fuel S i tunnel b = Some (Inl ExitFailure) \<or>
    (\<exists>ok b'. int_create_bpf fuel S i tunnel b = Some (Inr (ok, b')) \<and> bpf_ok b' \<and> (ok \<longrightarrow> bpf_ready i tunnel b b'))"
proof -
  have le: "\<forall>k s. bs_open S k = Opened s \<longrightarrow> s < 2 ^ 31" "bi_socket (b_ints b ! i) < 2 ^ 31"
    using assms(3,4) by (fastforce, simp)
  obtain r where r: "int_create_bpf fuel S i tunnel b = Some r"
    using int_create_bpf_ends [OF le(1) assms(5,6)] by blast
  show ?thesis
  proof (cases r)
    case (Inl e)
    with int_create_bpf_faults [OF assms(2-4)] r show ?thesis by simp
  next
    case (Inr p)
    with int_create_bpf_inv [OF assms(1,2) le(2,1)] r show ?thesis by (cases p) auto
  qed
qed

text \<open>A configuration with one native interface, and a system with one busy device.\<close>

definition ex_bint :: bpf_int where
  "ex_bint = \<lparr>in_ifindex = 0, in_name = ''em0'', in_groupcount = 0, in_mtu = 1500, in_mld_version = 0,
     in_mld_last_v1 = 0, in_hwaddr = 0, in_linklocal = in6addr_any, in_global = in6addr_any,
     in_packets_received = 0, in_packets_sent = 0, in_bytes_received = 0, in_bytes_sent = 0,
     in_icmp_received = 0, in_icmp_sent = 0, in_upstream = False, bi_socket = - 1, bi_dlt = 0,
     bi_bufferlen = 0, bi_master = None, bi_ipv4_local = [[10, 0, 0, 1], ipv4_any, ipv4_any, ipv4_any],
     bi_ipv4_remote = ipv4_any\<rparr>"

definition ex_bpf :: bpf_conf where
  "ex_bpf = \<lparr>b_ints = [ex_bint, ex_bint\<lparr>in_ifindex := 1, bi_master := Some 0, bi_ipv4_remote := [10, 0, 0, 2]\<rparr>],
     b_maxinterfaces = 2, b_promisc = True, b_buffer = replicate 4 0, b_bufferlen = 4, b_tunnelmode = True,
     b_locals = cl_new, b_selectset = [], b_hifd = 0, b_upstream = None, b_upstream_id = 0,
     b_last_update = 0, b_now = 1000, b_closed = [], b_moves = 0, b_calloc = []\<rparr>"

definition ex_sys :: bpf_sys where
  "ex_sys = \<lparr>bs_open = (\<lambda>k. if k = 0 then Busy else Opened 7), bs_setif = True, bs_promisc = True,
     bs_nonblock = True, bs_immediate = True, bs_dlt = Some 1, bs_blen = Some 8, bs_socket = True,
     bs_phyaddr = Some ([10, 0, 0, 1], [10, 0, 0, 2]), bs_moves = False\<rparr>"

lemma ex_bpf_ok: "bpf_ok ex_bpf"
  by (simp add: bpf_ok_def ex_bpf_def ex_bint_def INTNODE_MAXIPV4_def)

theorem int_create_bpf_ready_witness:
  "\<exists>b'. int_create_bpf 2 ex_sys 0 False ex_bpf = Some (Inr (True, b')) \<and>
     7 \<in> set (b_selectset b') \<and> length (b_buffer b') = 8"
proof -
  have "bs_open ex_sys (of_nat 1) \<noteq> Busy" "\<forall>k s. bs_open ex_sys k = Opened s \<longrightarrow> s < 1024"
    "0 < length (b_ints ex_bpf)" "bi_socket (b_ints ex_bpf ! 0) < 1024"
    by (simp_all add: ex_sys_def ex_bpf_def ex_bint_def)
  note ready = int_create_bpf_ready [OF ex_bpf_ok this(3,4,2,1), of 2 False]
  have "bpf_open 2 (bs_open ex_sys) 0 = Some 7" by (simp add: numeral_2_eq_2 ex_sys_def)
  then have run: "int_create_bpf 2 ex_sys 0 False ex_bpf =
      Some (bpf_configure ex_sys 0 ((upd_bint 0 (\<lambda>n. n\<lparr>bi_socket := 7\<rparr>) ex_bpf)\<lparr>b_closed := removeAll 7 (b_closed ex_bpf)\<rparr>))"
    by (simp add: int_create_bpf_def ex_bpf_def ex_bint_def)
  have "\<exists>b'. bpf_configure ex_sys 0 ((upd_bint 0 (\<lambda>n. n\<lparr>bi_socket := 7\<rparr>) ex_bpf)\<lparr>b_closed := removeAll 7 (b_closed ex_bpf)\<rparr>) = Inr (True, b') \<and>
      bi_socket (b_ints b' ! 0) = 7 \<and> length (b_buffer b') = 8"
    by (simp add: bpf_configure_def bpf_buffer_def bpf_select_def FD_SETSIZE_def Let_def
        upd_bint_def ex_sys_def ex_bpf_def ex_bint_def layout)
  with ready run show ?thesis by (auto simp: bpf_ready_def Let_def)
qed

section \<open>Local addresses\<close>

lemma local_find_None: "local_find a b = None \<longleftrightarrow> (\<forall>k \<in> set (nodes (b_locals b)). a \<notin> set (bi_ipv4_local (b_ints b ! k)))"
  by (auto simp: local_find_def find_None_iff list_ex_iff)

lemma local_add_known:
  assumes "\<forall>a \<in> set as. a = ipv4_any \<or> local_find a b \<noteq> None"
  shows "fold (local_add i) as b = b"
  using assms by (induction as) (auto simp: local_add_def)

lemma local_update_adds:
  assumes "b_calloc b = []" and "set as \<subseteq> set (bi_ipv4_local (b_ints b ! i))"
  shows "fold (local_add i) as b = (if \<forall>a \<in> set as. a = ipv4_any \<or> local_find a b \<noteq> None then b
    else b\<lparr>b_locals := cl_add True i (b_locals b)\<rparr>)"
  using assms(2)
proof (induction as)
  case (Cons a as)
  show ?case
  proof (cases "a = ipv4_any \<or> local_find a b \<noteq> None")
    case True
    then have "local_add i a b = b" by (auto simp: local_add_def)
    with Cons True show ?thesis by simp
  next
    case False
    define b1 where "b1 = b\<lparr>b_locals := cl_add True i (b_locals b)\<rparr>"
    have b1: "local_add i a b = b1" using False assms(1) by (simp add: local_add_def b1_def Let_def)
    have "local_find c b1 \<noteq> None" if "c \<in> set as" for c
      using that Cons.prems unfolding local_find_None b1_def by (auto simp: cl_add_def)
    then have "fold (local_add i) as b1 = b1" by (intro local_add_known) auto
    with b1 False show ?thesis by (auto simp: b1_def)
  qed
qed simp

text \<open>
  \<open>local_update\<close> makes the IPv4 addresses of an interface known. While there is memory, every
  address of the interface that is not empty is found afterwards, every lookup that succeeded
  before gives the same node as before, and at most one node is added, and none when the interface
  was registered already, so the list has no duplicates.
\<close>

theorem local_update_registers:
  assumes "b_calloc b = []" and "distinct (nodes (b_locals b))"
  shows "(\<forall>a \<in> set (bi_ipv4_local (b_ints b ! i)). a \<noteq> ipv4_any \<longrightarrow> local_find a (local_update i b) \<noteq> None) \<and>
    (\<forall>a. local_find a b \<noteq> None \<longrightarrow> local_find a (local_update i b) = local_find a b) \<and>
    nodes (b_locals (local_update i b)) \<in> {nodes (b_locals b), nodes (b_locals b) @ [i]} \<and>
    distinct (nodes (b_locals (local_update i b)))"
proof -
  note run = local_update_adds [OF assms(1) subset_refl, of i, folded local_update_def]
  define b1 where "b1 = b\<lparr>b_locals := cl_add True i (b_locals b)\<rparr>"
  show ?thesis
  proof (cases "\<forall>a \<in> set (bi_ipv4_local (b_ints b ! i)). a = ipv4_any \<or> local_find a b \<noteq> None")
    case True
    with run have "local_update i b = b" by simp
    with True assms(2) show ?thesis by auto
  next
    case False
    with run have u: "local_update i b = b1" unfolding b1_def by (simp only: if_False)
    from False obtain a where "a \<in> set (bi_ipv4_local (b_ints b ! i))" "local_find a b = None" by auto
    then have new: "i \<notin> set (nodes (b_locals b))" by (auto simp: local_find_None)
    have found: "local_find c b1 \<noteq> None" if "c \<in> set (bi_ipv4_local (b_ints b ! i))" for c
      using that unfolding local_find_None b1_def by (auto simp: cl_add_def)
    have "local_find c b1 = local_find c b" if "local_find c b \<noteq> None" for c
      using that by (auto simp: local_find_def b1_def cl_add_def find_append split: option.splits)
    with found u new assms(2) show ?thesis by (auto simp: b1_def cl_add_def)
  qed
qed

theorem local_update_registers_witness: "local_find [10, 0, 0, 1] (local_update 0 ex_bpf) \<noteq> None"
  using local_update_registers [of ex_bpf 0] by (simp add: ex_bpf_def ex_bint_def ipv4_any_def)

section \<open>Entering addresses\<close>

lemma local_add_ints [simp]: "b_ints (local_add i a b) = b_ints b"
  by (simp add: local_add_def b_alloc_def Let_def split: list.split bool.split)

lemma local_update_ints [simp]: "b_ints (local_update i b) = b_ints b"
  unfolding local_update_def by (rule fold_invariant [where Q = "\<lambda>_. True"]) auto

lemma ipv4_slot_first:
  assumes "\<forall>j \<in> set js. take 4 (drop (4 * j) m) \<noteq> ipv4_any \<and> take 16 (drop (4 * j) m) \<noteq> addr"
    and "take 4 (drop (4 * k) m) = ipv4_any"
  shows "ipv4_slot False addr (js @ k # ks) m = (True, take (4 * k) m @ addr @ drop (4 * k + 16) m)"
  using assms by (induction js) auto

lemma int_of_mem_fields:
  "k < INTNODE_MAXIPV4 \<Longrightarrow> bi_ipv4_local (int_of_mem m n) ! k = take 4 (drop (4 * k) m)"
  "bi_ipv4_remote (int_of_mem m n) = take 4 (drop 16 m)" "in_linklocal (int_of_mem m n) = take 16 (drop 20 m)"
  by (simp_all add: int_of_mem_def)

lemma update_ipv4_mem:
  assumes "i < length (b_ints b)" and "k < INTNODE_MAXIPV4"
    and "\<forall>j < k. take 4 (drop (4 * j) (int_mem (b_ints b ! i))) \<noteq> ipv4_any \<and>
      take 16 (drop (4 * j) (int_mem (b_ints b ! i))) \<noteq> addr"
    and "take 4 (drop (4 * k) (int_mem (b_ints b ! i))) = ipv4_any"
  shows "b_ints (snd (update_ipv4 False addr i (got, b))) ! i =
    int_of_mem (take (4 * k) (int_mem (b_ints b ! i)) @ addr @ drop (4 * k + 16) (int_mem (b_ints b ! i))) (b_ints b ! i)"
proof -
  have "[0..<INTNODE_MAXIPV4] = [0..<k] @ k # [Suc k..<INTNODE_MAXIPV4]"
    using assms(2) by (metis less_imp_add_positive upt_add_eq_append upt_conv_Cons le0 add.left_neutral)
  with ipv4_slot_first [of "[0..<k]" "int_mem (b_ints b ! i)" addr k "[Suc k..<INTNODE_MAXIPV4]"] assms
  show ?thesis by (simp add: update_ipv4_def Let_def upd_bint_nth)
qed

text \<open>
  Every local IPv4 address after the first destroys other fields. The code copies the size of
  the whole array of addresses to the slot it found, so that with the second, third or fourth slot
  the bytes behind the address, which it also copied from beyond a \<open>struct sockaddr_in\<close>, replace the
  remote address and, from the third slot on, the beginning of the link-local address.
\<close>

theorem later_ipv4_clobbers:
  assumes "i < length (b_ints b)" and "0 < k" and "k < INTNODE_MAXIPV4" and "length addr = 16"
    and "length (concat (bi_ipv4_local (b_ints b ! i))) = 16"
    and "length (bi_ipv4_remote (b_ints b ! i)) = 4" and "length (in_linklocal (b_ints b ! i)) = 16"
    and "\<forall>j < k. take 4 (drop (4 * j) (int_mem (b_ints b ! i))) \<noteq> ipv4_any \<and>
      take 16 (drop (4 * j) (int_mem (b_ints b ! i))) \<noteq> addr"
    and "take 4 (drop (4 * k) (int_mem (b_ints b ! i))) = ipv4_any"
  shows "let n = b_ints (snd (update_ipv4 False addr i (got, b))) ! i in
    bi_ipv4_local n ! k = take 4 addr \<and> bi_ipv4_remote n = take 4 (drop (16 - 4 * k) addr) \<and>
    in_linklocal n = drop (20 - 4 * k) addr @ drop (4 * k - 4) (in_linklocal (b_ints b ! i))"
proof -
  let ?m = "int_mem (b_ints b ! i)"
  let ?m' = "take (4 * k) ?m @ addr @ drop (4 * k + 16) ?m"
  have k: "k = 1 \<or> k = 2 \<or> k = 3" using assms(2,3) by (auto simp: INTNODE_MAXIPV4_def)
  have len: "length ?m = 36" using assms(5-7) by (simp add: int_mem_def)
  have tail: "drop (4 * k + 16) ?m = drop (4 * k - 4) (in_linklocal (b_ints b ! i))"
    using assms(2,5,6) by (simp add: int_mem_def)
  have "take 4 (drop (4 * k) ?m') = take 4 addr" "take 4 (drop 16 ?m') = take 4 (drop (16 - 4 * k) addr)"
    "take 16 (drop 20 ?m') = drop (20 - 4 * k) addr @ drop (4 * k - 4) (in_linklocal (b_ints b ! i))"
    unfolding tail using k len assms(4,7) by auto
  then have "bi_ipv4_local (int_of_mem ?m' n) ! k = take 4 addr"
    "bi_ipv4_remote (int_of_mem ?m' n) = take 4 (drop (16 - 4 * k) addr)"
    "in_linklocal (int_of_mem ?m' n) = drop (20 - 4 * k) addr @ drop (4 * k - 4) (in_linklocal (b_ints b ! i))" for n
    by (simp_all only: int_of_mem_fields assms(3))
  then show ?thesis unfolding update_ipv4_mem [OF assms(1,3,8,9)] Let_def by blast
qed

theorem later_ipv4_clobbers_witness:
  "bi_ipv4_remote (b_ints (snd (update_ipv4 False ([10, 0, 0, 9] @ replicate 8 0 @ [1, 2, 3, 4]) 1 (False, ex_bpf))) ! 1)
     = [1, 2, 3, 4]"
proof -
  let ?a = "[10, 0, 0, 9] @ replicate 8 0 @ [1, 2, 3, 4] :: bytes"
  have "take 4 (int_mem (b_ints ex_bpf ! 1)) \<noteq> ipv4_any \<and> take 16 (int_mem (b_ints ex_bpf ! 1)) \<noteq> ?a"
    "take 4 (drop 4 (int_mem (b_ints ex_bpf ! 1))) = ipv4_any"
    by (simp_all add: int_mem_def ex_bpf_def ex_bint_def ipv4_any_def)
  then have "let n = b_ints (snd (update_ipv4 False ?a 1 (False, ex_bpf))) ! 1 in
      bi_ipv4_local n ! 1 = take 4 ?a \<and> bi_ipv4_remote n = take 4 (drop (16 - 4 * 1) ?a) \<and>
      in_linklocal n = drop (20 - 4 * 1) ?a @ drop (4 * 1 - 4) (in_linklocal (b_ints ex_bpf ! 1))"
    by (intro later_ipv4_clobbers)
      (simp_all add: ex_bpf_def ex_bint_def ipv4_any_def INTNODE_MAXIPV4_def in6addr_any_def)
  then show ?thesis by (simp add: Let_def)
qed

section \<open>Frames\<close>

lemma proto41_fold:
  assumes "length src = 4" and "length dst = 4"
  shows "fold16 (sum16 (proto41_header len (finish_chksum (ucast (inchksum (proto41_header len 0 src dst)))) src dst)) = 0xffff"
proof -
  define pre where "pre = [0x45, 0] @ le16_bytes (htons (len + 20)) @ le16_bytes (htons 42) @ [0, 0] @ [100, IPPROTO_IPV6]"
  have hdr: "proto41_header len c src dst = pre @ le16_bytes c @ src @ dst" for c
    by (simp add: proto41_header_def pre_def)
  have ev: "even (length pre)" by (simp add: pre_def le16_bytes_def)
  define z where "z = pre @ [0, 0] @ src @ dst"
  define c where "c = finish_chksum (ucast (inchksum z))"
  have z: "proto41_header len 0 src dst = z" by (simp add: hdr z_def le16_bytes_def)
  have le: "unat (ucast (inchksum z) :: u32) \<le> 196605"
    unfolding unat_ucast_up using unat_u16_le [of "inchksum z"] by linarith
  note fc = finish_chksum_completes [OF le, unfolded unat_ucast_up unat_inchksum, folded c_def]
  have s: "sum16 (pre @ le16_bytes c @ src @ dst) = sum16 z + unat c"
    unfolding z_def by (rule sum16_insert [OF ev])
  have "(sum16 z + unat c) mod 65535 = 0" using fc(1) by (metis mod_add_left_eq ones_mod)
  then have "fold16 (sum16 z + unat c) = 0xffff"
    unfolding fold16_ones using fc(2) by (intro ones_eqI) auto
  then have "fold16 (sum16 (proto41_header len c src dst)) = 0xffff" unfolding hdr s .
  then show ?thesis unfolding c_def z .
qed

text \<open>
  C27: A packet for a tunnel is put into a well-formed IPv4 packet of protocol 41. It goes to the
  socket of the tunnel's master behind an Ethernet header; the IPv4 header has twenty bytes, the
  total length, the addresses of the tunnel, and a checksum with which it sums up to all ones. The
  IPv6 packet follows unchanged.
\<close>

theorem proto41_wire:
  assumes "b_tunnelmode b" and "bi_master (b_ints b ! i) = Some m"
    and "length (bi_ipv4_local (b_ints b ! i) ! 0) = 4" and "length (bi_ipv4_remote (b_ints b ! i)) = 4"
    and "iph + 40 \<le> length obj" and "iph + unat len \<le> length obj"
  shows "\<exists>hdr. sendpacket6_bpf b i obj iph len = Inr (bi_socket (b_ints b ! m),
      eth_header (take 4 (drop (iph + 36) obj)) ETH_P_IP @ hdr @ take (unat len) (drop iph obj)) \<and>
    length hdr = 20 \<and> hdr ! 0 = 0x45 \<and> hdr ! 9 = IPPROTO_IPV6 \<and> ntohs (le16 (hdr ! 2) (hdr ! 3)) = len + 20 \<and>
    take 4 (drop 12 hdr) = bi_ipv4_local (b_ints b ! i) ! 0 \<and> drop 16 hdr = bi_ipv4_remote (b_ints b ! i) \<and>
    fold16 (sum16 hdr) = 0xffff"
proof -
  let ?s = "bi_ipv4_local (b_ints b ! i) ! 0" and ?d = "bi_ipv4_remote (b_ints b ! i)"
  define hdr where "hdr = proto41_header len (finish_chksum (ucast (inchksum (proto41_header len 0 ?s ?d)))) ?s ?d"
  have "sendpacket6_bpf b i obj iph len = Inr (bi_socket (b_ints b ! m),
      eth_header (take 4 (drop (iph + 36) obj)) ETH_P_IP @ hdr @ take (unat len) (drop iph obj))"
    using assms by (simp add: sendpacket6_bpf_def bpf_frame_def rd_Inr Let_def hdr_def)
  moreover have "length hdr = 20" "hdr ! 0 = 0x45" "hdr ! 9 = IPPROTO_IPV6"
    "take 4 (drop 12 hdr) = ?s" "drop 16 hdr = ?d"
    using assms(3,4) by (simp_all add: hdr_def proto41_header_def le16_bytes_def nth_append)
  moreover have "hdr ! 2 = le16_bytes (htons (len + 20)) ! 0" "hdr ! 3 = le16_bytes (htons (len + 20)) ! 1"
    by (simp_all add: hdr_def proto41_header_def le16_bytes_def)
  then have "ntohs (le16 (hdr ! 2) (hdr ! 3)) = len + 20" by (simp only: le16_le16_bytes htons_htons)
  moreover have "fold16 (sum16 hdr) = 0xffff" unfolding hdr_def by (rule proto41_fold [OF assms(3,4)])
  ultimately show ?thesis by blast
qed

theorem proto41_wire_witness:
  "\<exists>hdr. sendpacket6_bpf ex_bpf 1 (replicate 48 0) 0 48 =
     Inr (- 1, eth_header [0, 0, 0, 0] ETH_P_IP @ hdr @ replicate 48 0) \<and> length hdr = 20 \<and> hdr ! 9 = IPPROTO_IPV6"
proof -
  have "replicate 4 (0 :: u8) = [0, 0, 0, 0]" by (simp add: numeral_eq_Suc)
  with proto41_wire [of ex_bpf 1 0 0 "replicate 48 0" 48] show ?thesis
    by (simp add: ex_bpf_def ex_bint_def ipv4_any_def) blast
qed

section \<open>The packets of one read\<close>

lemma bpf_read_once:
  assumes "\<forall>n. n \<le> align n" and "unat (caplen 0) + unat (hdrlen 0) < 2 ^ 32" and "2 \<le> fuel"
  shows "bpf_read fuel caplen hdrlen align intn =
    (if caplen 0 = 0 then Some (intn, [])
     else Some (intn\<lparr>in_packets_received := in_packets_received intn + 1,
                     in_bytes_received := in_bytes_received intn + ucast (caplen 0)\<rparr>,
                [(unat (hdrlen 0), caplen 0)]))"
proof -
  obtain f where fuel: "fuel = Suc (Suc f)" using assms(3) by (cases fuel; cases "fuel - 1") auto
  have "unat (caplen 0 + ucast (hdrlen 0)) = unat (caplen 0) + unat (hdrlen 0)"
    using assms(2) by (simp add: unat_word_ariths unat_ucast_up)
  then have "\<not> align (unat (caplen 0 + ucast (hdrlen 0))) < unat (caplen 0)"
    using assms(1) [rule_format, of "unat (caplen 0 + ucast (hdrlen 0))"] by linarith
  then show ?thesis
    by (auto simp: bpf_read_def fuel unat_gt_0)
qed

text \<open>
  C39: Of the packets that one \<open>read\<close> of a BPF device returns, at most the first is handled. The end of
  the loop is set from \<open>bh_caplen\<close> of the first header instead of the number of bytes read, and the
  step past the first packet is at least that long, so the loop ends after one round, whatever
  follows in the buffer; it hands over the frame behind the header and counts it.
\<close>

theorem bpf_reads_first:
  assumes "\<forall>n. n \<le> align n" and "unat (caplen 0) + unat (hdrlen 0) < 2 ^ 32" and "2 \<le> fuel"
  shows "bpf_read fuel caplen hdrlen align intn =
    (if caplen 0 = 0 then Some (intn, [])
     else Some (intn\<lparr>in_packets_received := in_packets_received intn + 1,
                     in_bytes_received := in_bytes_received intn + ucast (caplen 0)\<rparr>,
                [(unat (hdrlen 0), caplen 0)]))"
  using assms by (rule bpf_read_once)

theorem bpf_reads_first_witness:
  "map_option snd (bpf_read 2 (\<lambda>_. 60) (\<lambda>_. 18) (\<lambda>n. (n + 3) div 4 * 4) ex_bint) = Some [(18, 60)]"
proof -
  have "\<forall>n::nat. n \<le> (n + 3) div 4 * 4" by presburger
  from bpf_reads_first [OF this, of "\<lambda>_. 60" "\<lambda>_. 18" 2 ex_bint] show ?thesis by simp
qed

end
