(* ===== verification/Mld2_Report.thy ===== *)
theory Mld2_Report
  imports Send
begin

text \<open>
  \<open>mld2_send_report\<close>, which packs the tables into MLDv2 reports, and \<open>mld_send_report\<close> with
  the loop over all interfaces. The packet is a heap object of one MTU; every access to it is
  checked against that size. Host byte order is kept as the code keeps it: a count is
  converted in place when its record is finished.
\<close>

section \<open>The packet\<close>

definition sizeof_report_packet :: nat where [layout]: "sizeof_report_packet = 56"

definition off_plen :: nat where [layout]: "off_plen = 4"
definition off_mld2r :: nat where [layout]: "off_mld2r = 48"
definition off_csum :: nat where [layout]: "off_csum = 50"
definition off_ngrec :: nat where [layout]: "off_ngrec = 54"

definition wr16 :: "bytes \<Rightarrow> nat \<Rightarrow> u16 \<Rightarrow> bytes result" where
  "wr16 pkt a v = wr pkt a (le16_bytes v)"

text \<open>The fields of the record at offset \<open>g\<close>.\<close>

definition get_nsrcs :: "bytes \<Rightarrow> nat \<Rightarrow> u16 result" where
  "get_nsrcs pkt g = rd16 pkt (g + 2)"

definition set_nsrcs :: "bytes \<Rightarrow> nat \<Rightarrow> u16 \<Rightarrow> bytes result" where
  "set_nsrcs pkt g n = wr16 pkt (g + 2) n"

definition set_grec_type :: "bytes \<Rightarrow> nat \<Rightarrow> u8 \<Rightarrow> bytes result" where
  "set_grec_type pkt g t = wr pkt g [t]"

definition src_offset :: "nat \<Rightarrow> u16 \<Rightarrow> nat" where
  "src_offset g nsrcs = g + sizeof_mld2_grec + sizeof_in6_addr * unat nsrcs"

definition all_routers :: in6_addr where
  "all_routers = [0xff, 0x02] @ replicate 13 0 @ [0x16]"

definition report_packet :: "nat \<Rightarrow> in6_addr \<Rightarrow> bytes" where
  "report_packet mtu linklocal =
     ip6_hdr (of_nat (sizeof_report_packet - sizeof_ip6_hdr)) IPPROTO_HOPOPTS 1 linklocal all_routers
     @ hbh_routeralert @ [ICMP6_V2_MEMBERSHIP_REPORT] @ replicate 7 0
     @ replicate (mtu - sizeof_report_packet) 0"

section \<open>The loop body\<close>

text \<open>The local variables of the function, with the state of the daemon.\<close>

record report =
  rp_world :: world
  rp_packet :: bytes
  rp_grec :: "nat option"
  rp_src :: "nat option"
  rp_any :: bool
  rp_returned :: bool

definition grec_length :: "bytes \<Rightarrow> nat \<Rightarrow> u32 result" where
  "grec_length pkt g = rbind (get_nsrcs pkt g) (\<lambda>n.
     Inr (of_nat (src_offset g n) - of_nat sizeof_ip6_hdr))"

text \<open>Fix the byte order, fill in length and checksum, and send.\<close>

definition report_emit :: "env \<Rightarrow> nat \<Rightarrow> nat \<Rightarrow> u32 \<Rightarrow> bytes \<Rightarrow> world \<Rightarrow> (bytes \<times> world) result" where
  "report_emit E i g len pkt w =
     rbind (rd16 pkt off_ngrec) (\<lambda>ngrec.
     rbind (wr16 pkt off_ngrec (htons ngrec)) (\<lambda>p1.
     rbind (get_nsrcs p1 g) (\<lambda>n.
     rbind (set_nsrcs p1 g (htons n)) (\<lambda>p2.
     rbind (wr16 p2 off_plen (htons (ucast len))) (\<lambda>p3.
     rbind (wr16 p3 off_csum (htons 0)) (\<lambda>p4.
     rbind (ipv6_checksum_at p4 0 IPPROTO_ICMPV6 off_mld2r (ucast (len - of_nat sizeof_hbh_ra))) (\<lambda>csum.
     rbind (wr16 p4 off_csum csum) (\<lambda>p5.
     rbind (sendpacket6 E i p5 0 (ucast (len + of_nat sizeof_ip6_hdr)) w) (\<lambda>w1.
       Inr (p5, count_icmp_sent i w1))))))))))"

text \<open>
  The search for a source that is already in the record. The address that is compared does
  not depend on the loop variable: it is always the one behind the last source.
\<close>

fun dup_scan :: "bytes \<Rightarrow> nat \<Rightarrow> in6_addr \<Rightarrow> nat \<Rightarrow> nat option \<Rightarrow> nat option result" where
  "dup_scan pkt g ipv6 0 src = Inr src"
| "dup_scan pkt g ipv6 (Suc k) None = Inr None"
| "dup_scan pkt g ipv6 (Suc k) (Some s) =
     rbind (get_nsrcs pkt g) (\<lambda>n.
     rbind (rd pkt (src_offset g n) 16) (\<lambda>b.
       if b = ipv6 then Inr None else dup_scan pkt g ipv6 k (Some (src_offset g n))))"

text \<open>The block \<open>if (src)\<close>; the first result tells to continue with the next subscription.\<close>

definition report_dup :: "in6_addr \<Rightarrow> report \<Rightarrow> (bool \<times> report) result" where
  "report_dup ipv6 r = (case rp_src r of
       None \<Rightarrow> Inr (False, r)
     | Some s \<Rightarrow> (case rp_grec r of
           None \<Rightarrow> Inr (True, r)
         | Some g \<Rightarrow>
            rbind (if IN6_IS_ADDR_UNSPECIFIED ipv6 then
                rbind (set_nsrcs (rp_packet r) g 0) (\<lambda>p1.
                rbind (set_grec_type p1 g MLD2_MODE_IS_EXCLUDE) (\<lambda>p2.
                  Inr (r\<lparr>rp_packet := p2, rp_src := None, rp_any := True\<rparr>)))
              else Inr r) (\<lambda>r1.
            rbind (if rp_any r1 then Inr (rp_src r1)
                   else rbind (get_nsrcs (rp_packet r1) g) (\<lambda>n.
                     dup_scan (rp_packet r1) g ipv6 (unat n) (rp_src r1))) (\<lambda>src.
              Inr (src = None, r1\<lparr>rp_src := src\<rparr>)))))"

text \<open>Would it fit? If not, the packet is sent and a new one is begun.\<close>

definition report_flush :: "env \<Rightarrow> nat \<Rightarrow> in6_addr \<Rightarrow> report \<Rightarrow> report result" where
  "report_flush E i ipv6 r =
     rbind (case rp_grec r of Some g \<Rightarrow> grec_length (rp_packet r) g
            | None \<Rightarrow> Inr (of_nat sizeof_report_packet)) (\<lambda>len.
       if (ucast len :: u64) + of_nat sizeof_ip6_hdr + (if rp_grec r \<noteq> None then 0 else of_nat sizeof_mld2_grec)
          + (if rp_any r \<or> IN6_IS_ADDR_UNSPECIFIED ipv6 then 0 else of_nat sizeof_in6_addr)
          > in_mtu (ints (rp_world r) ! i)
       then (case rp_grec r of
           None \<Rightarrow> Inr (r\<lparr>rp_returned := True\<rparr>)
         | Some g \<Rightarrow>
            rbind (report_emit E i g len (rp_packet r) (rp_world r)) (\<lambda>(p, w).
            rbind (wr16 p off_ngrec 0) (\<lambda>p1.
              Inr (r\<lparr>rp_packet := p1, rp_world := w, rp_grec := None, rp_src := None\<rparr>))))
       else Inr r)"

definition report_new_grec :: "in6_addr \<Rightarrow> report \<Rightarrow> report result" where
  "report_new_grec mca r =
     rbind (rd16 (rp_packet r) off_ngrec) (\<lambda>ngrec.
     rbind (wr16 (rp_packet r) off_ngrec (ngrec + 1)) (\<lambda>p1.
     rbind (case rp_grec r of
         Some g \<Rightarrow>
           rbind (get_nsrcs p1 g) (\<lambda>n.
           rbind (set_nsrcs p1 g (htons n)) (\<lambda>p2.
           rbind (get_nsrcs p2 g) (\<lambda>n'. Inr (p2, src_offset g n'))))
       | None \<Rightarrow> Inr (p1, sizeof_report_packet)) (\<lambda>(p3, g').
     rbind (wr p3 (g' + 4) mca) (\<lambda>p4.
     rbind (set_nsrcs p4 g' 0) (\<lambda>p5.
     rbind (set_grec_type p5 g' MLD2_MODE_IS_EXCLUDE) (\<lambda>p6.
       Inr (r\<lparr>rp_packet := p6, rp_grec := Some g', rp_any := False\<rparr>)))))))"

definition report_add :: "in6_addr \<Rightarrow> report \<Rightarrow> report result" where
  "report_add ipv6 r =
     (if \<not> IN6_IS_ADDR_UNSPECIFIED ipv6 then
        (case rp_grec r of
           None \<Rightarrow> Inl NullDeref
         | Some g \<Rightarrow>
            rbind (get_nsrcs (rp_packet r) g) (\<lambda>n.
            rbind (set_nsrcs (rp_packet r) g (n + 1)) (\<lambda>p1.
            rbind (set_grec_type p1 g MLD2_MODE_IS_INCLUDE) (\<lambda>p2.
            rbind (wr p2 (src_offset g n) ipv6) (\<lambda>p3.
              Inr (r\<lparr>rp_packet := p3, rp_src := Some (src_offset g n)\<rparr>))))))
      else Inr (r\<lparr>rp_any := True\<rparr>))"

definition report_subscr :: "env \<Rightarrow> nat \<Rightarrow> in6_addr \<Rightarrow> subscrnode \<Rightarrow> report \<Rightarrow> report result" where
  "report_subscr E i mca s r =
     (if rp_returned r then Inr r
      else if sb_mode s = MODE_EXCLUDE then Inr r
      else rbind (report_dup (sb_ipv6 s) r) (\<lambda>(skip, r1).
        if skip then Inr r1
        else rbind (report_flush E i (sb_ipv6 s) r1) (\<lambda>r2.
          if rp_returned r2 then Inr r2
          else rbind (if rp_src r2 = None then report_new_grec mca r2 else Inr r2) (\<lambda>r3.
            report_add (sb_ipv6 s) r3))))"

section \<open>The loops\<close>

definition report_grpint :: "env \<Rightarrow> nat \<Rightarrow> in6_addr \<Rightarrow> grpintnode \<Rightarrow> report \<Rightarrow> report result" where
  "report_grpint E i mca gi r =
     (if gi_ifindex gi = in_ifindex (ints (rp_world r) ! i) then Inr r
      else foldM (report_subscr E i mca) (nodes (gi_subscriptions gi)) r)"

definition report_group :: "env \<Rightarrow> nat \<Rightarrow> in6_addr option \<Rightarrow> groupnode \<Rightarrow> report \<Rightarrow> report result" where
  "report_group E i mca g r =
     (if (case mca of Some a \<Rightarrow> \<not> IN6_ARE_ADDR_EQUAL a (gr_mca g) | None \<Rightarrow> False)
         \<or> count (gr_interfaces g) = 0
      then Inr r
      else foldM (report_grpint E i (gr_mca g)) (nodes (gr_interfaces g)) (r\<lparr>rp_src := None\<rparr>))"

text \<open>What follows the loops.\<close>

definition report_finish :: "env \<Rightarrow> nat \<Rightarrow> report \<Rightarrow> world result" where
  "report_finish E i r =
     rbind (rd16 (rp_packet r) off_ngrec) (\<lambda>ngrec.
       if ngrec = 0 then Inr (rp_world r)
       else (case rp_grec r of
           None \<Rightarrow> Inl NullDeref
         | Some g \<Rightarrow>
            rbind (grec_length (rp_packet r) g) (\<lambda>len.
            rbind (report_emit E i g len (rp_packet r) (rp_world r)) (\<lambda>(p, w). Inr w))))"

definition mld2_send_report :: "env \<Rightarrow> nat \<Rightarrow> in6_addr option \<Rightarrow> world \<Rightarrow> world result" where
  "mld2_send_report E i mca w =
     (let intn = ints w ! i in
      if in_mtu intn < of_nat sizeof_report_packet then Inr w
      else case calloc w of
        (False, _) \<Rightarrow> Inl ExitFailure
      | (True, w1) \<Rightarrow>
         rbind (foldM (report_group E i mca) (nodes (groups w1))
           \<lparr>rp_world = w1, rp_packet = report_packet (unat (in_mtu intn)) (in_linklocal intn),
            rp_grec = None, rp_src = None, rp_any = False, rp_returned = False\<rparr>) (\<lambda>r.
         if rp_returned r then Inr (rp_world r) else report_finish E i r))"

definition mld_send_report :: "env \<Rightarrow> nat \<Rightarrow> in6_addr \<Rightarrow> world \<Rightarrow> world result" where
  "mld_send_report E i mca w =
     rbind (let intn = ints w ! i in
            if \<not> mld2only w \<and> (mld1only w \<or> (in_mld_version intn = 0 \<and> \<not> in_upstream intn)
                 \<or> in_mld_version intn = 1)
            then mld1_send_report E i mca w else Inr w) (\<lambda>w1.
       let intn = ints w1 ! i in
       if \<not> mld1only w1 \<and> (mld2only w1 \<or> in_mld_version intn = 0 \<or> in_mld_version intn = 2)
       then mld2_send_report E i (Some mca) w1 else Inr w1)"

text \<open>The loop over all interfaces; \<open>interface\<close> is the one that is left out.\<close>

definition mld_send_report_all :: "env \<Rightarrow> nat \<Rightarrow> in6_addr \<Rightarrow> world \<Rightarrow> world result" where
  "mld_send_report_all E interface mca w =
     foldM (\<lambda>i u. if in_mtu (ints u ! i) = 0 \<or> in_ifindex (ints u ! interface) = in_ifindex (ints u ! i)
                  then Inr u else mld_send_report E i mca u)
       [0..<unat (maxinterfaces w)] w"

section \<open>Senders\<close>

text \<open>
  The contract of everything that sends on an interface, and the loops that run it on several
  interfaces in turn.
\<close>

locale sender =
  fixes send :: "nat \<Rightarrow> world \<Rightarrow> world result"
  assumes send_frame: "send i w = Inr w' \<Longrightarrow> sends w w'"
begin

lemma loop_frame:
  assumes "foldM (\<lambda>i u. if skip i u then Inr u else send i u) is_list w = Inr w'"
  shows "sends w w'"
  using assms by (rule foldM_invariant [where P = "sends w"])
    (auto split: if_splits dest: send_frame intro: sends_trans)

lemma loop_tables:
  assumes "foldM (\<lambda>i u. if skip i u then Inr u else send i u) is_list w = Inr w'"
  shows "groups w' = groups w" and "membership w' = membership w" and "ints_ok w \<Longrightarrow> ints_ok w'"
  using loop_frame [OF assms] by (simp_all add: sends_fields sends_membership sends_ints_ok)

text \<open>An interface that is passed over is left as it is, up to what sending does to it.\<close>

lemma loop_total:
  assumes "sends w u" and "\<And>i u. i \<in> set is_list \<Longrightarrow> sends w u \<Longrightarrow> \<not> skip i u \<Longrightarrow> \<exists>v. send i u = Inr v"
  shows "\<exists>w'. foldM (\<lambda>i u. if skip i u then Inr u else send i u) is_list u = Inr w' \<and> sends w w'"
  using assms(1)
proof (rule foldM_total [where P = "sends w"])
  fix i v
  assume iv: "i \<in> set is_list" "sends w v"
  show "\<exists>x. (if skip i v then Inr v else send i v) = Inr x \<and> sends w x"
  proof (cases "skip i v")
    case False
    then obtain x where "send i v = Inr x" using assms(2) iv by blast
    with False iv(2) show ?thesis by (auto intro: sends_trans [OF _ send_frame])
  qed (use iv in auto)
qed

end

lemma report_emit_sends: "report_emit E i g len pkt w = Inr (p, w') \<Longrightarrow> sends w w'"
  by (auto simp: report_emit_def dest!: sendpacket6_sends(1)
      intro: sends_trans [OF _ count_icmp_sent_sends])

lemma report_dup_world: "report_dup ip r = Inr (skip, r') \<Longrightarrow> rp_world r' = rp_world r"
  by (auto simp: report_dup_def split: option.splits if_splits)

lemma report_flush_sends: "report_flush E i ip r = Inr r' \<Longrightarrow> sends (rp_world r) (rp_world r')"
  by (auto simp: report_flush_def dest!: report_emit_sends split: option.splits if_splits)

lemma report_new_grec_world: "report_new_grec mca r = Inr r' \<Longrightarrow> rp_world r' = rp_world r"
  by (auto simp: report_new_grec_def)

lemma report_add_world: "report_add ip r = Inr r' \<Longrightarrow> rp_world r' = rp_world r"
  by (auto simp: report_add_def split: option.splits if_splits)

lemma report_subscr_sends:
  assumes "report_subscr E i mca s r = Inr r'"
  shows "sends (rp_world r) (rp_world r')"
proof (cases "rp_returned r \<or> sb_mode s = MODE_EXCLUDE")
  case False
  then obtain skip r1 where r1: "report_dup (sb_ipv6 s) r = Inr (skip, r1)"
    using assms by (auto simp: report_subscr_def)
  show ?thesis
  proof (cases skip)
    case True
    with assms False r1 show ?thesis
      using report_dup_world [OF r1] by (simp add: report_subscr_def)
  next
    case no_skip: False
    then obtain r2 where r2: "report_flush E i (sb_ipv6 s) r1 = Inr r2"
      using assms False r1 by (auto simp: report_subscr_def)
    have "rp_world r' = rp_world r2"
    proof (cases "rp_returned r2")
      case True
      with assms False r1 r2 no_skip show ?thesis by (simp add: report_subscr_def)
    next
      case not_ret: False
      obtain r3 where "(if rp_src r2 = None then report_new_grec mca r2 else Inr r2) = Inr r3"
        and r3: "report_add (sb_ipv6 s) r3 = Inr r'"
        using assms False r1 r2 no_skip not_ret by (auto simp: report_subscr_def)
      then have "rp_world r3 = rp_world r2"
        using report_new_grec_world by (auto split: if_splits)
      with report_add_world [OF r3] show ?thesis by simp
    qed
    with report_dup_world [OF r1] report_flush_sends [OF r2] show ?thesis by simp
  qed
qed (use assms in \<open>auto simp: report_subscr_def split: if_splits\<close>)

lemma report_foldM_sends:
  assumes "foldM f xs r = Inr r'" and "\<And>x u v. f x u = Inr v \<Longrightarrow> sends (rp_world u) (rp_world v)"
  shows "sends (rp_world r) (rp_world r')"
  using assms(1)
proof (rule foldM_invariant [where P = "\<lambda>x. sends (rp_world r) (rp_world x)"])
  show "sends (rp_world r) (rp_world v)" if "sends (rp_world r) (rp_world u)" "f x u = Inr v" for x u v
    using that(1) assms(2) [OF that(2)] by (rule sends_trans)
qed simp

lemma report_grpint_sends:
  "report_grpint E i mca gi r = Inr r' \<Longrightarrow> sends (rp_world r) (rp_world r')"
  by (auto simp: report_grpint_def split: if_splits elim: report_foldM_sends intro: report_subscr_sends)

lemma report_group_sends:
  assumes "report_group E i mca g r = Inr r'"
  shows "sends (rp_world r) (rp_world r')"
proof (cases "(case mca of Some a \<Rightarrow> \<not> IN6_ARE_ADDR_EQUAL a (gr_mca g) | None \<Rightarrow> False)
    \<or> count (gr_interfaces g) = 0")
  case True
  with assms have "r' = r" unfolding report_group_def by (simp only: if_True) simp
  then show ?thesis by simp
next
  case False
  with assms have "foldM (report_grpint E i (gr_mca g)) (nodes (gr_interfaces g)) (r\<lparr>rp_src := None\<rparr>) = Inr r'"
    unfolding report_group_def by (simp only: if_False)
  from report_foldM_sends [OF this report_grpint_sends] show ?thesis by simp
qed

text \<open>The state in which the loops begin.\<close>

definition report_start :: "nat \<Rightarrow> world \<Rightarrow> world \<Rightarrow> report" where
  "report_start i w w1 =
     \<lparr>rp_world = w1, rp_packet = report_packet (unat (in_mtu (ints w ! i))) (in_linklocal (ints w ! i)),
      rp_grec = None, rp_src = None, rp_any = False, rp_returned = False\<rparr>"

lemma mld2_send_report_sends:
  assumes "mld2_send_report E i mca w = Inr w'"
  shows "sends w w'"
proof (cases "in_mtu (ints w ! i) < of_nat sizeof_report_packet")
  case False
  obtain b w1 where c: "calloc w = (b, w1)" by (cases "calloc w")
  have "rbind (foldM (report_group E i mca) (nodes (groups w1)) (report_start i w w1)) (\<lambda>r.
      if rp_returned r then Inr (rp_world r) else report_finish E i r) = Inr w'"
    using assms False c
    by (simp add: mld2_send_report_def report_start_def Let_def del: rbind_eq_Inr split: bool.splits)
  then obtain r where r: "foldM (report_group E i mca) (nodes (groups w1)) (report_start i w w1) = Inr r"
    and fin: "(if rp_returned r then Inr (rp_world r) else report_finish E i r) = Inr w'"
    by auto
  have "sends w1 (rp_world r)"
    using report_foldM_sends [OF r report_group_sends] by (simp add: report_start_def)
  moreover have "sends (rp_world r) w'" using fin
    by (auto simp: report_finish_def dest!: report_emit_sends split: if_splits option.splits)
  ultimately show ?thesis
    using sends_calloc [OF calloc_same [OF c]] by (blast intro: sends_trans)
qed (use assms in \<open>simp add: mld2_send_report_def\<close>)

lemma mld1_send_report_sends: "mld1_send_report E i mca w = Inr w' \<Longrightarrow> sends w w'"
  by (auto simp: mld1_send_report_def Let_def dest!: sendpacket6_sends(1)
      intro: sends_trans [OF _ count_icmp_sent_sends])

interpretation reports: sender "\<lambda>i. mld_send_report E i mca" for E mca
proof
  fix i w w'
  assume "mld_send_report E i mca w = Inr w'"
  then obtain w1 where w1: "w1 = w \<or> mld1_send_report E i mca w = Inr w1"
    and w': "w' = w1 \<or> mld2_send_report E i (Some mca) w1 = Inr w'"
    by (auto simp: mld_send_report_def Let_def split: if_splits)
  from w1 have "sends w w1" by (auto dest: mld1_send_report_sends)
  moreover from w' have "sends w1 w'" by (auto dest: mld2_send_report_sends)
  ultimately show "sends w w'" by (rule sends_trans)
qed

interpretation queries: sender "\<lambda>i. mld_send_query E i mca" for E mca
  by unfold_locales
    (auto simp: mld_send_query_def Let_def split: if_splits
      dest!: sendpacket6_sends(1) intro: sends_trans [OF _ count_icmp_sent_sends])

lemma mld_send_report_all_sends:
  "mld_send_report_all E interface mca w = Inr w' \<Longrightarrow> sends w w'"
  unfolding mld_send_report_all_def by (rule reports.loop_frame)

end
