(* ===== verification/Report_Content.thy ===== *)
theory Report_Content
  imports Mld2_Report
begin

text \<open>
  What \<open>mld2_send_report\<close> puts on the wire when the listeners want any source and one packet
  is large enough: one packet, with a record for every listening interface of every group.
\<close>

section \<open>Editing a packet in the middle\<close>

lemma wr_mid:
  assumes "length A = a" and "length bs = length old"
  shows "wr (A @ old @ B) a bs = Inr (A @ bs @ B)"
  using assms by (simp add: wr_Inr)

lemma wr16_mid: "length A = a \<Longrightarrow> wr16 (A @ [x, y] @ B) a v = Inr (A @ le16_bytes v @ B)"
  unfolding wr16_def by (rule wr_mid) simp_all

lemma rd16_mid: "length A = a \<Longrightarrow> rd16 (A @ [x, y] @ B) a = Inr (le16 x y)"
  by (simp add: rd16_def rd8_Inr nth_append)

lemma rd16_mid_le16: "length A = a \<Longrightarrow> rd16 (A @ le16_bytes v @ B) a = Inr v"
  using rd16_mid [of A a "le16_bytes v ! 0" "le16_bytes v ! 1" B]
  by (simp add: le16_bytes_def le16_le16_bytes [simplified le16_bytes_def, simplified])

lemma wr16_mid_le16: "length A = a \<Longrightarrow> wr16 (A @ le16_bytes u @ B) a v = Inr (A @ le16_bytes v @ B)"
  unfolding wr16_def by (rule wr_mid) simp_all

section \<open>The records of a report\<close>

definition grec_bytes :: "in6_addr \<Rightarrow> bytes" where
  "grec_bytes mca = [MLD2_MODE_IS_EXCLUDE, 0, 0, 0] @ mca"

definition sub_recs :: "in6_addr \<Rightarrow> subscrnode \<Rightarrow> in6_addr list" where
  "sub_recs mca s = (if sb_mode s = MODE_EXCLUDE then [] else [mca])"

definition gi_recs :: "u64 \<Rightarrow> in6_addr \<Rightarrow> grpintnode \<Rightarrow> in6_addr list" where
  "gi_recs k mca gi = (if gi_ifindex gi = k then []
     else concat (map (sub_recs mca) (nodes (gi_subscriptions gi))))"

definition group_recs :: "u64 \<Rightarrow> in6_addr option \<Rightarrow> groupnode \<Rightarrow> in6_addr list" where
  "group_recs k mca g = (if mca \<noteq> None \<and> mca \<noteq> Some (gr_mca g) then []
     else concat (map (gi_recs k (gr_mca g)) (nodes (gr_interfaces g))))"

definition report_recs :: "u64 \<Rightarrow> in6_addr option \<Rightarrow> groupnode list \<Rightarrow> in6_addr list" where
  "report_recs k mca gs = concat (map (group_recs k mca) gs)"

text \<open>No subscription asks for a particular source.\<close>

definition any_source :: "groupnode list \<Rightarrow> bool" where
  "any_source gs \<longleftrightarrow> (\<forall>g \<in> set gs. addr_wf (gr_mca g) \<and> cl_exact (gr_interfaces g) \<and>
     (\<forall>gi \<in> set (nodes (gr_interfaces g)). \<forall>s \<in> set (nodes (gi_subscriptions gi)).
        sb_mode s = MODE_EXCLUDE \<or> sb_ipv6 s = in6addr_any))"

section \<open>The packet while it is filled\<close>

definition report_head :: "u16 \<Rightarrow> u16 \<Rightarrow> in6_addr \<Rightarrow> bytes" where
  "report_head plen csum ll = ip6_hdr plen IPPROTO_HOPOPTS 1 ll all_routers @ hbh_routeralert @
     [ICMP6_V2_MEMBERSHIP_REPORT, 0] @ le16_bytes csum @ [0, 0]"

definition report_image :: "nat \<Rightarrow> in6_addr \<Rightarrow> in6_addr list \<Rightarrow> bytes" where
  "report_image mtu ll recs = report_head 16 0 ll @ le16_bytes (of_nat (length recs)) @
     concat (map grec_bytes recs) @ replicate (mtu - 56 - 20 * length recs) 0"

definition filled :: "nat \<Rightarrow> in6_addr \<Rightarrow> world \<Rightarrow> in6_addr list \<Rightarrow> report \<Rightarrow> bool" where
  "filled mtu ll w recs r \<longleftrightarrow> rp_world r = w \<and> rp_packet r = report_image mtu ll recs \<and>
     rp_grec r = (if recs = [] then None else Some (36 + 20 * length recs)) \<and>
     rp_src r = None \<and> \<not> rp_returned r"

lemma addr_wf_all_routers [simp]: "addr_wf all_routers"
  by (simp add: all_routers_def addr_wf_def)

lemma length_report_head [simp]: "addr_wf ll \<Longrightarrow> length (report_head p c ll) = 54"
  by (simp add: report_head_def)

lemma length_grec_bytes [simp]: "addr_wf a \<Longrightarrow> length (grec_bytes a) = 20"
  by (simp add: grec_bytes_def)

lemma length_recs [simp]:
  "\<forall>a \<in> set recs. addr_wf a \<Longrightarrow> length (concat (map grec_bytes recs)) = 20 * length recs"
  by (induction recs) simp_all

lemma start_filled:
  assumes "addr_wf (in_linklocal (ints w ! i))"
  shows "filled (unat (in_mtu (ints w ! i))) (in_linklocal (ints w ! i)) w1 [] (report_start i w w1)"
  by (simp add: filled_def report_start_def report_packet_def report_image_def report_head_def layout
      numeral_eq_Suc)

text \<open>The count of sources of the last record is zero in either byte order.\<close>

lemma last_nsrcs:
  assumes "addr_wf ll" and "\<forall>a \<in> set recs. addr_wf a" and "recs \<noteq> []"
  shows "get_nsrcs (report_head p c ll @ le16_bytes n @ concat (map grec_bytes recs) @ Z) (36 + 20 * length recs) = Inr 0"
    and "set_nsrcs (report_head p c ll @ le16_bytes n @ concat (map grec_bytes recs) @ Z) (36 + 20 * length recs) 0
       = Inr (report_head p c ll @ le16_bytes n @ concat (map grec_bytes recs) @ Z)"
proof -
  obtain rs a where recs: "recs = rs @ [a]" using assms(3) by (cases recs rule: rev_cases) auto
  define A where "A = report_head p c ll @ le16_bytes n @ concat (map grec_bytes rs) @ [MLD2_MODE_IS_EXCLUDE, 0]"
  have eq: "report_head p c ll @ le16_bytes n @ concat (map grec_bytes recs) @ Z = A @ [0, 0] @ (a @ Z)"
    by (simp add: recs A_def grec_bytes_def)
  have len: "length A = 36 + 20 * length recs + 2"
    using assms(1,2) by (simp add: A_def recs)
  show "get_nsrcs (report_head p c ll @ le16_bytes n @ concat (map grec_bytes recs) @ Z) (36 + 20 * length recs) = Inr 0"
    unfolding eq get_nsrcs_def rd16_mid [OF len] by (simp add: le16_def)
  show "set_nsrcs (report_head p c ll @ le16_bytes n @ concat (map grec_bytes recs) @ Z) (36 + 20 * length recs) 0
       = Inr (report_head p c ll @ le16_bytes n @ concat (map grec_bytes recs) @ Z)"
    unfolding eq set_nsrcs_def wr16_mid [OF len] by simp
qed

lemma htons_0 [simp]: "htons 0 = 0"
  by (simp add: htons_def)

text \<open>Three writes make a record of zeros.\<close>

lemma write_grec:
  assumes "length A = g" and "addr_wf mca" and "20 \<le> m"
  shows "rbind (wr (A @ replicate m 0) (g + 4) mca) (\<lambda>p4. rbind (set_nsrcs p4 g 0) (\<lambda>p5.
       rbind (set_grec_type p5 g MLD2_MODE_IS_EXCLUDE) f)) = f (A @ grec_bytes mca @ replicate (m - 20) 0)"
proof -
  have z: "replicate m 0 = [0, 0, 0, 0] @ replicate 16 0 @ replicate (m - 20) (0 :: u8)"
  proof -
    have "replicate m 0 = replicate 4 0 @ replicate 16 0 @ replicate (m - 20) (0 :: u8)"
      using assms(3) by (simp add: replicate_add [symmetric])
    moreover have "replicate 4 (0 :: u8) = [0, 0, 0, 0]" by (simp add: numeral_eq_Suc)
    ultimately show ?thesis by simp
  qed
  have "wr (A @ replicate m 0) (g + 4) mca = Inr (A @ [0, 0, 0, 0] @ mca @ replicate (m - 20) 0)"
    unfolding z using wr_mid [of "A @ [0, 0, 0, 0]" "g + 4" mca "replicate 16 0"] assms by simp
  moreover have "set_nsrcs (A @ [0, 0, 0, 0] @ mca @ replicate (m - 20) 0) g 0
      = Inr (A @ [0, 0, 0, 0] @ mca @ replicate (m - 20) 0)"
    using wr16_mid [of "A @ [0, 0]" "g + 2" 0 0 "mca @ replicate (m - 20) 0" 0] assms
    by (simp add: set_nsrcs_def)
  moreover have "set_grec_type (A @ [0, 0, 0, 0] @ mca @ replicate (m - 20) 0) g MLD2_MODE_IS_EXCLUDE
      = Inr (A @ grec_bytes mca @ replicate (m - 20) 0)"
    using wr_mid [of A g "[MLD2_MODE_IS_EXCLUDE]" "[0]"] assms
    by (simp add: set_grec_type_def grec_bytes_def)
  ultimately show ?thesis by simp
qed

section \<open>One subscription\<close>

lemma filled_no_flush:
  assumes "filled mtu ll w recs r" and "addr_wf ll" and "\<forall>a \<in> set recs. addr_wf a"
    and "unat (in_mtu (ints w ! i)) = mtu" and "116 \<le> mtu" and "56 + 20 * length recs \<le> mtu"
    and "mtu \<le> 65535"
  shows "report_flush E i in6addr_any r = Inr r"
proof (cases "recs = []")
  case True
  have "\<not> in_mtu (ints w ! i) < 116"
    using assms(4,5) by (simp add: word_less_nat_alt)
  with True assms show ?thesis
    by (simp add: report_flush_def filled_def IN6_IS_ADDR_UNSPECIFIED_def layout)
next
  case False
  let ?len = "of_nat (56 + 20 * length recs) - 40 :: u32"
  have g: "get_nsrcs (rp_packet r) (36 + 20 * length recs) = Inr 0"
    using last_nsrcs(1) [OF assms(2,3) False] assms(1) by (simp add: filled_def report_image_def)
  have len: "grec_length (rp_packet r) (36 + 20 * length recs) = Inr ?len"
    by (simp add: grec_length_def g src_offset_def sizes del: of_nat_add)
  have "?len = of_nat (16 + 20 * length recs)" by simp
  then have "unat ?len = 16 + 20 * length recs"
    using assms(6,7) by (simp add: unsigned_of_nat take_bit_nat_eq_self del: of_nat_add)
  then have "unat (ucast ?len + 40 :: u64) = 56 + 20 * length recs"
    using assms(6,7) by (simp add: unat_word_ariths ucast_u32_le)
  then have "\<not> in_mtu (ints w ! i) < ucast ?len + 40"
    using assms(4,6) by (simp add: word_less_nat_alt del: of_nat_add)
  with False assms(1) len show ?thesis
    by (simp add: report_flush_def filled_def IN6_IS_ADDR_UNSPECIFIED_def sizes)
qed

lemma filled_new_grec:
  assumes "filled mtu ll w recs r" and "addr_wf ll" and "\<forall>a \<in> set recs. addr_wf a" and "addr_wf mca"
    and "56 + 20 * Suc (length recs) \<le> mtu"
  shows "\<exists>r'. report_new_grec mca r = Inr r' \<and> filled mtu ll w (recs @ [mca]) r'"
proof -
  let ?C = "concat (map grec_bytes recs)" and ?m = "mtu - 56 - 20 * length recs"
  let ?h = "report_head 16 0 ll" and ?k = "of_nat (length recs) :: u16"
  let ?p1 = "?h @ le16_bytes (?k + 1) @ ?C @ replicate ?m 0"
  have pkt: "rp_packet r = ?h @ le16_bytes ?k @ ?C @ replicate ?m 0"
    using assms(1) by (simp add: filled_def report_image_def)
  have n: "rd16 (rp_packet r) off_ngrec = Inr ?k" "wr16 (rp_packet r) off_ngrec (?k + 1) = Inr ?p1"
    unfolding pkt using assms(2) by (simp_all add: rd16_mid_le16 wr16_mid_le16 off_ngrec_def)
  have next_grec: "(case rp_grec r of
         Some g \<Rightarrow> rbind (get_nsrcs ?p1 g) (\<lambda>n. rbind (set_nsrcs ?p1 g (htons n)) (\<lambda>p2.
           rbind (get_nsrcs p2 g) (\<lambda>n'. Inr (p2, src_offset g n'))))
       | None \<Rightarrow> Inr (?p1, sizeof_report_packet)) = Inr (?p1, 56 + 20 * length recs)"
    using assms(1) last_nsrcs [OF assms(2,3)]
    by (cases "recs = []") (simp_all add: filled_def src_offset_def layout)
  have len: "length (?h @ le16_bytes (?k + 1) @ ?C) = 56 + 20 * length recs"
    using assms(2,3) by simp
  have m: "20 \<le> ?m" using assms(5) by simp
  have "report_new_grec mca r = Inr (r\<lparr>rp_packet := ?h @ le16_bytes (?k + 1) @ ?C @ grec_bytes mca @
      replicate (?m - 20) 0, rp_grec := Some (56 + 20 * length recs), rp_any := False\<rparr>)"
    unfolding report_new_grec_def n rbind_simps next_grec prod.case
    by (rule write_grec [OF len assms(4) m, unfolded append_assoc])
  moreover have "?m - 20 = mtu - 56 - 20 * length (recs @ [mca])" by simp
  moreover have "?k + 1 = of_nat (length (recs @ [mca]))" by simp
  ultimately show ?thesis using assms(1)
    by (auto simp: filled_def report_image_def)
qed

lemma filled_subscr:
  assumes "filled mtu ll w recs r" and "addr_wf ll" and "\<forall>a \<in> set recs. addr_wf a" and "addr_wf mca"
    and "sb_mode s = MODE_EXCLUDE \<or> sb_ipv6 s = in6addr_any"
    and "unat (in_mtu (ints w ! i)) = mtu" and "116 \<le> mtu" and "mtu \<le> 65535"
    and "56 + 20 * length (recs @ sub_recs mca s) \<le> mtu"
  shows "\<exists>r'. report_subscr E i mca s r = Inr r' \<and> filled mtu ll w (recs @ sub_recs mca s) r'"
proof (cases "sb_mode s = MODE_EXCLUDE")
  case True
  with assms(1) show ?thesis by (simp add: report_subscr_def sub_recs_def filled_def)
next
  case False
  with assms have any: "sb_ipv6 s = in6addr_any" "sub_recs mca s = [mca]" by (simp_all add: sub_recs_def)
  obtain r' where r': "report_new_grec mca r = Inr r'" "filled mtu ll w (recs @ [mca]) r'"
    using filled_new_grec [OF assms(1-4)] assms(9) any(2) by auto
  have "report_flush E i in6addr_any r = Inr r"
    using assms any(2) by (intro filled_no_flush) auto
  moreover have "report_dup in6addr_any r = Inr (False, r)" "\<not> rp_returned r" "rp_src r = None"
    using assms(1) by (simp_all add: report_dup_def filled_def)
  moreover have "report_add in6addr_any r' = Inr (r'\<lparr>rp_any := True\<rparr>)"
    by (simp add: report_add_def IN6_IS_ADDR_UNSPECIFIED_def)
  ultimately have "report_subscr E i mca s r = Inr (r'\<lparr>rp_any := True\<rparr>)"
    using False any r'(1) by (simp add: report_subscr_def)
  with r'(2) any(2) show ?thesis by (auto simp: filled_def)
qed

section \<open>The loops\<close>

definition fits :: "nat \<Rightarrow> in6_addr list \<Rightarrow> bool" where
  "fits mtu recs \<longleftrightarrow> (\<forall>a \<in> set recs. addr_wf a) \<and> 56 + 20 * length recs \<le> mtu"

text \<open>A statement of the code appends the records \<open>R\<close> as long as they fit.\<close>

definition appends :: "nat \<Rightarrow> in6_addr \<Rightarrow> world \<Rightarrow> (report \<Rightarrow> report result) \<Rightarrow> in6_addr list \<Rightarrow> bool" where
  "appends mtu ll w f R \<longleftrightarrow> (\<forall>recs r. filled mtu ll w recs r \<longrightarrow> fits mtu (recs @ R) \<longrightarrow>
     (\<exists>r'. f r = Inr r' \<and> filled mtu ll w (recs @ R) r'))"

lemma fits_prefix: "fits mtu (xs @ ys) \<Longrightarrow> fits mtu xs"
  by (auto simp: fits_def)

lemma appends_foldM:
  assumes "\<And>x. x \<in> set xs \<Longrightarrow> appends mtu ll w (f x) (R x)"
  shows "appends mtu ll w (foldM f xs) (concat (map R xs))"
  using assms
proof (induction xs)
  case Nil
  then show ?case by (simp add: appends_def)
next
  case (Cons x xs)
  show ?case unfolding appends_def
  proof (intro allI impI)
    fix recs r
    assume fl: "filled mtu ll w recs r" and ft: "fits mtu (recs @ concat (map R (x # xs)))"
    then have "fits mtu (recs @ R x)"
      using fits_prefix [of mtu "recs @ R x" "concat (map R xs)"] by simp
    then obtain r1 where r1: "f x r = Inr r1" "filled mtu ll w (recs @ R x) r1"
      using Cons.prems [of x] fl by (auto simp: appends_def)
    have "appends mtu ll w (foldM f xs) (concat (map R xs))"
      using Cons.IH Cons.prems by simp
    moreover have "fits mtu ((recs @ R x) @ concat (map R xs))" using ft by simp
    ultimately obtain r2 where "foldM f xs r1 = Inr r2" "filled mtu ll w ((recs @ R x) @ concat (map R xs)) r2"
      using r1(2) unfolding appends_def by blast
    with r1 show "\<exists>r'. foldM f (x # xs) r = Inr r' \<and> filled mtu ll w (recs @ concat (map R (x # xs))) r'"
      by simp
  qed
qed

lemma appends_subscr:
  assumes "addr_wf ll" and "addr_wf mca" and "sb_mode s = MODE_EXCLUDE \<or> sb_ipv6 s = in6addr_any"
    and "unat (in_mtu (ints w ! i)) = mtu" and "116 \<le> mtu" and "mtu \<le> 65535"
  shows "appends mtu ll w (report_subscr E i mca s) (sub_recs mca s)"
  unfolding appends_def
proof (intro allI impI)
  fix recs r
  assume "filled mtu ll w recs r" and "fits mtu (recs @ sub_recs mca s)"
  with assms show "\<exists>r'. report_subscr E i mca s r = Inr r' \<and> filled mtu ll w (recs @ sub_recs mca s) r'"
    by (intro filled_subscr) (auto simp: fits_def)
qed

lemma appends_grpint:
  assumes "addr_wf ll" and "addr_wf mca"
    and "\<forall>s \<in> set (nodes (gi_subscriptions gi)). sb_mode s = MODE_EXCLUDE \<or> sb_ipv6 s = in6addr_any"
    and "unat (in_mtu (ints w ! i)) = mtu" and "116 \<le> mtu" and "mtu \<le> 65535"
  shows "appends mtu ll w (report_grpint E i mca gi) (gi_recs (in_ifindex (ints w ! i)) mca gi)"
proof (cases "gi_ifindex gi = in_ifindex (ints w ! i)")
  case True
  then have "filled mtu ll w recs r \<Longrightarrow> report_grpint E i mca gi r = Inr r" for recs r
    by (simp add: report_grpint_def filled_def)
  with True show ?thesis by (simp add: appends_def gi_recs_def)
next
  case False
  have "appends mtu ll w (foldM (report_subscr E i mca) (nodes (gi_subscriptions gi)))
      (concat (map (sub_recs mca) (nodes (gi_subscriptions gi))))"
    using assms by (intro appends_foldM appends_subscr) auto
  moreover have "filled mtu ll w recs r \<Longrightarrow> report_grpint E i mca gi r =
      foldM (report_subscr E i mca) (nodes (gi_subscriptions gi)) r" for recs r
    using False by (simp add: report_grpint_def filled_def)
  ultimately show ?thesis using False by (simp add: appends_def gi_recs_def)
qed

lemma appends_group:
  assumes "addr_wf ll" and "any_source [g]"
    and "unat (in_mtu (ints w ! i)) = mtu" and "116 \<le> mtu" and "mtu \<le> 65535"
  shows "appends mtu ll w (report_group E i mca g) (group_recs (in_ifindex (ints w ! i)) mca g)"
proof -
  let ?loop = "foldM (report_grpint E i (gr_mca g)) (nodes (gr_interfaces g))"
  let ?R = "concat (map (gi_recs (in_ifindex (ints w ! i)) (gr_mca g)) (nodes (gr_interfaces g)))"
  have loop: "appends mtu ll w ?loop ?R"
    using assms by (intro appends_foldM appends_grpint) (auto simp: any_source_def)
  have src: "filled mtu ll w recs r \<Longrightarrow> filled mtu ll w recs (r\<lparr>rp_src := None\<rparr>)" for recs r
    by (simp add: filled_def)
  have empty: "count (gr_interfaces g) = 0 \<Longrightarrow> ?R = []"
    using assms(2) by (simp add: any_source_def cl_exact_def)
  show ?thesis
  proof (cases "mca \<noteq> None \<and> mca \<noteq> Some (gr_mca g)")
    case True
    then show ?thesis
      by (auto simp: appends_def report_group_def group_recs_def IN6_ARE_ADDR_EQUAL_def)
  next
    case False
    then have "report_group E i mca g r = (if count (gr_interfaces g) = 0 then Inr r else ?loop (r\<lparr>rp_src := None\<rparr>))" for r
      by (auto simp: report_group_def IN6_ARE_ADDR_EQUAL_def)
    moreover have "group_recs (in_ifindex (ints w ! i)) mca g = ?R"
      using False by (auto simp: group_recs_def)
    ultimately show ?thesis
      using loop src empty unfolding appends_def by (cases "count (gr_interfaces g) = 0") auto
  qed
qed

text \<open>All loops together.\<close>

lemma appends_all:
  assumes "addr_wf ll" and "any_source gs"
    and "unat (in_mtu (ints w ! i)) = mtu" and "116 \<le> mtu" and "mtu \<le> 65535"
  shows "appends mtu ll w (foldM (report_group E i mca) gs) (report_recs (in_ifindex (ints w ! i)) mca gs)"
  unfolding report_recs_def using assms
  by (intro appends_foldM appends_group) (auto simp: any_source_def)

section \<open>The finished packet\<close>

definition report_msg :: "in6_addr list \<Rightarrow> bytes" where
  "report_msg recs = [0, 0] @ le16_bytes (htons (of_nat (length recs))) @ concat (map grec_bytes recs)"

lemma head_plen: "wr16 (report_head p c ll @ Y) 4 (htons v) = Inr (report_head v c ll @ Y)"
  using wr16_mid_le16 [of "[0x60, 0, 0, 0]" 4 "htons p" _ "htons v"]
  by (simp add: report_head_def ip6_hdr_def)

lemma head_csum:
  assumes "addr_wf ll"
  shows "wr16 (report_head p c ll @ Y) 50 v = Inr (report_head p v ll @ Y)"
  using wr16_mid_le16 [of "ip6_hdr p IPPROTO_HOPOPTS 1 ll all_routers @ hbh_routeralert @
      [ICMP6_V2_MEMBERSHIP_REPORT, 0]" 50 c "[0, 0] @ Y" v] assms
  by (simp add: report_head_def)

lemma checksum_prefix:
  assumes "addr_wf src" and "addr_wf dst" and "length x = 8" and "unat len = length msg"
  shows "ipv6_checksum_at (ip6_hdr plen nxt hlim src dst @ x @ msg @ Z) 0 proto 48 len
    = Inr (ipv6_checksum src dst proto msg)"
  using assms by (simp add: ipv6_checksum_at_def rd_Inr ip6_hdr_alone)

lemma emit_filled:
  assumes "addr_wf ll" and "recs \<noteq> []" and "fits mtu recs" and "mtu \<le> 65535"
  shows "report_emit E i (36 + 20 * length recs) (of_nat (16 + 20 * length recs)) (report_image mtu ll recs) w =
    rbind (sendpacket6 E i (mld_packet ll all_routers ICMP6_V2_MEMBERSHIP_REPORT (report_msg recs) @
        replicate (mtu - 56 - 20 * length recs) 0) 0 (of_nat (56 + 20 * length recs)) w)
      (\<lambda>w1. Inr (mld_packet ll all_routers ICMP6_V2_MEMBERSHIP_REPORT (report_msg recs) @
        replicate (mtu - 56 - 20 * length recs) 0, count_icmp_sent i w1))"
proof -
  define k where "k = length recs"
  define C where "C = concat (map grec_bytes recs)"
  define Z where "Z = replicate (mtu - 56 - 20 * k) (0 :: u8)"
  define n where "n = htons (of_nat k)"
  define Y where "Y = le16_bytes n @ C @ Z"
  define len where "len = (of_nat (16 + 20 * k) :: u32)"
  have wf: "\<forall>a \<in> set recs. addr_wf a" and k: "56 + 20 * k \<le> 65535"
    using assms(3,4) by (auto simp: fits_def k_def)
  have C: "length C = 20 * k" using wf by (simp add: C_def k_def)
  have "unat len = 16 + 20 * k"
    using k by (simp add: len_def unsigned_of_nat take_bit_nat_eq_self del: of_nat_add)
  then have plen: "unat (ucast len :: u16) = 16 + 20 * k"
    using k by (simp add: unat_ucast_u16)
  have lenm: "len - of_nat sizeof_hbh_ra = of_nat (8 + 20 * k)" "len + of_nat sizeof_ip6_hdr = of_nat (56 + 20 * k)"
    by (simp_all add: len_def sizes)
  have u: "(ucast (of_nat m :: u32) :: u16) = of_nat m" for m
    by (simp add: unsigned_of_nat take_bit_of_nat [symmetric] of_nat_take_bit take_bit_word_eq_self)
  have ng: "rd16 (report_image mtu ll recs) off_ngrec = Inr (of_nat k)"
    "wr16 (report_image mtu ll recs) off_ngrec n = Inr (report_head 16 0 ll @ Y)"
    using assms(1)
    by (simp_all add: report_image_def off_ngrec_def rd16_mid_le16 wr16_mid_le16 k_def Y_def C_def Z_def)
  note ns = last_nsrcs [OF assms(1) wf assms(2), of 16 0 n Z, folded C_def k_def, folded Y_def]
  have hl: "htons 0 = 0" by simp
  define msg where "msg = [ICMP6_V2_MEMBERSHIP_REPORT, 0] @ [0, 0] @ report_msg recs"
  define cs where "cs = ipv6_checksum ll all_routers IPPROTO_ICMPV6 msg"
  have split_pkt: "report_head (ucast len) 0 ll @ Y =
      ip6_hdr (ucast len) IPPROTO_HOPOPTS 1 ll all_routers @ hbh_routeralert @ msg @ Z"
    by (simp add: report_head_def msg_def report_msg_def Y_def n_def k_def C_def)
  have "unat (of_nat (8 + 20 * k) :: u16) = length msg"
    using k C by (simp add: msg_def report_msg_def C_def [symmetric] unsigned_of_nat take_bit_nat_eq_self del: of_nat_add)
  then have csum: "ipv6_checksum_at (report_head (ucast len) 0 ll @ Y) 0 IPPROTO_ICMPV6 48 (of_nat (8 + 20 * k)) = Inr cs"
    unfolding split_pkt cs_def using assms(1) by (intro checksum_prefix) simp_all
  have "(ucast len :: u16) = of_nat (length (report_msg recs) + 12)"
    using C by (simp only: len_def u) (simp add: report_msg_def C_def [symmetric])
  then have final: "report_head (ucast len) cs ll @ Y = mld_packet ll all_routers ICMP6_V2_MEMBERSHIP_REPORT (report_msg recs) @ Z"
    by (simp add: report_head_def mld_packet_def cs_def msg_def report_msg_def Y_def n_def k_def C_def)
  show ?thesis
    unfolding report_emit_def k_def [symmetric] len_def [symmetric] Z_def [symmetric]
    by (simp only: ng n_def [symmetric] rbind_simps ns k_def [symmetric] hl head_plen
        head_csum [OF assms(1)] off_plen_def off_csum_def off_mld2r_def lenm u csum final)
qed

text \<open>
  The whole function: nothing is sent when there is nothing to report, and otherwise exactly one
  packet that a listener accepts.
\<close>

lemma mld2_send_report_content:
  assumes ll: "addr_wf (in_linklocal (ints w ! i))" and gs: "any_source (nodes (groups w))"
    and mtu: "1280 \<le> unat (in_mtu (ints w ! i))" "unat (in_mtu (ints w ! i)) \<le> 65535"
    and recs: "recs = report_recs (in_ifindex (ints w ! i)) mca (nodes (groups w))"
    and fit: "fits (unat (in_mtu (ints w ! i))) recs" and mem: "calloc w = (True, w1)"
  shows "if recs = [] then mld2_send_report E i mca w = Inr w1
    else \<exists>w'. mld2_send_report E i mca w = Inr w' \<and>
      sent_one w1 i all_routers
        (mld_packet (in_linklocal (ints w ! i)) all_routers ICMP6_V2_MEMBERSHIP_REPORT (report_msg recs)) w'"
proof -
  define ll mtu where "ll = in_linklocal (ints w ! i)" and "mtu = unat (in_mtu (ints w ! i))"
  have same: "ints w1 = ints w" "groups w1 = groups w" using mem by (simp_all add: calloc_fields)
  have "appends mtu ll w1 (foldM (report_group E i mca) (nodes (groups w1))) recs"
    unfolding recs same(1) [symmetric] same(2) [symmetric]
    using ll gs mtu by (intro appends_all) (simp_all add: ll_def mtu_def same)
  moreover have "filled mtu ll w1 [] (report_start i w w1)"
    unfolding ll_def mtu_def using ll by (rule start_filled)
  ultimately obtain r where r: "foldM (report_group E i mca) (nodes (groups w1)) (report_start i w w1) = Inr r"
    "filled mtu ll w1 recs r"
    using fit unfolding appends_def mtu_def by (metis append_Nil)
  have "\<not> in_mtu (ints w ! i) < 56" using mtu(1) by (simp add: word_less_nat_alt)
  then have run: "mld2_send_report E i mca w = report_finish E i r"
    using r mem by (simp add: mld2_send_report_def report_start_def [symmetric] sizeof_report_packet_def filled_def)
  have wf: "addr_wf ll" using ll by (simp add: ll_def)
  have k: "56 + 20 * length recs \<le> 65535" using fit mtu(2) by (simp add: fits_def)
  have ng: "rd16 (rp_packet r) off_ngrec = Inr (of_nat (length recs))"
    using r(2) wf by (simp add: filled_def report_image_def off_ngrec_def rd16_mid_le16)
  have "unat (of_nat (length recs) :: u16) = length recs"
    using k by (simp add: unsigned_of_nat take_bit_nat_eq_self)
  then have nz: "recs \<noteq> [] \<Longrightarrow> (of_nat (length recs) :: u16) \<noteq> 0"
    by (metis length_0_conv unsigned_0)
  show ?thesis
  proof (cases "recs = []")
    case True
    with run ng r(2) show ?thesis by (simp add: report_finish_def filled_def)
  next
    case False
    let ?pkt = "mld_packet ll all_routers ICMP6_V2_MEMBERSHIP_REPORT (report_msg recs)"
    let ?Z = "replicate (mtu - 56 - 20 * length recs) 0"
    have C: "length (concat (map grec_bytes recs)) = 20 * length recs" using fit by (simp add: fits_def)
    then have msg: "length (report_msg recs) = 4 + 20 * length recs" by (simp add: report_msg_def)
    have ok: "length ?pkt = 56 + 20 * length recs" "take 4 (drop 36 ?pkt) = drop 12 all_routers"
      using mld_packet_ok(2,5) [OF wf addr_wf_all_routers, of "report_msg recs"] msg k by simp_all
    have gl: "grec_length (rp_packet r) (36 + 20 * length recs) = Inr (of_nat (16 + 20 * length recs))"
      using last_nsrcs(1) [OF wf _ False] r(2) fit
      by (simp add: grec_length_def filled_def report_image_def fits_def src_offset_def sizes)
    have u: "unat (of_nat (56 + 20 * length recs) :: u16) = length ?pkt"
      using k by (simp add: ok(1) unsigned_of_nat take_bit_nat_eq_self del: of_nat_add)
    obtain w2 where w2: "sendpacket6 E i (?pkt @ ?Z) 0 (of_nat (56 + 20 * length recs)) w1 = Inr w2" "sends w1 w2"
      "w_sent w2 = w_sent w1 @ [(link_addr (ints w1 ! i) (drop 12 all_routers), ?pkt)]"
      using sendpacket6_Inr [of 0 "?pkt @ ?Z" "of_nat (56 + 20 * length recs)" E i w1] ok u by auto
    have fit': "fits mtu recs" "mtu \<le> 65535" using fit mtu(2) by (simp_all add: mtu_def)
    have "report_finish E i r = Inr (count_icmp_sent i w2)"
      using ng nz [OF False] r(2) False gl emit_filled [OF wf False fit', of E i w1] w2(1)
      by (simp add: report_finish_def filled_def del: of_nat_add)
    moreover have "sent_one w1 i all_routers ?pkt (count_icmp_sent i w2)"
      using w2(3) sends_trans [OF w2(2) count_icmp_sent_sends]
      by (simp add: sent_one_def) (simp add: count_icmp_sent_def)
    ultimately show ?thesis using False run by (simp add: ll_def)
  qed
qed

end
