(* ===== verification/Mld_Recv.thy ===== *)
theory Mld_Recv
  imports Report_Content
begin

text \<open>
  The MLD messages that the daemon receives: \<open>l4_ipv6_icmpv6_mld1_report\<close>,
  \<open>l4_ipv6_icmpv6_mld1_reduction\<close>, \<open>l4_ipv6_icmpv6_mld2_report\<close> and
  \<open>l4_ipv6_icmpv6_mld_query\<close>. The messages lie in the receive buffer \<open>g_conf->buffer\<close>; a
  pointer to one is an offset. The checks that depend on \<open>ECMH_SUPPORT_MLDV2\<close>, a name that no
  build file defines, are not compiled.
\<close>

section \<open>MLDv1\<close>

text \<open>Which groups are not accepted.\<close>

definition mld1_ignored :: "in6_addr \<Rightarrow> bool" where
  "mld1_ignored mca \<longleftrightarrow> \<not> IN6_IS_ADDR_MULTICAST mca \<or> IN6_IS_ADDR_MC_NODELOCAL mca \<or>
     IN6_IS_ADDR_MC_LINKLOCAL mca"

definition l4_ipv6_icmpv6_mld1_report :: "env \<Rightarrow> nat \<Rightarrow> nat \<Rightarrow> world \<Rightarrow> world result" where
  "l4_ipv6_icmpv6_mld1_report E i mld1 w =
     (let w1 = int_set_mld_version i 1 w in
      rbind (rd (buffer w1) (mld1 + 8) 16) (\<lambda>mca.
        if mld1_ignored mca then Inr w1
        else rbind (groupint_get mca (ints w1 ! i) w1) (\<lambda>(grpintn, isnew, w2).
          case grpintn of
            None \<Rightarrow> Inr w2
          | Some p \<Rightarrow> rbind (grpint_refresh_at p in6addr_any MODE_INCLUDE w2) (\<lambda>(ok, _, w3).
              if \<not> ok then Inr w3
              else if isnew then mld_send_report_all E i mca w3
              else Inr w3))))"

definition l4_ipv6_icmpv6_mld1_reduction :: "env \<Rightarrow> nat \<Rightarrow> nat \<Rightarrow> world \<Rightarrow> world result" where
  "l4_ipv6_icmpv6_mld1_reduction E i mld1 w =
     (let w1 = int_set_mld_version i 1 w in
      rbind (rd (buffer w1) (mld1 + 8) 16) (\<lambda>mca.
        if mld1_ignored mca then Inr w1
        else case group_find (groups w1) mca of
          None \<Rightarrow> Inr w1
        | Some groupn \<Rightarrow>
           (let ifindex = in_ifindex (ints w1 ! i) in
            case grpint_find (gr_interfaces groupn) ifindex of
              None \<Rightarrow> Inr w1
            | Some grpintn \<Rightarrow>
               (let (found, subs) = subscr_unsub (gi_subscriptions grpintn) in6addr_any in
                if \<not> found then Inr w1
                else
                  (let w2 = upd_grpint mca ifindex (\<lambda>g. g\<lparr>gi_subscriptions := subs\<rparr>) w1 in
                   if count subs \<le> 0 then
                     rbind (mld_send_query E i mca w2) (\<lambda>w3.
                       Inr (upd_grpint mca ifindex (\<lambda>g. g\<lparr>gi_subscriptions :=
                         (gi_subscriptions g)\<lparr>count := - ECMH_ROBUSTNESS_FACTOR\<rparr>\<rparr>) w3))
                   else Inr w2)))))"

section \<open>MLDv2 reports\<close>

definition grec_type_known :: "u8 \<Rightarrow> bool" where
  "grec_type_known t \<longleftrightarrow> t = MLD2_MODE_IS_INCLUDE \<or> t = MLD2_MODE_IS_EXCLUDE \<or>
     t = MLD2_CHANGE_TO_INCLUDE \<or> t = MLD2_CHANGE_TO_EXCLUDE \<or>
     t = MLD2_ALLOW_NEW_SOURCES \<or> t = MLD2_BLOCK_OLD_SOURCES"

definition grec_excludes :: "u8 \<Rightarrow> bool" where
  "grec_excludes t \<longleftrightarrow> t = MLD2_MODE_IS_EXCLUDE \<or> t = MLD2_CHANGE_TO_EXCLUDE \<or> t = MLD2_BLOCK_OLD_SOURCES"

text \<open>The loop over the sources; the result of \<open>grpint_refresh\<close> is only logged.\<close>

fun mld2_sources :: "nat \<Rightarrow> nat \<Rightarrow> u64 \<Rightarrow> grpint_ptr option \<Rightarrow> world \<Rightarrow> world result" where
  "mld2_sources 0 src mode p w = Inr w"
| "mld2_sources (Suc nsrcs) src mode None w = mld2_sources nsrcs (src + 16) mode None w"
| "mld2_sources (Suc nsrcs) src mode (Some p) w =
     rbind (rd (buffer w) src 16) (\<lambda>a.
     rbind (grpint_refresh_at p a mode w) (\<lambda>(ok, p', w1).
       mld2_sources nsrcs (src + 16) mode (Some p') w1))"

text \<open>
  One record: the group is looked up unless its scope is node or link, and the subscriptions are
  refreshed. The first result tells that the function returned.
\<close>

definition mld2_grec_group ::
    "nat \<Rightarrow> in6_addr \<Rightarrow> bool \<Rightarrow> world \<Rightarrow> (grpint_ptr option \<times> bool \<times> world) result" where
  "mld2_grec_group i mca isnew w =
     (if \<not> IN6_IS_ADDR_MC_NODELOCAL mca \<and> \<not> IN6_IS_ADDR_MC_LINKLOCAL mca
      then groupint_get mca (ints w ! i) w else Inr (None, isnew, w))"

definition mld2_grec_subscribe ::
    "nat \<Rightarrow> nat \<Rightarrow> nat \<Rightarrow> u8 \<Rightarrow> nat \<Rightarrow> grpint_ptr option \<Rightarrow> world \<Rightarrow> (bool \<times> world) result" where
  "mld2_grec_subscribe mld2r plen grec t nsrcs grpintn w =
     (if nsrcs = 0 then
        (case grpintn of
           None \<Rightarrow> Inr (False, w)
         | Some p \<Rightarrow>
            rbind (grpint_refresh_at p in6addr_any (if grec_excludes t then MODE_INCLUDE else MODE_EXCLUDE) w)
              (\<lambda>(ok, _, w1). Inr (\<not> ok, w1)))
      else if grec + sizeof_mld2_grec - mld2r + nsrcs * sizeof_in6_addr > plen then Inr (True, w)
      else rbind (mld2_sources nsrcs (grec + sizeof_mld2_grec)
             (if grec_excludes t then MODE_EXCLUDE else MODE_INCLUDE) grpintn w) (\<lambda>w1.
           Inr (False, w1)))"

text \<open>
  The loop over the records. The next record is looked for behind the sources and \<open>auxwords\<close>
  bytes.
\<close>

fun mld2_grecs :: "env \<Rightarrow> nat \<Rightarrow> nat \<Rightarrow> nat \<Rightarrow> nat \<Rightarrow> nat \<Rightarrow> bool \<Rightarrow> world \<Rightarrow> world result" where
  "mld2_grecs E i mld2r plen 0 grec isnew w = Inr w"
| "mld2_grecs E i mld2r plen (Suc ngrec) grec isnew w =
     (if grec > mld2r + plen then Inr w
      else rbind (rd16 (buffer w) (grec + 2)) (\<lambda>n.
           rbind (rd8 (buffer w) grec) (\<lambda>t.
             if \<not> grec_type_known t then Inr w
             else
               rbind (rd (buffer w) (grec + 4) 16) (\<lambda>mca.
               rbind (mld2_grec_group i mca isnew w) (\<lambda>(grpintn, isnew', w1).
               rbind (mld2_grec_subscribe mld2r plen grec t (unat (ntohs n)) grpintn w1) (\<lambda>(ret, w2).
                 if ret then Inr w2
                 else
                   rbind (if isnew' then mld_send_report_all E i mca w2 else Inr w2) (\<lambda>w3.
                   rbind (rd8 (buffer w3) (grec + 1)) (\<lambda>aux.
                     mld2_grecs E i mld2r plen ngrec
                       (grec + sizeof_mld2_grec + sizeof_in6_addr * unat (ntohs n) + unat aux)
                       isnew' w3))))))))"

definition l4_ipv6_icmpv6_mld2_report :: "env \<Rightarrow> nat \<Rightarrow> nat \<Rightarrow> u16 \<Rightarrow> world \<Rightarrow> world result" where
  "l4_ipv6_icmpv6_mld2_report E i mld2r plen w =
     rbind (rd16 (buffer w) (mld2r + 6)) (\<lambda>n.
       let ngrec = unat (ntohs n); w1 = int_set_mld_version i 2 w in
       if sizeof_mld2_report + ngrec * sizeof_mld2_grec > unat plen then Inr w1
       else mld2_grecs E i mld2r (unat plen) ngrec (mld2r + sizeof_mld2_report) False w1)"

section \<open>Queries\<close>

definition query_group :: "env \<Rightarrow> nat \<Rightarrow> groupnode \<Rightarrow> world \<Rightarrow> world result" where
  "query_group E i groupn w =
     foldM (\<lambda>grpintn u. if gi_ifindex grpintn \<noteq> in_ifindex (ints u ! i) then Inr u
                        else mld_send_report E i (gr_mca groupn) u) (nodes (gr_interfaces groupn)) w"

definition l4_ipv6_icmpv6_mld_query :: "env \<Rightarrow> nat \<Rightarrow> u16 \<Rightarrow> world \<Rightarrow> world result" where
  "l4_ipv6_icmpv6_mld_query E i plen w =
     (let w1 = (if unat plen = sizeof_mld1 then int_set_mld_version i 1 w else int_set_mld_version i 2 w);
          intn = ints w1 ! i
      in if \<not> mld2only w1 \<and> (mld1only w1 \<or> in_mld_version intn = 0 \<or> in_mld_version intn = 1)
         then foldM (query_group E i) (nodes (groups w1)) w1
         else if \<not> mld1only w1 \<and> (mld2only w1 \<or> in_mld_version intn = 2)
         then mld2_send_report E i None w1
         else Inr w1)"

section \<open>The invariant of the tables\<close>

definition tables_ok :: "world \<Rightarrow> bool" where
  "tables_ok w \<longleftrightarrow> ints_ok w \<and> groups_ok (groups w)"

lemma inv_sends: "sends w w' \<Longrightarrow> tables_ok w \<Longrightarrow> tables_ok w'"
  by (simp add: tables_ok_def sends_ints_ok sends_fields)

lemma inv_groups: "same_but_groups w w' \<Longrightarrow> ints_ok w \<Longrightarrow> groups_ok (groups w') \<Longrightarrow> tables_ok w'"
  unfolding tables_ok_def by (auto intro: ints_ok_frame simp: same_but_groups_fields)

lemma inv_set_version:
  "tables_ok w \<Longrightarrow> i < length (ints w) \<Longrightarrow> v \<in> {1, 2} \<Longrightarrow> tables_ok (int_set_mld_version i v w)"
  using int_set_mld_version_ok [of w i v] int_set_mld_version_same [where w = w and i = i and new = v]
  by (simp add: tables_ok_def same_but_ints_def)

lemma membership_ints: "same_but_ints w w' \<Longrightarrow> membership w' = membership w"
  by (simp add: membership_def grpint_of_def fun_eq_iff same_but_ints_def)

lemma set_version_fields [simp]:
  "buffer (int_set_mld_version i v w) = buffer w" "groups (int_set_mld_version i v w) = groups w"
  "w_now (int_set_mld_version i v w) = w_now w" "w_sent (int_set_mld_version i v w) = w_sent w"
  "membership (int_set_mld_version i v w) = membership w"
  "length (ints (int_set_mld_version i v w)) = length (ints w)"
  "mld1only (int_set_mld_version i v w) = mld1only w" "mld2only (int_set_mld_version i v w) = mld2only w"
  "w_calloc (int_set_mld_version i v w) = w_calloc w"
  using int_set_mld_version_same [where w = w and i = i and new = v] membership_ints [of w "int_set_mld_version i v w"]
  by (simp_all add: same_but_ints_def) (simp add: int_set_mld_version_def Let_def)

lemma rd_addr: "rd buf a 16 = Inr bs \<Longrightarrow> addr_wf bs"
  by (auto simp: addr_wf_def dest!: rd_InrD)

lemma group_addr_mld1: "addr_wf mca \<Longrightarrow> \<not> mld1_ignored mca \<Longrightarrow> group_addr mca"
  by (simp add: group_addr_def mld1_ignored_def)

lemma groupint_get_inv:
  assumes "tables_ok w" and "group_addr mca" and "groupint_get mca interface w = Inr (p, isnew, w1)"
  shows "tables_ok w1" and "same_but_groups w w1"
proof -
  show s: "same_but_groups w w1" by (rule groupint_get_Inr [OF assms(3)])
  show "tables_ok w1" using assms groupint_get_ok [OF assms(3)]
    by (intro inv_groups [OF s]) (simp_all add: tables_ok_def)
qed

lemma refresh_inv:
  assumes "tables_ok w" and "addr_wf a" and "mode \<in> {MODE_INCLUDE, MODE_EXCLUDE}"
    and "grpint_refresh_at p a mode w = Inr (ok, p', w1)"
  shows "tables_ok w1" and "same_but_groups w w1"
proof -
  show s: "same_but_groups w w1" by (rule grpint_refresh_at_same [OF assms(4)])
  show "tables_ok w1" using assms grpint_refresh_at_ok [OF assms(4)]
    by (intro inv_groups [OF s]) (simp_all add: tables_ok_def)
qed

lemma mld1_report_inv:
  assumes "tables_ok w" and "i < length (ints w)" and "l4_ipv6_icmpv6_mld1_report E i m w = Inr w'"
  shows "tables_ok w'"
proof -
  define w1 where "w1 = int_set_mld_version i 1 w"
  have inv1: "tables_ok w1" unfolding w1_def using assms(1,2) by (intro inv_set_version) simp_all
  obtain mca where mca: "rd (buffer w1) (m + 8) 16 = Inr mca"
    using assms(3) by (auto simp: l4_ipv6_icmpv6_mld1_report_def Let_def w1_def)
  show ?thesis
  proof (cases "mld1_ignored mca")
    case True
    with assms(3) mca inv1 show ?thesis by (simp add: l4_ipv6_icmpv6_mld1_report_def Let_def w1_def)
  next
    case False
    then have ga: "group_addr mca" using mca by (simp add: group_addr_mld1 rd_addr)
    obtain p isnew w2 where g: "groupint_get mca (ints w1 ! i) w1 = Inr (p, isnew, w2)"
      using assms(3) mca False by (auto simp: l4_ipv6_icmpv6_mld1_report_def Let_def w1_def)
    note inv2 = groupint_get_inv(1) [OF inv1 ga g]
    show ?thesis
    proof (cases p)
      case None
      with assms(3) mca g False inv2 show ?thesis
        by (simp add: l4_ipv6_icmpv6_mld1_report_def Let_def w1_def)
    next
      case (Some q)
      then obtain ok q' w3 where r: "grpint_refresh_at q in6addr_any MODE_INCLUDE w2 = Inr (ok, q', w3)"
        and w': "(if \<not> ok then Inr w3 else if isnew then mld_send_report_all E i mca w3 else Inr w3) = Inr w'"
        using assms(3) mca g False by (auto simp: l4_ipv6_icmpv6_mld1_report_def Let_def w1_def)
      have "tables_ok w3" using refresh_inv(1) [OF inv2 _ _ r] by simp
      with w' show ?thesis
        by (auto dest!: mld_send_report_all_sends intro: inv_sends split: if_splits)
    qed
  qed
qed

section \<open>The effect of reports on the membership table\<close>

lemma get_linked:
  assumes "w_calloc w = []" and "groupint_get mca n w = Inr (p, isnew, w1)"
  shows "p = Some (Linked mca (in_ifindex n))" and "membership w1 = membership w"
    and "w_calloc w1 = []" and "same_but_groups w w1"
proof -
  show s: "same_but_groups w w1" by (rule groupint_get_Inr [OF assms(2)])
  show "p = Some (Linked mca (in_ifindex n))"
    using groupint_get_mem [OF assms(1), of mca n] assms(2) by auto
  show "membership w1 = membership w" using assms(2) by (rule groupint_get_membership)
  show "w_calloc w1 = []" using same_but_groups_fields(12) [OF s assms(1)] .
qed

lemma refresh_linked:
  assumes "w_calloc w = []" and "grpint_refresh_at (Linked mca k) a mode w = Inr (ok, p', w1)"
  shows "membership w1 = mem_report mca k a mode (w_now w) (membership w)"
    and "ok" and "p' = Linked mca k" and "w_calloc w1 = []" and "same_but_groups w w1"
  using grpint_refresh_at_membership [OF assms(2)] assms(1) grpint_refresh_at_mem [OF assms]
    grpint_refresh_at_ptr [OF assms(2)] grpint_refresh_at_same [OF assms(2)] by simp_all

lemma sends_mem: "sends w w' \<Longrightarrow> w_calloc w = [] \<Longrightarrow> w_calloc w' = []"
  using sends_fields(13) .

lemma mld1_report_membership:
  assumes "w_calloc w = []" and "i < length (ints w)" and "rd (buffer w) (m + 8) 16 = Inr mca"
    and "\<not> mld1_ignored mca" and "l4_ipv6_icmpv6_mld1_report E i m w = Inr w'"
  shows "membership w' = mem_report mca (in_ifindex (ints w ! i)) in6addr_any MODE_INCLUDE (w_now w) (membership w)"
proof -
  define w1 where "w1 = int_set_mld_version i 1 w"
  have ix: "in_ifindex (ints w1 ! i) = in_ifindex (ints w ! i)"
    using assms(2) by (simp add: w1_def int_set_mld_version_eq upd_int_nth Let_def case_prod_beta)
  have c1: "w_calloc w1 = []" using assms(1) by (simp add: w1_def)
  obtain p isnew w2 where g: "groupint_get mca (ints w1 ! i) w1 = Inr (p, isnew, w2)"
    using assms(3-5) by (auto simp: l4_ipv6_icmpv6_mld1_report_def Let_def w1_def)
  note l = get_linked [OF c1 g]
  obtain ok q' w3 where r: "grpint_refresh_at (Linked mca (in_ifindex (ints w ! i))) in6addr_any MODE_INCLUDE w2 = Inr (ok, q', w3)"
    and w': "(if \<not> ok then Inr w3 else if isnew then mld_send_report_all E i mca w3 else Inr w3) = Inr w'"
    using assms(3-5) g l(1) ix by (auto simp: l4_ipv6_icmpv6_mld1_report_def Let_def w1_def)
  have "membership w' = membership w3"
    using w' by (auto dest!: mld_send_report_all_sends simp: sends_membership split: if_splits)
  also have "\<dots> = mem_report mca (in_ifindex (ints w ! i)) in6addr_any MODE_INCLUDE (w_now w2) (membership w2)"
    using refresh_linked(1) [OF l(3) r] .
  also have "\<dots> = mem_report mca (in_ifindex (ints w ! i)) in6addr_any MODE_INCLUDE (w_now w) (membership w)"
    using l(2) same_but_groups_fields(2) [OF l(4)] by (simp add: w1_def)
  finally show ?thesis .
qed

subsection \<open>MLDv2\<close>

text \<open>
  The specification: a report is a list of records, and the effect of one is a report of each
  of its sources. A record without sources that excludes is a wish for any source; one that
  includes is a wish for nothing, and changes nothing.
\<close>

type_synonym grec = "u8 \<times> in6_addr \<times> in6_addr list"
type_synonym mtable = "in6_addr \<Rightarrow> u64 \<Rightarrow> in6_addr \<Rightarrow> subscrnode option"

definition grec_effect :: "u64 \<Rightarrow> u64 \<Rightarrow> grec \<Rightarrow> mtable \<Rightarrow> mtable" where
  "grec_effect k now = (\<lambda>(t, mca, srcs) m.
     if IN6_IS_ADDR_MC_NODELOCAL mca \<or> IN6_IS_ADDR_MC_LINKLOCAL mca then m
     else if srcs = [] then mem_report mca k in6addr_any (if grec_excludes t then MODE_INCLUDE else MODE_EXCLUDE) now m
     else fold (\<lambda>a. mem_report mca k a (if grec_excludes t then MODE_EXCLUDE else MODE_INCLUDE) now) srcs m)"

text \<open>The records of a message, as long as the message is in order.\<close>

fun addrs_at :: "bytes \<Rightarrow> nat \<Rightarrow> nat \<Rightarrow> in6_addr list" where
  "addrs_at buf src 0 = []"
| "addrs_at buf src (Suc n) = take 16 (drop src buf) # addrs_at buf (src + 16) n"

fun grecs_at :: "bytes \<Rightarrow> nat \<Rightarrow> nat \<Rightarrow> nat \<Rightarrow> grec list" where
  "grecs_at buf stop 0 g = []"
| "grecs_at buf stop (Suc n) g =
     (let t = buf ! g; nsrcs = unat (ntohs (le16 (buf ! (g + 2)) (buf ! (g + 3)))) in
      if g > stop \<or> \<not> grec_type_known t \<or> (nsrcs \<noteq> 0 \<and> g + 20 + nsrcs * 16 > stop) then []
      else (t, take 16 (drop (g + 4) buf), addrs_at buf (g + 20) nsrcs)
           # grecs_at buf stop n (g + 20 + 16 * nsrcs + unat (buf ! (g + 1))))"

lemma mld2_sources_effect:
  assumes "mld2_sources n src mode (Some (Linked mca k)) w = Inr w'" and "w_calloc w = []"
  shows "membership w' = fold (\<lambda>a. mem_report mca k a mode (w_now w)) (addrs_at (buffer w) src n) (membership w)
    \<and> same_but_groups w w' \<and> w_calloc w' = []"
  using assms
proof (induction n arbitrary: src w)
  case (Suc n)
  then obtain a ok p w1 where a: "rd (buffer w) src 16 = Inr a"
    and r: "grpint_refresh_at (Linked mca k) a mode w = Inr (ok, p, w1)"
    and rest: "mld2_sources n (src + 16) mode (Some p) w1 = Inr w'"
    by auto
  note l = refresh_linked [OF Suc.prems(2) r]
  have "a = take 16 (drop src (buffer w))" using a by (auto simp: rd_def split: if_splits)
  with Suc.IH [OF rest [unfolded l(3)] l(4)] l(1,5) show ?case
    by (auto simp: same_but_groups_fields intro: same_but_groups_trans)
qed simp

lemma mld2_sources_None: "mld2_sources n src mode None w = Inr w"
  by (induction n arbitrary: src) simp_all

lemma rd16_nth: "rd16 buf a = Inr n \<Longrightarrow> n = le16 (buf ! a) (buf ! (a + 1))"
  by (auto simp: rd16_def rd8_def split: if_splits)

lemma rd8_nth: "rd8 buf a = Inr b \<Longrightarrow> b = buf ! a"
  by (auto simp: rd8_def split: if_splits)

lemma rd_take: "rd buf a n = Inr bs \<Longrightarrow> bs = take n (drop a buf)"
  by (auto simp: rd_def split: if_splits)

text \<open>What the records leave alone: everything but the tables and what sending changes.\<close>

definition keeps :: "nat \<Rightarrow> world \<Rightarrow> world \<Rightarrow> bool" where
  "keeps i w w' \<longleftrightarrow> buffer w' = buffer w \<and> w_now w' = w_now w \<and> length (ints w') = length (ints w) \<and>
     in_ifindex (ints w' ! i) = in_ifindex (ints w ! i) \<and> w_calloc w' = []"

lemma keeps_trans: "keeps i u v \<Longrightarrow> keeps i v w \<Longrightarrow> keeps i u w"
  by (simp add: keeps_def)

lemma keeps_groups: "same_but_groups w w' \<Longrightarrow> w_calloc w = [] \<Longrightarrow> keeps i w w'"
  by (simp add: keeps_def same_but_groups_fields)

lemma keeps_sends: "sends w w' \<Longrightarrow> w_calloc w = [] \<Longrightarrow> i < length (ints w) \<Longrightarrow> keeps i w w'"
  using int_sends_fields(1) [OF sends_nth [of w w' i]] by (simp add: keeps_def sends_fields)

lemma mld2_grec_group_effect:
  assumes "mld2_grec_group i mca isnew w = Inr (p, isnew', w1)" and "w_calloc w = []"
  shows "membership w1 = membership w" and "same_but_groups w w1" and "w_calloc w1 = []"
    and "p = (if IN6_IS_ADDR_MC_NODELOCAL mca \<or> IN6_IS_ADDR_MC_LINKLOCAL mca then None
              else Some (Linked mca (in_ifindex (ints w ! i))))"
  using assms get_linked [of w mca "ints w ! i" p isnew' w1]
  by (auto simp: mld2_grec_group_def split: if_splits)

lemma mld2_grec_subscribe_effect:
  assumes "mld2_grec_subscribe m plen g t nsrcs p w = Inr (ret, w1)" and "w_calloc w = []" and "m \<le> g"
    and "p = (if IN6_IS_ADDR_MC_NODELOCAL mca \<or> IN6_IS_ADDR_MC_LINKLOCAL mca then None else Some (Linked mca k))"
  shows "ret = (nsrcs \<noteq> 0 \<and> g + 20 + nsrcs * 16 > m + plen)" and "same_but_groups w w1" and "w_calloc w1 = []"
    and "membership w1 = (if ret then membership w
      else grec_effect k (w_now w) (t, mca, addrs_at (buffer w) (g + 20) nsrcs) (membership w))"
proof -
  have "ret = (nsrcs \<noteq> 0 \<and> g + 20 + nsrcs * 16 > m + plen) \<and> same_but_groups w w1 \<and> w_calloc w1 = [] \<and>
    membership w1 = (if ret then membership w
      else grec_effect k (w_now w) (t, mca, addrs_at (buffer w) (g + 20) nsrcs) (membership w))"
  proof (cases "nsrcs = 0")
    case True
    show ?thesis
    proof (cases p)
      case None
      with True assms show ?thesis
        by (auto simp: mld2_grec_subscribe_def grec_effect_def split: if_splits)
    next
      case (Some q)
      then have q: "q = Linked mca k" "\<not> (IN6_IS_ADDR_MC_NODELOCAL mca \<or> IN6_IS_ADDR_MC_LINKLOCAL mca)"
        using assms(4) by (auto split: if_splits)
      then obtain ok q' where "grpint_refresh_at (Linked mca k) in6addr_any
          (if grec_excludes t then MODE_INCLUDE else MODE_EXCLUDE) w = Inr (ok, q', w1)" "ret = (\<not> ok)"
        using assms(1) True Some by (auto simp: mld2_grec_subscribe_def)
      with refresh_linked [OF assms(2) this(1)] True q show ?thesis by (simp add: grec_effect_def)
    qed
  next
    case False
    then have ne: "addrs_at (buffer w) (g + 20) nsrcs \<noteq> []" by (cases nsrcs) simp_all
    have len: "g + sizeof_mld2_grec - m + nsrcs * sizeof_in6_addr > plen \<longleftrightarrow> g + 20 + nsrcs * 16 > m + plen"
      using assms(3) by (simp add: sizes) linarith
    show ?thesis
    proof (cases "g + 20 + nsrcs * 16 > m + plen")
      case True
      with False assms(1,2) len show ?thesis by (simp add: mld2_grec_subscribe_def)
    next
      case inside: False
      then have s: "mld2_sources nsrcs (g + 20) (if grec_excludes t then MODE_EXCLUDE else MODE_INCLUDE) p w = Inr w1"
        and "\<not> ret"
        using False assms(1) len by (auto simp: mld2_grec_subscribe_def sizes)
      then show ?thesis
        using False inside assms(2,4) ne mld2_sources_effect [of nsrcs "g + 20"]
        by (auto simp: grec_effect_def mld2_sources_None split: if_splits)
    qed
  qed
  then show "ret = (nsrcs \<noteq> 0 \<and> g + 20 + nsrcs * 16 > m + plen)" "same_but_groups w w1" "w_calloc w1 = []"
    "membership w1 = (if ret then membership w
      else grec_effect k (w_now w) (t, mca, addrs_at (buffer w) (g + 20) nsrcs) (membership w))" by auto
qed

text \<open>One round of the loop over the records.\<close>

lemma mld2_grecs_Suc:
  assumes "mld2_grecs E i m plen (Suc n) g isnew w = Inr w'" and "g \<le> m + plen"
    and "grec_type_known (buffer w ! g)"
  obtains p isnew' w1 ret w2 where
    "mld2_grec_group i (take 16 (drop (g + 4) (buffer w))) isnew w = Inr (p, isnew', w1)"
    and "mld2_grec_subscribe m plen g (buffer w ! g)
          (unat (ntohs (le16 (buffer w ! (g + 2)) (buffer w ! (g + 3))))) p w1 = Inr (ret, w2)"
    and "if ret then w' = w2 else \<exists>w3. sends w2 w3 \<and> mld2_grecs E i m plen n
          (g + 20 + 16 * unat (ntohs (le16 (buffer w ! (g + 2)) (buffer w ! (g + 3)))) + unat (buffer w3 ! (g + 1)))
          isnew' w3 = Inr w'"
proof -
  obtain nn t mca where n: "rd16 (buffer w) (g + 2) = Inr nn" and t: "rd8 (buffer w) g = Inr t"
    and mca: "rd (buffer w) (g + 4) 16 = Inr mca"
    using assms by (auto split: if_splits dest: rd8_nth)
  have eqs: "nn = le16 (buffer w ! (g + 2)) (buffer w ! (g + 3))" "t = buffer w ! g"
    "mca = take 16 (drop (g + 4) (buffer w))"
    using rd16_nth [OF n] rd8_nth [OF t] rd_take [OF mca] by (simp_all add: numeral_3_eq_3)
  obtain p isnew' w1 ret w2 where gg: "mld2_grec_group i mca isnew w = Inr (p, isnew', w1)"
    and gs: "mld2_grec_subscribe m plen g t (unat (ntohs nn)) p w1 = Inr (ret, w2)"
    and rest: "(if ret then Inr w2 else rbind (if isnew' then mld_send_report_all E i mca w2 else Inr w2) (\<lambda>w3.
        rbind (rd8 (buffer w3) (g + 1)) (\<lambda>aux. mld2_grecs E i m plen n
          (g + sizeof_mld2_grec + sizeof_in6_addr * unat (ntohs nn) + unat aux) isnew' w3))) = Inr w'"
    using assms n t mca by (auto simp: eqs(2) split: if_splits)
  have "if ret then w' = w2 else \<exists>w3. sends w2 w3 \<and> mld2_grecs E i m plen n
          (g + 20 + 16 * unat (ntohs nn) + unat (buffer w3 ! (g + 1))) isnew' w3 = Inr w'"
  proof (cases ret)
    case False
    then obtain w3 aux where w3: "(if isnew' then mld_send_report_all E i mca w2 else Inr w2) = Inr w3"
      and "rd8 (buffer w3) (g + 1) = Inr aux"
      and "mld2_grecs E i m plen n (g + 20 + 16 * unat (ntohs nn) + unat aux) isnew' w3 = Inr w'"
      using rest by (auto simp only: rbind_eq_Inr if_False sizes)
    moreover have "sends w2 w3" using w3 by (auto dest!: mld_send_report_all_sends split: if_splits)
    ultimately show ?thesis using False by (auto dest: rd8_nth)
  qed (use rest in simp)
  then show thesis
    using that gg gs unfolding eqs by blast
qed

lemma mld2_grecs_effect:
  assumes "mld2_grecs E i m plen n g isnew w = Inr w'" and "w_calloc w = []" and "i < length (ints w)"
    and "m \<le> g"
  shows "membership w' = fold (grec_effect (in_ifindex (ints w ! i)) (w_now w))
    (grecs_at (buffer w) (m + plen) n g) (membership w)"
  using assms
proof (induction n arbitrary: g isnew w)
  case (Suc n)
  let ?k = "in_ifindex (ints w ! i)" and ?mca = "take 16 (drop (g + 4) (buffer w))"
  let ?n = "unat (ntohs (le16 (buffer w ! (g + 2)) (buffer w ! (g + 3))))"
  consider (skip) "m + plen < g" | (unknown) "g \<le> m + plen" "\<not> grec_type_known (buffer w ! g)"
    | (known) "g \<le> m + plen" "grec_type_known (buffer w ! g)" by linarith
  then show ?case
  proof cases
    case skip
    with Suc.prems(1) show ?thesis by simp
  next
    case unknown
    with Suc.prems(1) have "w' = w" by (auto split: if_splits dest!: rd8_nth)
    with unknown show ?thesis by (simp add: Let_def)
  next
    case known
    from mld2_grecs_Suc [OF Suc.prems(1) known] obtain p isnew' w1 ret w2 where
      gg: "mld2_grec_group i ?mca isnew w = Inr (p, isnew', w1)"
      and gs: "mld2_grec_subscribe m plen g (buffer w ! g) ?n p w1 = Inr (ret, w2)"
      and rest: "if ret then w' = w2 else \<exists>w3. sends w2 w3 \<and> mld2_grecs E i m plen n
          (g + 20 + 16 * ?n + unat (buffer w3 ! (g + 1))) isnew' w3 = Inr w'" .
    note g1 = mld2_grec_group_effect [OF gg Suc.prems(2)]
    note g2 = mld2_grec_subscribe_effect [OF gs g1(3) Suc.prems(4) g1(4)]
    have k2: "keeps i w w2"
      by (intro keeps_trans [OF keeps_groups [OF g1(2) Suc.prems(2)] keeps_groups [OF g2(2) g1(3)]])
    have b1: "buffer w1 = buffer w" "w_now w1 = w_now w" using g1(2) by (simp_all add: same_but_groups_fields)
    show ?thesis
    proof (cases ret)
      case True
      with rest g2 g1(1) known show ?thesis by (simp add: Let_def)
    next
      case False
      then obtain w3 where s: "sends w2 w3"
        and rec: "mld2_grecs E i m plen n (g + 20 + 16 * ?n + unat (buffer w3 ! (g + 1))) isnew' w3 = Inr w'"
        using rest by auto
      have "keeps i w2 w3" using keeps_sends [OF s g2(3)] k2 Suc.prems(3) by (simp add: keeps_def)
      with k2 have k3: "keeps i w w3" by (rule keeps_trans)
      have "membership w3 = grec_effect ?k (w_now w) (buffer w ! g, ?mca, addrs_at (buffer w) (g + 20) ?n) (membership w)"
        using g2(4) False g1(1) b1 sends_membership [OF s] by simp
      moreover have "grecs_at (buffer w) (m + plen) (Suc n) g =
          (buffer w ! g, ?mca, addrs_at (buffer w) (g + 20) ?n)
          # grecs_at (buffer w) (m + plen) n (g + 20 + 16 * ?n + unat (buffer w ! (g + 1)))"
        using known False g2(1) by (auto simp: Let_def)
      ultimately show ?thesis
        using Suc.IH [OF rec] k3 Suc.prems(3,4) by (simp add: keeps_def)
    qed
  qed
qed simp

lemma mld2_report_membership:
  assumes "w_calloc w = []" and "i < length (ints w)" and "l4_ipv6_icmpv6_mld2_report E i m plen w = Inr w'"
  shows "membership w' = fold (grec_effect (in_ifindex (ints w ! i)) (w_now w))
    (let n = unat (ntohs (le16 (buffer w ! (m + 6)) (buffer w ! (m + 7))))
     in if 8 + n * 20 > unat plen then [] else grecs_at (buffer w) (m + unat plen) n (m + 8)) (membership w)"
proof -
  let ?n = "unat (ntohs (le16 (buffer w ! (m + 6)) (buffer w ! (m + 7))))"
  define w1 where "w1 = int_set_mld_version i 2 w"
  have ix: "in_ifindex (ints w1 ! i) = in_ifindex (ints w ! i)"
    using assms(2) by (simp add: w1_def int_set_mld_version_eq upd_int_nth Let_def case_prod_beta)
  have run: "(if 8 + ?n * 20 > unat plen then Inr w1
      else mld2_grecs E i m (unat plen) ?n (m + 8) False w1) = Inr w'"
  proof -
    obtain n where n: "rd16 (buffer w) (m + 6) = Inr n"
      and run: "(if 8 + unat (ntohs n) * 20 > unat plen then Inr w1
        else mld2_grecs E i m (unat plen) (unat (ntohs n)) (m + 8) False w1) = Inr w'"
      using assms(3) unfolding l4_ipv6_icmpv6_mld2_report_def Let_def w1_def sizes by auto
    have "m + 6 + 1 = m + 7" by simp
    with rd16_nth [OF n] have "n = le16 (buffer w ! (m + 6)) (buffer w ! (m + 7))" by metis
    with run show ?thesis by (simp only:)
  qed
  show ?thesis
  proof (cases "8 + ?n * 20 > unat plen")
    case True
    with run show ?thesis by (auto simp: w1_def)
  next
    case False
    with run have "mld2_grecs E i m (unat plen) ?n (m + 8) False w1 = Inr w'" by simp
    from mld2_grecs_effect [OF this] show ?thesis
      using False assms(1,2) ix by (simp add: w1_def Let_def)
  qed
qed

section \<open>The other messages keep the invariant\<close>

lemma mld2_sources_inv:
  assumes "mld2_sources n src mode p w = Inr w'" and "tables_ok w" and "mode \<in> {MODE_INCLUDE, MODE_EXCLUDE}"
  shows "tables_ok w' \<and> same_but_groups w w'"
  using assms
proof (induction n src mode p w rule: mld2_sources.induct)
  case (3 nsrcs src mode p w)
  then obtain a ok p' w1 where a: "rd (buffer w) src 16 = Inr a"
    and r: "grpint_refresh_at p a mode w = Inr (ok, p', w1)"
    and rest: "mld2_sources nsrcs (src + 16) mode (Some p') w1 = Inr w'" by auto
  note i1 = refresh_inv [OF 3(3) rd_addr [OF a] 3(4) r]
  have "tables_ok w' \<and> same_but_groups w1 w'"
    using 3(1) [OF a r refl refl rest i1(1) 3(4)] .
  with i1(2) show ?case by (blast intro: same_but_groups_trans)
qed simp_all

lemma mld2_grec_subscribe_inv:
  assumes "mld2_grec_subscribe m plen g t n p w = Inr (ret, w')" and "tables_ok w"
  shows "tables_ok w' \<and> same_but_groups w w'"
proof -
  have modes: "(if c then MODE_INCLUDE else MODE_EXCLUDE) \<in> {MODE_INCLUDE, MODE_EXCLUDE}"
    "(if c then MODE_EXCLUDE else MODE_INCLUDE) \<in> {MODE_INCLUDE, MODE_EXCLUDE}" for c by auto
  consider "w' = w" | q ok q' where "grpint_refresh_at q in6addr_any
        (if grec_excludes t then MODE_INCLUDE else MODE_EXCLUDE) w = Inr (ok, q', w')"
    | "mld2_sources n (g + sizeof_mld2_grec) (if grec_excludes t then MODE_EXCLUDE else MODE_INCLUDE) p w = Inr w'"
    using assms(1) unfolding mld2_grec_subscribe_def
    by (auto split: option.splits simp del: if_split split: if_splits)
  then show ?thesis
  proof cases
    case 1
    with assms(2) show ?thesis by simp
  next
    case 2
    from refresh_inv [OF assms(2) addr_wf_any modes(1) 2] show ?thesis by blast
  next
    case 3
    from mld2_sources_inv [OF 3 assms(2) modes(2)] show ?thesis .
  qed
qed

lemma mld2_grec_group_inv:
  assumes "mld2_grec_group i mca isnew w = Inr (p, isnew', w')" and "tables_ok w" and "addr_wf mca"
  shows "tables_ok w' \<and> same_but_groups w w'"
proof (cases "IN6_IS_ADDR_MC_NODELOCAL mca \<or> IN6_IS_ADDR_MC_LINKLOCAL mca")
  case True
  with assms show ?thesis by (auto simp: mld2_grec_group_def)
next
  case False
  then have "group_addr mca" using assms(3) by (simp add: group_addr_def)
  with False assms groupint_get_inv [OF assms(2) this] show ?thesis
    by (auto simp: mld2_grec_group_def)
qed

lemma mld2_grecs_inv:
  assumes "mld2_grecs E i m plen n g isnew w = Inr w'" and "tables_ok w"
  shows "tables_ok w'"
  using assms
proof (induction n arbitrary: g isnew w)
  case (Suc n)
  consider "w' = w" | "g \<le> m + plen" "grec_type_known (buffer w ! g)"
    using Suc.prems(1) by (auto split: if_splits dest!: rd8_nth)
  then show ?case
  proof cases
    case 1
    with Suc.prems show ?thesis by simp
  next
    case 2
    from mld2_grecs_Suc [OF Suc.prems(1) 2] obtain p isnew' w1 ret w2 where
      gg: "mld2_grec_group i (take 16 (drop (g + 4) (buffer w))) isnew w = Inr (p, isnew', w1)"
      and gs: "mld2_grec_subscribe m plen g (buffer w ! g)
          (unat (ntohs (le16 (buffer w ! (g + 2)) (buffer w ! (g + 3))))) p w1 = Inr (ret, w2)"
      and rest: "if ret then w' = w2 else \<exists>w3. sends w2 w3 \<and> mld2_grecs E i m plen n
          (g + 20 + 16 * unat (ntohs (le16 (buffer w ! (g + 2)) (buffer w ! (g + 3)))) + unat (buffer w3 ! (g + 1)))
          isnew' w3 = Inr w'" .
    have "rd (buffer w) (g + 4) 16 \<noteq> Inl OutOfBounds"
      using Suc.prems(1) 2 by (auto split: if_splits dest: rd8_nth)
    then have "addr_wf (take 16 (drop (g + 4) (buffer w)))"
      by (auto simp: rd_def addr_wf_def split: if_splits)
    then have "tables_ok w1" using mld2_grec_group_inv [OF gg Suc.prems(2)] by simp
    then have "tables_ok w2" using mld2_grec_subscribe_inv [OF gs] by simp
    with rest Suc.IH inv_sends show ?thesis by (cases ret) (simp, metis)
  qed
qed simp

lemma mld2_report_inv:
  assumes "tables_ok w" and "i < length (ints w)" and "l4_ipv6_icmpv6_mld2_report E i m plen w = Inr w'"
  shows "tables_ok w'"
proof -
  have "tables_ok (int_set_mld_version i 2 w)" using assms(1,2) by (intro inv_set_version) simp_all
  with assms(3) show ?thesis
    by (auto simp: l4_ipv6_icmpv6_mld2_report_def Let_def intro: mld2_grecs_inv split: if_splits)
qed

lemma query_group_sends: "query_group E i g w = Inr w' \<Longrightarrow> sends w w'"
proof -
  assume "query_group E i g w = Inr w'"
  then show "sends w w'" unfolding query_group_def
    by (rule foldM_invariant [where P = "sends w"])
      (auto split: if_splits dest: reports.send_frame intro: sends_trans)
qed

text \<open>A query changes at most the MLD version of the interface, and has reports sent.\<close>

lemma mld_query_sends:
  assumes "l4_ipv6_icmpv6_mld_query E i plen w = Inr w'"
  shows "sends (int_set_mld_version i (if unat plen = 24 then 1 else 2) w) w'"
proof -
  let ?w1 = "int_set_mld_version i (if unat plen = 24 then 1 else 2) w"
  consider "w' = ?w1" | "foldM (query_group E i) (nodes (groups ?w1)) ?w1 = Inr w'"
    | "mld2_send_report E i None ?w1 = Inr w'"
    using assms unfolding l4_ipv6_icmpv6_mld_query_def Let_def sizes
    by (auto split: if_splits)
  then show ?thesis
  proof cases
    case 2
    then show ?thesis
      by (rule foldM_invariant [where P = "sends ?w1"]) (auto dest: query_group_sends intro: sends_trans)
  qed (simp_all add: mld2_send_report_sends)
qed

lemma mld_query_inv:
  assumes "tables_ok w" and "i < length (ints w)" and "l4_ipv6_icmpv6_mld_query E i plen w = Inr w'"
  shows "tables_ok w'" and "membership w' = membership w"
proof -
  have "tables_ok (int_set_mld_version i (if unat plen = 24 then 1 else 2) w)"
    using assms(1,2) by (intro inv_set_version) auto
  then show "tables_ok w'" using mld_query_sends [OF assms(3)] by (rule inv_sends [rotated])
  show "membership w' = membership w"
    using sends_membership [OF mld_query_sends [OF assms(3)]] by simp
qed

section \<open>MLDv1 reductions\<close>

lemma upd_first_const: "find P xs = Some x \<Longrightarrow> upd_first P f xs = upd_first P (\<lambda>_. f x) xs"
  by (induction xs) (auto split: if_splits)

lemma upd_grpint_const:
  assumes "grpint_of w mca k = Some gi"
  shows "upd_grpint mca k f w = upd_grpint mca k (\<lambda>_. f gi) w"
proof -
  obtain g where g: "group_find (groups w) mca = Some g" "grpint_find (gr_interfaces g) k = Some gi"
    using assms by (auto simp: grpint_of_def split: option.splits)
  define F where "F = (\<lambda>h (g :: groupnode). g\<lparr>gr_interfaces := cl_upd (\<lambda>x. gi_ifindex x = k) h (gr_interfaces g)\<rparr>)"
  have "upd_first (\<lambda>x. gi_ifindex x = k) f (nodes (gr_interfaces g))
      = upd_first (\<lambda>x. gi_ifindex x = k) (\<lambda>_. f gi) (nodes (gr_interfaces g))"
    using g(2) unfolding gints.tfind_eq by (rule upd_first_const)
  then have "F f g = F (\<lambda>_. f gi) g" by (simp only: F_def cl_upd_def)
  moreover have "upd_first (\<lambda>x. gr_mca x = mca) (F h) (nodes (groups w)) =
      upd_first (\<lambda>x. gr_mca x = mca) (\<lambda>_. F h g) (nodes (groups w))" for h
    using g(1) unfolding grps.tfind_eq by (rule upd_first_const)
  ultimately have "upd_first (\<lambda>x. gr_mca x = mca) (F f) (nodes (groups w)) =
      upd_first (\<lambda>x. gr_mca x = mca) (F (\<lambda>_. f gi)) (nodes (groups w))" by metis
  then show ?thesis by (simp only: upd_grpint_eq F_def cl_upd_def)
qed

lemma membership_upd:
  assumes "grpint_of w mca k = Some gi" and "gi_ifindex (f gi) = gi_ifindex gi"
  shows "membership (upd_grpint mca k f w) m j a =
    (if m = mca \<and> j = k then subscr_find (gi_subscriptions (f gi)) a else membership w m j a)"
  unfolding upd_grpint_const [OF assms(1), of f] membership_def
  using grpint_of_upd [OF assms] by simp

lemma tables_ok_upd:
  assumes "tables_ok w" and "grpint_of w mca k = Some gi" and "gi_ifindex (f gi) = gi_ifindex gi"
    and "grpint_ok gi \<Longrightarrow> grpint_ok (f gi)"
  shows "tables_ok (upd_grpint mca k f w)"
  unfolding upd_grpint_const [OF assms(2), of f] tables_ok_def
  using assms(1) groups_ok_upd_grpint [OF _ assms(2,3,4)]
  by (auto simp: tables_ok_def upd_grpint_eq intro: ints_ok_frame)

lemma grpint_of_ok:
  assumes "tables_ok w" and "grpint_of w mca k = Some gi"
  shows "subs_ok (gi_subscriptions gi)"
proof -
  obtain g where "group_find (groups w) mca = Some g" "grpint_find (gr_interfaces g) k = Some gi"
    using assms(2) by (auto simp: grpint_of_def split: option.splits)
  then show ?thesis using assms(1) groups_okD(1) [of "groups w" mca g] gints.tfind_SomeD [of "gr_interfaces g" k gi]
    by (auto simp: tables_ok_def group_ok_def grpints_ok_def grpint_ok_def)
qed

text \<open>The membership table after the any-source subscription of an interface is gone.\<close>

definition mem_reduce :: "in6_addr \<Rightarrow> u64 \<Rightarrow> mtable \<Rightarrow> mtable" where
  "mem_reduce mca k m = (\<lambda>mca' k' a. if mca' = mca \<and> k' = k \<and> a = in6addr_any then None else m mca' k' a)"

text \<open>
  The outcome of a reduction that finds its subscription: it is removed, and if it was the last
  one the group is queried for on that interface and the list is marked.
\<close>

lemma mld1_reduction_found:
  assumes ok: "tables_ok w" and i: "i < length (ints w)" and mca: "rd (buffer w) (m + 8) 16 = Inr mca"
    "\<not> mld1_ignored mca" and run: "l4_ipv6_icmpv6_mld1_reduction E i m w = Inr w'"
    and k: "k = in_ifindex (ints w ! i)" and gi: "grpint_of w mca k = Some gi"
    and found: "subscr_find (gi_subscriptions gi) in6addr_any \<noteq> None"
    and subs: "subs = cl_delete_first (\<lambda>s. sb_ipv6 s = in6addr_any) (gi_subscriptions gi)"
    and w2: "w2 = upd_grpint mca k (\<lambda>g. g\<lparr>gi_subscriptions := subs\<rparr>) (int_set_mld_version i 1 w)"
  shows "if nodes subs = [] then \<exists>w3. mld_send_query E i mca w2 = Inr w3 \<and>
      w' = upd_grpint mca k (\<lambda>g. g\<lparr>gi_subscriptions := (gi_subscriptions g)\<lparr>count := - ECMH_ROBUSTNESS_FACTOR\<rparr>\<rparr>) w3
    else w' = w2"
proof -
  have ix: "in_ifindex (ints (int_set_mld_version i 1 w) ! i) = k"
    using i by (simp add: k int_set_mld_version_eq upd_int_nth Let_def case_prod_beta)
  obtain g where g: "group_find (groups w) mca = Some g" "grpint_find (gr_interfaces g) k = Some gi"
    using gi by (auto simp: grpint_of_def split: option.splits)
  have "subscr_unsub (gi_subscriptions gi) in6addr_any = (True, subs)"
    using found by (simp add: subscr_unsub_eq subs)
  then have run': "(if count subs \<le> 0 then rbind (mld_send_query E i mca w2) (\<lambda>w3.
       Inr (upd_grpint mca k (\<lambda>g. g\<lparr>gi_subscriptions := (gi_subscriptions g)\<lparr>count := - ECMH_ROBUSTNESS_FACTOR\<rparr>\<rparr>) w3))
      else Inr w2) = Inr w'"
    using run mca g ix by (auto simp: l4_ipv6_icmpv6_mld1_reduction_def Let_def w2 split: if_splits)
  have s: "cl_exact (gi_subscriptions gi)"
    using grpint_of_ok [OF ok gi] found
    by (auto simp: subs_ok_def cl_marked_def subscr_find_def)
  then have "cl_exact subs" unfolding subs by blast
  then have "count subs \<le> 0 \<longleftrightarrow> nodes subs = []" by (auto simp: cl_exact_def)
  with run' show ?thesis by (auto split: if_splits)
qed

text \<open>A reduction that finds no subscription only notes the MLD version.\<close>

lemma mld1_reduction_none:
  assumes "i < length (ints w)" and "rd (buffer w) (m + 8) 16 = Inr mca"
    and "mld1_ignored mca \<or> (case grpint_of w mca (in_ifindex (ints w ! i)) of None \<Rightarrow> True
       | Some gi \<Rightarrow> subscr_find (gi_subscriptions gi) in6addr_any = None)"
  shows "l4_ipv6_icmpv6_mld1_reduction E i m w = Inr (int_set_mld_version i 1 w)"
proof -
  have ix: "in_ifindex (ints (int_set_mld_version i 1 w) ! i) = in_ifindex (ints w ! i)"
    using assms(1) by (simp add: int_set_mld_version_eq upd_int_nth Let_def case_prod_beta)
  with assms show ?thesis
    by (auto simp: l4_ipv6_icmpv6_mld1_reduction_def Let_def grpint_of_def subscr_unsub_eq split: option.splits)
qed

lemma grpint_of_ints: "groups w' = groups w \<Longrightarrow> grpint_of w' = grpint_of w"
  by (simp add: grpint_of_def fun_eq_iff)

lemma subs_ok_mark: "subs_ok l \<Longrightarrow> nodes l = [] \<Longrightarrow> subs_ok (l\<lparr>count := - ECMH_ROBUSTNESS_FACTOR\<rparr>)"
  by (simp add: subs_ok_def cl_marked_def)

lemma mld1_reduction_spec:
  assumes "tables_ok w" and "i < length (ints w)" and "l4_ipv6_icmpv6_mld1_reduction E i m w = Inr w'"
    and "rd (buffer w) (m + 8) 16 = Inr mca"
  shows "tables_ok w'"
    and "membership w' = (if mld1_ignored mca then membership w
      else mem_reduce mca (in_ifindex (ints w ! i)) (membership w))"
proof -
  define k where "k = in_ifindex (ints w ! i)"
  define w1 where "w1 = int_set_mld_version i 1 w"
  have ok1: "tables_ok w1" unfolding w1_def using assms(1,2) by (intro inv_set_version) simp_all
  have "tables_ok w' \<and> membership w' = (if mld1_ignored mca then membership w else mem_reduce mca k (membership w))"
  proof (cases "mld1_ignored mca \<or> (case grpint_of w mca k of None \<Rightarrow> True
       | Some gi \<Rightarrow> subscr_find (gi_subscriptions gi) in6addr_any = None)")
    case True
    then have w': "w' = w1"
      using mld1_reduction_none [OF assms(2,4), of E] assms(3) by (simp add: k_def w1_def)
    have "\<not> mld1_ignored mca \<Longrightarrow> membership w mca k in6addr_any = None"
      using True by (auto simp: membership_def split: option.splits)
    with ok1 w' show ?thesis by (auto simp: w1_def mem_reduce_def fun_eq_iff)
  next
    case False
    then obtain gi where gi: "grpint_of w mca k = Some gi"
      and found: "subscr_find (gi_subscriptions gi) in6addr_any \<noteq> None" and ign: "\<not> mld1_ignored mca"
      by (auto split: option.splits)
    define subs where "subs = cl_delete_first (\<lambda>s. sb_ipv6 s = in6addr_any) (gi_subscriptions gi)"
    define upd where "upd = (\<lambda>g :: grpintnode. g\<lparr>gi_subscriptions := subs\<rparr>)"
    define mark where "mark = (\<lambda>g :: grpintnode. g\<lparr>gi_subscriptions :=
      (gi_subscriptions g)\<lparr>count := - ECMH_ROBUSTNESS_FACTOR\<rparr>\<rparr>)"
    define w2 where "w2 = upd_grpint mca k upd w1"
    note out = mld1_reduction_found [OF assms(1,2,4) ign assms(3) k_def gi found subs_def, of w2,
        folded w1_def upd_def mark_def, OF w2_def]
    have gi1: "grpint_of w1 mca k = Some gi" using gi grpint_of_ints [of w1 w] by (simp add: w1_def)
    have so: "subs_ok (gi_subscriptions gi)" using assms(1) gi by (rule grpint_of_ok)
    have so2: "subs_ok subs" using subs_ok_unsub [OF so, of in6addr_any] by (simp add: subscr_unsub_eq subs_def)
    have ok2: "tables_ok w2" unfolding w2_def
      using ok1 gi1 so2 by (intro tables_ok_upd) (auto simp: upd_def grpint_ok_def)
    have m2: "membership w2 = mem_reduce mca k (membership w)"
    proof (intro ext)
      fix m' j a
      have "membership w1 mca k a = subscr_find (gi_subscriptions gi) a" by (simp add: membership_def gi1)
      moreover have "subscr_find subs a = (if a = in6addr_any then None else subscr_find (gi_subscriptions gi) a)"
        unfolding subs_def using so by (intro subs.tfind_delete) (simp add: subs_ok_def)
      ultimately show "membership w2 m' j a = mem_reduce mca k (membership w) m' j a"
        unfolding w2_def using membership_upd [OF gi1, of upd m' j a]
        by (auto simp: upd_def mem_reduce_def w1_def)
    qed
    have gi2: "grpint_of w2 mca k = Some (upd gi)"
      unfolding w2_def upd_grpint_const [OF gi1, of upd] using grpint_of_upd [OF gi1, of "upd gi"] by (simp add: upd_def)
    show ?thesis
    proof (cases "nodes subs = []")
      case False
      with out ok2 m2 ign show ?thesis by simp
    next
      case True
      then obtain w3 where w3: "mld_send_query E i mca w2 = Inr w3" "w' = upd_grpint mca k mark w3"
        using out by auto
      note s = queries.send_frame [OF w3(1)]
      have gi3: "grpint_of w3 mca k = Some (upd gi)" using gi2 grpint_of_ints [OF sends_fields(1) [OF s]] by simp
      have "grpint_ok (mark (upd gi))" using so2 True by (simp add: mark_def upd_def grpint_ok_def subs_ok_mark)
      then have "tables_ok w'" unfolding w3(2)
        using inv_sends [OF s ok2] gi3 by (intro tables_ok_upd) (simp_all add: mark_def)
      moreover have "membership w' m' j a = membership w3 m' j a" for m' j a
        unfolding w3(2) using membership_upd [OF gi3, of mark m' j a]
        by (auto simp: mark_def upd_def membership_def gi3 subscr_find_def)
      ultimately show ?thesis using sends_membership [OF s] m2 ign by (auto simp: fun_eq_iff)
    qed
  qed
  then show "tables_ok w'" "membership w' = (if mld1_ignored mca then membership w
      else mem_reduce mca (in_ifindex (ints w ! i)) (membership w))" by (auto simp: k_def)
qed

end
