(* ===== verification/Forward.thy ===== *)
theory Forward
  imports Mld_Recv
begin

text \<open>
  The path of a received packet: \<open>l2_ethtype\<close>, \<open>l3_ipv4\<close>, \<open>l3_ipv6\<close> with its walk along the
  extension headers, \<open>l4_ipv6_icmpv6\<close>, and the forwarding in \<open>l4_ipv6_multicast\<close>. The packet
  lies in the receive buffer at offset \<open>iph\<close> and is changed there (hop limit, checksum).
  Reads that only feed a log message are left out.
\<close>

section \<open>Forwarding\<close>

text \<open>Which packets are not routed.\<close>

definition not_routed :: "in6_addr \<Rightarrow> in6_addr \<Rightarrow> bool" where
  "not_routed src dst \<longleftrightarrow> IN6_IS_ADDR_MULTICAST src \<or> IN6_IS_ADDR_UNSPECIFIED src \<or>
     IN6_IS_ADDR_UNSPECIFIED dst \<or> IN6_IS_ADDR_LINKLOCAL src \<or>
     IN6_IS_ADDR_MC_NODELOCAL dst \<or> IN6_IS_ADDR_MC_LINKLOCAL dst"

text \<open>The loop over the subscriptions of one interface, left at the first that is served.\<close>

fun forward_subscr ::
    "env \<Rightarrow> u64 \<Rightarrow> in6_addr \<Rightarrow> nat \<Rightarrow> u16 \<Rightarrow> subscrnode list \<Rightarrow> world \<Rightarrow> world result" where
  "forward_subscr E ifindex src iph len [] w = Inr w"
| "forward_subscr E ifindex src iph len (s # ss) w =
     (if \<not> IN6_ARE_ADDR_EQUAL (sb_ipv6 s) in6addr_any \<and> \<not> IN6_ARE_ADDR_EQUAL (sb_ipv6 s) src
      then forward_subscr E ifindex src iph len ss w
      else if sb_mode s \<noteq> MODE_INCLUDE then forward_subscr E ifindex src iph len ss w
      else case int_find (ucast ifindex) w of
        None \<Rightarrow> forward_subscr E ifindex src iph len ss w
      | Some interface \<Rightarrow> sendpacket6 E interface (buffer w) iph len w)"

definition forward_grpint ::
    "env \<Rightarrow> nat \<Rightarrow> in6_addr \<Rightarrow> nat \<Rightarrow> u16 \<Rightarrow> grpintnode \<Rightarrow> world \<Rightarrow> world result" where
  "forward_grpint E i src iph len grpintn w =
     (if in_ifindex (ints w ! i) = gi_ifindex grpintn then Inr w
      else forward_subscr E (gi_ifindex grpintn) src iph len (nodes (gi_subscriptions grpintn)) w)"

definition l4_ipv6_multicast :: "env \<Rightarrow> nat \<Rightarrow> nat \<Rightarrow> u16 \<Rightarrow> world \<Rightarrow> world result" where
  "l4_ipv6_multicast E i iph len w =
     rbind (rd (buffer w) (iph + 8) 16) (\<lambda>src.
     rbind (rd (buffer w) (iph + 24) 16) (\<lambda>dst.
       if not_routed src dst then Inr w
       else case group_find (groups w) dst of
         None \<Rightarrow> Inr w
       | Some groupn \<Rightarrow>
          foldM (forward_grpint E i src iph len) (nodes (gr_interfaces groupn))
            (upd_group dst (\<lambda>g. g\<lparr>gr_bytes := gr_bytes g + ucast len, gr_packets := gr_packets g + 1\<rparr>) w)))"

section \<open>ICMPv6\<close>

definition icmpv6_interesting :: "u8 \<Rightarrow> bool" where
  "icmpv6_interesting t \<longleftrightarrow> t = ICMP6_MEMBERSHIP_REPORT \<or> t = ICMP6_MEMBERSHIP_REDUCTION \<or>
     t = ICMP6_V2_MEMBERSHIP_REPORT \<or> t = ICMP6_V2_MEMBERSHIP_REPORT_EXP \<or>
     t = ICMP6_MEMBERSHIP_QUERY \<or> t = ICMP6_ECHO_REQUEST"

text \<open>The decrement of the hop limit, which stays at zero.\<close>

definition dec_hlim :: "nat \<Rightarrow> world \<Rightarrow> (u8 \<times> world) result" where
  "dec_hlim iph w =
     rbind (rd8 (buffer w) (iph + 7)) (\<lambda>h.
       let h' = (if h > 0 then h - 1 else h) in
       rbind (wr (buffer w) (iph + 7) [h']) (\<lambda>b. Inr (h', w\<lparr>buffer := b\<rparr>)))"

text \<open>
  The checksum of the message is computed and left in the packet; a mismatch is logged, but
  the packet is processed all the same.
\<close>

definition icmpv6_rechecksum :: "nat \<Rightarrow> nat \<Rightarrow> u16 \<Rightarrow> world \<Rightarrow> world result" where
  "icmpv6_rechecksum iph icmpv6 plen w =
     rbind (rd16 (buffer w) (icmpv6 + 2)) (\<lambda>csum.
     rbind (wr16 (buffer w) (icmpv6 + 2) 0) (\<lambda>b0.
     rbind (ipv6_checksum_at b0 iph IPPROTO_ICMPV6 icmpv6 plen) (\<lambda>c.
     rbind (wr16 b0 (icmpv6 + 2) c) (\<lambda>b1. Inr (w\<lparr>buffer := b1\<rparr>)))))"

text \<open>An echo request is forwarded like data, or answered when its hop limit is used up.\<close>

definition icmpv6_echo :: "env \<Rightarrow> nat \<Rightarrow> nat \<Rightarrow> u16 \<Rightarrow> nat \<Rightarrow> u16 \<Rightarrow> world \<Rightarrow> world result" where
  "icmpv6_echo E i iph len icmpv6 plen w =
     rbind (dec_hlim iph w) (\<lambda>(hlim, w1).
       if hlim = 0 then
         rbind (rd (buffer w1) (iph + 8) 16) (\<lambda>src.
           icmp6_send E i src ICMP6_ECHO_REPLY ICMP6_TIME_EXCEED_TRANSIT (buffer w1) (icmpv6 + 4)
             (ucast (ucast plen - of_nat sizeof_icmp6_hdr + 4 :: u64))
             (w1\<lparr>stat_hlim_exceeded := stat_hlim_exceeded w1 + 1\<rparr>))
       else l4_ipv6_multicast E i iph len w1)"

text \<open>MLD messages are accepted from link-local sources only.\<close>

definition icmpv6_mld :: "env \<Rightarrow> nat \<Rightarrow> nat \<Rightarrow> nat \<Rightarrow> u16 \<Rightarrow> u8 \<Rightarrow> world \<Rightarrow> world result" where
  "icmpv6_mld E i iph icmpv6 plen t w =
     rbind (rd (buffer w) (iph + 8) 16) (\<lambda>src.
       if \<not> IN6_IS_ADDR_LINKLOCAL src then Inr w
       else if t = ICMP6_MEMBERSHIP_REPORT then l4_ipv6_icmpv6_mld1_report E i icmpv6 w
       else if t = ICMP6_MEMBERSHIP_REDUCTION then l4_ipv6_icmpv6_mld1_reduction E i icmpv6 w
       else if t = ICMP6_V2_MEMBERSHIP_REPORT \<or> t = ICMP6_V2_MEMBERSHIP_REPORT_EXP
         then l4_ipv6_icmpv6_mld2_report E i icmpv6 plen w
       else if t = ICMP6_MEMBERSHIP_QUERY then l4_ipv6_icmpv6_mld_query E i plen w
       else Inr w)"

definition l4_ipv6_icmpv6 :: "env \<Rightarrow> nat \<Rightarrow> nat \<Rightarrow> u16 \<Rightarrow> nat \<Rightarrow> u16 \<Rightarrow> world \<Rightarrow> world result" where
  "l4_ipv6_icmpv6 E i iph len icmpv6 plen w =
     (let w0 = upd_int i (\<lambda>n. n\<lparr>in_icmp_received := in_icmp_received n + 1\<rparr>)
                 (w\<lparr>stat_icmp_received := stat_icmp_received w + 1\<rparr>) in
      rbind (rd8 (buffer w0) icmpv6) (\<lambda>t.
        if \<not> icmpv6_interesting t then Inr w0
        else rbind (icmpv6_rechecksum iph icmpv6 plen w0) (\<lambda>w1.
          if t = ICMP6_ECHO_REQUEST then icmpv6_echo E i iph len icmpv6 plen w1
          else icmpv6_mld E i iph icmpv6 plen t w1)))"

section \<open>IPv6 and the layer below\<close>

definition ext_header :: "u8 \<Rightarrow> bool" where
  "ext_header t \<longleftrightarrow> t = IPPROTO_HOPOPTS \<or> t = IPPROTO_ROUTING \<or> t = IPPROTO_DSTOPTS \<or> t = IPPROTO_AH"

text \<open>
  The walk along the extension headers; \<open>None\<close> when it leaves the packet. The remaining
  payload length is taken modulo \<open>2 ^ 16\<close>.
\<close>

function skip_headers :: "bytes \<Rightarrow> nat \<Rightarrow> nat \<Rightarrow> u8 \<Rightarrow> u16 \<Rightarrow> (u8 \<times> nat \<times> u16) option result" where
  "skip_headers buf stop ipe t plen =
     (if \<not> ext_header t then Inr (Some (t, ipe, plen))
      else rbind (rd8 buf ipe) (\<lambda>nxt.
           rbind (rd8 buf (ipe + 1)) (\<lambda>l8.
             let l = unat l8 * 8 + 8 in
             if ipe + l > stop then Inr None
             else skip_headers buf stop (ipe + l) nxt (plen - of_nat l))))"
  by pat_completeness auto
termination
  by (relation "measure (\<lambda>(buf, stop, ipe, t, plen). stop - ipe)") auto

declare skip_headers.simps [simp del]

definition l3_ipv6 :: "env \<Rightarrow> nat \<Rightarrow> nat \<Rightarrow> u16 \<Rightarrow> world \<Rightarrow> world result" where
  "l3_ipv6 E i iph len w =
     rbind (rd (buffer w) (iph + 24) 16) (\<lambda>dst.
       if \<not> IN6_IS_ADDR_MULTICAST dst then Inr w
       else rbind (rd (buffer w) (iph + 8) 16) (\<lambda>src.
         if src = in_linklocal (ints w ! i) \<or> src = in_global (ints w ! i) then Inr w
         else rbind (rd8 (buffer w) (iph + 6)) (\<lambda>nxt.
              rbind (rd16 (buffer w) (iph + 4)) (\<lambda>pl.
              rbind (skip_headers (buffer w) (iph + unat len) (iph + sizeof_ip6_hdr) nxt (ntohs pl)) (\<lambda>r.
                case r of
                  None \<Rightarrow> Inr w
                | Some (t, ipe, plen) \<Rightarrow>
                   if t = IPPROTO_ICMPV6 then l4_ipv6_icmpv6 E i iph len ipe plen w
                   else rbind (dec_hlim iph w) (\<lambda>(hlim, w1).
                     if hlim = 0 then Inr (w1\<lparr>stat_hlim_exceeded := stat_hlim_exceeded w1 + 1\<rparr>)
                     else l4_ipv6_multicast E i iph len w1))))))"

text \<open>
  In the Linux build \<open>l3_ipv4\<close> only looks at the header: version, header length and total length,
  then whether an address is that of the 6to4 relay.
\<close>

definition ipv4_6to4_relay :: bytes where "ipv4_6to4_relay = [192, 88, 99, 1]"

definition l3_ipv4 :: "nat \<Rightarrow> u16 \<Rightarrow> world \<Rightarrow> world result" where
  "l3_ipv4 iph len w =
     rbind (rd8 (buffer w) iph) (\<lambda>vhl.
       if drop_bit 4 vhl \<noteq> 4 then Inr w
       else if vhl AND 0xf < 5 then Inr w
       else rbind (rd16 (buffer w) (iph + 2)) (\<lambda>_.
            rbind (rd (buffer w) (iph + 12) 4) (\<lambda>src.
              if src = ipv4_6to4_relay then Inr w
              else rbind (rd (buffer w) (iph + 16) 4) (\<lambda>dst.
                if dst = ipv4_6to4_relay then Inr w else Inr w))))"

definition l2_ethtype :: "env \<Rightarrow> nat \<Rightarrow> nat \<Rightarrow> u32 \<Rightarrow> u32 \<Rightarrow> world \<Rightarrow> world result" where
  "l2_ethtype E i packet len ether_type w =
     (if ether_type = ucast ETH_P_IP then l3_ipv4 packet (ucast len) w
      else if ether_type = ucast ETH_P_IPV6 then l3_ipv6 E i packet (ucast len) w
      else Inr w)"

section \<open>Who receives a packet\<close>

text \<open>
  The specification: an interface other than the incoming one gets the packet when it is in use
  and one of its subscriptions includes the source.
\<close>

definition wants :: "in6_addr \<Rightarrow> grpintnode \<Rightarrow> bool" where
  "wants src gi \<longleftrightarrow> (\<exists>s \<in> set (nodes (gi_subscriptions gi)).
     (sb_ipv6 s = in6addr_any \<or> sb_ipv6 s = src) \<and> sb_mode s = MODE_INCLUDE)"

definition receives :: "world \<Rightarrow> nat \<Rightarrow> in6_addr \<Rightarrow> grpintnode \<Rightarrow> bool" where
  "receives w i src gi \<longleftrightarrow> gi_ifindex gi \<noteq> in_ifindex (ints w ! i) \<and> wants src gi \<and>
     int_find (ucast (gi_ifindex gi)) w \<noteq> None"

definition copy_for :: "world \<Rightarrow> nat \<Rightarrow> u16 \<Rightarrow> grpintnode \<Rightarrow> transmission" where
  "copy_for w iph len gi = (link_addr (ints w ! unat (ucast (gi_ifindex gi) :: u32))
       (take 4 (drop (iph + 36) (buffer w))), take (unat len) (drop iph (buffer w)))"

lemma forward_subscr_eq: "forward_subscr E k src iph len ss w =
    (case int_find (ucast k) w of
       Some j \<Rightarrow> if \<exists>s \<in> set ss. (sb_ipv6 s = in6addr_any \<or> sb_ipv6 s = src) \<and> sb_mode s = MODE_INCLUDE
                then sendpacket6 E j (buffer w) iph len w else Inr w
     | None \<Rightarrow> Inr w)"
  by (induction ss) (auto simp: IN6_ARE_ADDR_EQUAL_def split: option.splits)

lemma sendpacket6_other:
  "sendpacket6 E j obj iph len w = Inr w' \<Longrightarrow> k \<noteq> j \<Longrightarrow> ints w' ! k = ints w ! k"
  by (auto simp: sendpacket6_def sendpacket6_done_def Let_def int_destroy_def upd_int_def split: sendres.splits)
    (metis sendres.exhaust)

lemma int_find_cong:
  "ints w' ! unat k = ints w ! unat k \<Longrightarrow> maxinterfaces w' = maxinterfaces w \<Longrightarrow> int_find k w' = int_find k w"
  by (simp add: int_find_def)

lemma int_find_unat: "int_find k w = Some j \<Longrightarrow> j = unat k"
  by (auto simp: int_find_def split: if_splits)

lemma link_addr_sends: "int_sends n n' \<Longrightarrow> link_addr n' a = link_addr n a"
  by (simp add: link_addr_def int_sends_fields)

text \<open>One interface of the group.\<close>

lemma forward_grpint_spec:
  assumes "sends w u" and "i < length (ints w)" and "iph + 40 \<le> length (buffer w)"
    and "iph + unat len \<le> length (buffer w)" and "ints_ok w"
    and "int_find (ucast (gi_ifindex gi)) u = int_find (ucast (gi_ifindex gi)) w"
  shows "\<exists>u'. forward_grpint E i src iph len gi u = Inr u' \<and> sends w u' \<and>
    w_sent u' = w_sent u @ (if receives w i src gi then [copy_for w iph len gi] else []) \<and>
    (\<forall>k. k \<noteq> unat (ucast (gi_ifindex gi) :: u32) \<longrightarrow> ints u' ! k = ints u ! k)"
proof -
  have ix: "in_ifindex (ints u ! i) = in_ifindex (ints w ! i)"
    using int_sends_fields(1) [OF sends_nth [OF assms(1,2)]] .
  show ?thesis
  proof (cases "receives w i src gi")
    case False
    then have "forward_grpint E i src iph len gi u = Inr u"
      using ix assms(6) by (auto simp: receives_def wants_def forward_grpint_def forward_subscr_eq split: option.splits)
    with False assms(1) show ?thesis by simp
  next
    case True
    then obtain j where j: "int_find (ucast (gi_ifindex gi)) w = Some j" by (auto simp: receives_def)
    note jj = int_find_Some(1,2) [OF assms(5) j]
    have "forward_grpint E i src iph len gi u = sendpacket6 E j (buffer w) iph len u"
      using True ix assms(6) j sends_fields(4) [OF assms(1)]
      by (auto simp: receives_def wants_def forward_grpint_def forward_subscr_eq split: option.splits)
    moreover obtain u' where u': "sendpacket6 E j (buffer w) iph len u = Inr u'" "sends u u'"
      "w_sent u' = w_sent u @ [(link_addr (ints u ! j) (take 4 (drop (iph + 36) (buffer w))),
                               take (unat len) (drop iph (buffer w)))]"
      using sendpacket6_Inr [OF assms(3,4), of E j u] by blast
    moreover have "link_addr (ints u ! j) a = link_addr (ints w ! j) a" for a
      using link_addr_sends [OF sends_nth [OF assms(1) jj(2)]] .
    ultimately show ?thesis
      using True sendpacket6_other [OF u'(1)] sends_trans [OF assms(1) u'(2)] jj(1)
      by (auto simp: copy_for_def)
  qed
qed

lemma forward_loop:
  assumes "sends w u" and "i < length (ints w)" and "iph + 40 \<le> length (buffer w)"
    and "iph + unat len \<le> length (buffer w)" and "ints_ok w"
    and "distinct (map (\<lambda>gi. ucast (gi_ifindex gi) :: u32) gis)"
    and "\<forall>gi \<in> set gis. ints u ! unat (ucast (gi_ifindex gi) :: u32) = ints w ! unat (ucast (gi_ifindex gi) :: u32)"
  shows "\<exists>u'. foldM (forward_grpint E i src iph len) gis u = Inr u' \<and> sends w u' \<and>
    w_sent u' = w_sent u @ map (copy_for w iph len) (filter (receives w i src) gis)"
  using assms(1,6,7)
proof (induction gis arbitrary: u)
  case (Cons gi gis)
  have "int_find (ucast (gi_ifindex gi)) u = int_find (ucast (gi_ifindex gi)) w"
    using Cons.prems(1,3) by (intro int_find_cong) (simp_all add: sends_fields)
  from forward_grpint_spec [OF Cons.prems(1) assms(2-5) this, of E src] obtain v where
    v: "forward_grpint E i src iph len gi u = Inr v" "sends w v"
      "w_sent v = w_sent u @ (if receives w i src gi then [copy_for w iph len gi] else [])"
      "\<forall>k. k \<noteq> unat (ucast (gi_ifindex gi) :: u32) \<longrightarrow> ints v ! k = ints u ! k" by blast
  have "\<forall>g \<in> set gis. ints v ! unat (ucast (gi_ifindex g) :: u32) = ints w ! unat (ucast (gi_ifindex g) :: u32)"
    using v(4) Cons.prems(2,3) by (auto simp: image_iff) (metis word_unat_eq_iff)
  with Cons.IH [OF v(2)] Cons.prems(2) v(1,3) show ?case by auto
qed simp

text \<open>The whole function.\<close>

lemma upd_group_counters:
  fixes f :: "groupnode \<Rightarrow> groupnode"
  assumes "\<And>g. gr_mca (f g) = gr_mca g \<and> gr_interfaces (f g) = gr_interfaces g"
  shows "grpint_of (upd_group dst f w) = grpint_of w" and "membership (upd_group dst f w) = membership w"
    and "groups_ok (groups w) \<Longrightarrow> groups_ok (groups (upd_group dst f w))"
proof -
  show g: "grpint_of (upd_group dst f w) = grpint_of w"
    using assms by (auto simp: grpint_of_def grps.tfind_upd fun_eq_iff split: option.splits)
  then show "membership (upd_group dst f w) = membership w"
    by (simp add: membership_def fun_eq_iff)
  show "groups_ok (groups (upd_group dst f w))" if "groups_ok (groups w)"
    using that assms groups_okD [OF that]
    by (auto simp: group_ok_def intro!: groups_ok_upd)
qed

lemma multicast_inside:
  assumes "iph + 40 \<le> length (buffer w)"
  shows "l4_ipv6_multicast E i iph len w =
    (let src = take 16 (drop (iph + 8) (buffer w)); dst = take 16 (drop (iph + 24) (buffer w)) in
     if not_routed src dst then Inr w
     else case group_find (groups w) dst of
         None \<Rightarrow> Inr w
       | Some groupn \<Rightarrow>
          foldM (forward_grpint E i src iph len) (nodes (gr_interfaces groupn))
            (upd_group dst (\<lambda>g. g\<lparr>gr_bytes := gr_bytes g + ucast len, gr_packets := gr_packets g + 1\<rparr>) w))"
  using assms by (simp add: l4_ipv6_multicast_def rd_Inr Let_def)

text \<open>Which interfaces a packet goes to, in the order of the group's list.\<close>

definition receivers :: "world \<Rightarrow> nat \<Rightarrow> nat \<Rightarrow> grpintnode list" where
  "receivers w i iph =
     (let src = take 16 (drop (iph + 8) (buffer w)); dst = take 16 (drop (iph + 24) (buffer w)) in
      if not_routed src dst then []
      else case group_find (groups w) dst of None \<Rightarrow> []
        | Some g \<Rightarrow> filter (receives w i src) (nodes (gr_interfaces g)))"

text \<open>An interface index of the system fits \<open>unsigned int\<close>.\<close>

definition indices_fit :: "world \<Rightarrow> bool" where
  "indices_fit w \<longleftrightarrow> (\<forall>g \<in> set (nodes (groups w)). \<forall>gi \<in> set (nodes (gr_interfaces g)).
     unat (gi_ifindex gi) < 2 ^ 32)"

lemma ucast_inj:
  assumes "unat (a :: u64) < 2 ^ 32" "unat b < 2 ^ 32" "(ucast a :: u32) = ucast b"
  shows "a = b"
proof -
  have "unat (ucast a :: u32) = unat a" "unat (ucast b :: u32) = unat b"
    using assms(1,2) by (simp_all add: unsigned_ucast_eq take_bit_nat_eq_self)
  with assms(3) show ?thesis by (simp add: word_unat_eq_iff)
qed

lemma indices_distinct:
  assumes "groups_ok (groups w)" and "indices_fit w" and "group_find (groups w) dst = Some g"
  shows "distinct (map (\<lambda>gi. ucast (gi_ifindex gi) :: u32) (nodes (gr_interfaces g)))"
proof -
  have g: "group_ok g" "g \<in> set (nodes (groups w))"
    using groups_okD [OF assms(1,3)] grps.tfind_SomeD [OF assms(3)] by auto
  then have "distinct (map gi_ifindex (nodes (gr_interfaces g)))"
    by (simp add: group_ok_def grpints_ok_def)
  moreover have "inj_on (\<lambda>gi. ucast (gi_ifindex gi) :: u32) (set (nodes (gr_interfaces g)))"
    if "inj_on gi_ifindex (set (nodes (gr_interfaces g)))"
    using that assms(2) g(2) unfolding inj_on_def indices_fit_def by (metis ucast_inj)
  ultimately show ?thesis by (simp add: distinct_map)
qed

lemma multicast_spec:
  assumes "tables_ok w" and "indices_fit w" and "i < length (ints w)"
    and "iph + 40 \<le> length (buffer w)" and "iph + unat len \<le> length (buffer w)"
  shows "\<exists>w'. l4_ipv6_multicast E i iph len w = Inr w' \<and> tables_ok w' \<and> membership w' = membership w \<and>
    w_sent w' = w_sent w @ map (copy_for w iph len) (receivers w i iph)"
proof -
  define src dst where "src = take 16 (drop (iph + 8) (buffer w))" and "dst = take 16 (drop (iph + 24) (buffer w))"
  show ?thesis
  proof (cases "not_routed src dst \<or> group_find (groups w) dst = None")
    case True
    then have "l4_ipv6_multicast E i iph len w = Inr w" "receivers w i iph = []"
      using multicast_inside [OF assms(4), of E i len] by (auto simp: receivers_def src_def dst_def Let_def)
    with assms(1) show ?thesis by simp
  next
    case False
    then obtain g where g: "group_find (groups w) dst = Some g" by auto
    define f where "f = (\<lambda>g :: groupnode. g\<lparr>gr_bytes := gr_bytes g + ucast len, gr_packets := gr_packets g + 1\<rparr>)"
    define u where "u = upd_group dst f w"
    have f: "gr_mca (f g) = gr_mca g \<and> gr_interfaces (f g) = gr_interfaces g" for g by (simp add: f_def)
    note u = upd_group_counters [of f, OF f, where dst = dst and w = w, folded u_def]
    have same: "ints u = ints w" "buffer u = buffer w" "maxinterfaces u = maxinterfaces w" "w_sent u = w_sent w"
      by (simp_all add: u_def upd_group_def)
    have ok: "tables_ok u" using assms(1) u(3) same by (auto simp: tables_ok_def intro: ints_ok_frame)
    have "\<exists>u'. foldM (forward_grpint E i src iph len) (nodes (gr_interfaces g)) u = Inr u' \<and> sends u u' \<and>
        w_sent u' = w_sent u @ map (copy_for u iph len) (filter (receives u i src) (nodes (gr_interfaces g)))"
      using assms ok same indices_distinct [OF _ assms(2) g]
      by (intro forward_loop) (simp_all add: tables_ok_def)
    then obtain u' where u': "foldM (forward_grpint E i src iph len) (nodes (gr_interfaces g)) u = Inr u'" "sends u u'"
        "w_sent u' = w_sent u @ map (copy_for u iph len) (filter (receives u i src) (nodes (gr_interfaces g)))" by blast
    have "copy_for u iph len = copy_for w iph len" "receives u i src = receives w i src"
      by (simp_all add: copy_for_def receives_def int_find_def same fun_eq_iff)
    then have "w_sent u' = w_sent w @ map (copy_for w iph len) (receivers w i iph)"
      using u'(3) same(4) False g by (simp add: receivers_def Let_def src_def dst_def)
    moreover have "l4_ipv6_multicast E i iph len w = Inr u'"
      unfolding multicast_inside [OF assms(4), of E i len, unfolded Let_def, folded src_def dst_def f_def, folded u_def]
      using False g u'(1) by simp
    moreover have "tables_ok u'" by (rule inv_sends [OF u'(2) ok])
    moreover have "membership u' = membership w" using sends_membership [OF u'(2)] u(2) by simp
    ultimately show ?thesis by (intro exI [of _ u'] conjI)
  qed
qed

end
