(* ===== verification/Update_Ifaces.thy ===== *)
theory Update_Ifaces
  imports Mld_Recv
begin

text \<open>
  \<open>update_interfaces\<close>: the walk along the addresses that \<open>getifaddrs\<close> reports, at most once in
  five minutes, which enters interfaces into the array and notes their link-local and global
  addresses. For an address that is not IPv6 the code copies sixteen bytes out of the four bytes of
  \<open>sin_addr\<close> in a local \<open>struct sockaddr_in\<close>, four of them from behind it: a fault, unless the platform lets
  them be read. In this build they are used for nothing.
\<close>

section \<open>The code\<close>

definition IFF_UP :: u32 where [layout]: "IFF_UP = 0x1"
definition IFF_LOOPBACK :: u32 where [layout]: "IFF_LOOPBACK = 0x8"
definition IFF_RUNNING :: u32 where [layout]: "IFF_RUNNING = 0x40"

definition ifa_ignored :: "u32 \<Rightarrow> ifaddr_sa \<Rightarrow> bool" where
  "ifa_ignored flags sa \<longleftrightarrow> flags AND IFF_LOOPBACK = IFF_LOOPBACK \<or> flags AND IFF_UP \<noteq> IFF_UP \<or>
     flags AND IFF_RUNNING \<noteq> IFF_RUNNING \<or> sa = SA_PACKET"

text \<open>Addresses that say nothing about the interface.\<close>

definition ifa_skipped :: "ifaddr_sa \<Rightarrow> bool" where
  "ifa_skipped sa = (case sa of
       SA_INET6 a \<Rightarrow> \<not> IN6_IS_ADDR_LINKLOCAL a \<and>
         (IN6_IS_ADDR_UNSPECIFIED a \<or> IN6_IS_ADDR_LOOPBACK a \<or> IN6_IS_ADDR_MULTICAST a)
     | _ \<Rightarrow> False)"

text \<open>The copy out of \<open>sin_addr\<close>, which is made for every address that is not IPv6.\<close>

definition ifa_overreads :: "env \<Rightarrow> ifaddr_sa \<Rightarrow> bool" where
  "ifa_overreads E sa \<longleftrightarrow> \<not> env_behind E \<and> (case sa of SA_INET6 a \<Rightarrow> False | _ \<Rightarrow> True)"

text \<open>The variables of the loop: \<open>gotlinkl\<close>, \<open>gotglobal\<close> and the state.\<close>

type_synonym ifa_state = "bool \<times> bool \<times> world"

definition update_addr :: "ifaddr_sa \<Rightarrow> nat \<Rightarrow> ifa_state \<Rightarrow> ifa_state" where
  "update_addr sa i = (\<lambda>(gotlinkl, gotglobal, w).
     case sa of
       SA_INET6 a \<Rightarrow>
         if IN6_IS_ADDR_LINKLOCAL a then (True, gotglobal, upd_int i (\<lambda>n. n\<lparr>in_linklocal := a\<rparr>) w)
         else (gotlinkl, True, upd_int i (\<lambda>n. n\<lparr>in_global := a\<rparr>) w)
     | _ \<Rightarrow> (gotlinkl, gotglobal, w))"

text \<open>The round of the loop for one address of a system-wide update.\<close>

definition update_any :: "env \<Rightarrow> ifaddr_sa \<Rightarrow> u32 \<Rightarrow> world \<Rightarrow> world result" where
  "update_any E sa ifindex w =
     rbind (case int_find ifindex w of
         Some i \<Rightarrow> Inr (Some i, False, w)
       | None \<Rightarrow> rbind (int_create E ifindex w) (\<lambda>(r, w1). Inr (r, r \<noteq> None, w1)))
       (\<lambda>(intn, newintn, w1). Inr (case intn of
          None \<Rightarrow> w1
        | Some i \<Rightarrow> (case update_addr sa i (False, False, w1) of (gotlinkl, gotglobal, w2) \<Rightarrow>
            if newintn \<and> \<not> (gotlinkl \<or> gotglobal) then int_destroy i w2 else w2)))"

fun update_loop :: "env \<Rightarrow> nat option \<Rightarrow> ifaddr list \<Rightarrow> ifa_state \<Rightarrow> world result" where
  "update_loop E specific [] (gotlinkl, gotglobal, w) = Inr w"
| "update_loop E specific (ifa # ifas) (gotlinkl, gotglobal, w) =
     (case ifa_addr ifa of
        None \<Rightarrow> update_loop E specific ifas (gotlinkl, gotglobal, w)
      | Some sa \<Rightarrow>
         if ifa_ignored (ifa_flags ifa) sa then update_loop E specific ifas (gotlinkl, gotglobal, w)
         else if ifa_overreads E sa then Inl OutOfBounds
         else if ifa_skipped sa then update_loop E specific ifas (gotlinkl, gotglobal, w)
         else (let ifindex = env_nametoindex E (ifa_name ifa) in
           case specific of
             Some i \<Rightarrow>
               if in_ifindex (ints w ! i) = ucast ifindex
               then update_loop E specific ifas (gotlinkl, gotglobal, w)
               else (case update_addr sa i (gotlinkl, gotglobal, w) of (l, g, w1) \<Rightarrow>
                 if l \<and> g then Inr w1 else update_loop E specific ifas (l, g, w1))
           | None \<Rightarrow> rbind (update_any E sa ifindex w) (\<lambda>w1.
               update_loop E specific ifas (gotlinkl, gotglobal, w1))))"

definition update_interfaces :: "env \<Rightarrow> nat option \<Rightarrow> world \<Rightarrow> world result" where
  "update_interfaces E intn w =
     (let t = gettimes w in
      if w_last_update w + 5 * 60 > t then Inr w
      else (let w1 = w\<lparr>w_last_update := t\<rparr> in
        case env_getifaddrs E of
          None \<Rightarrow> Inr w1
        | Some ifas \<Rightarrow> update_loop E intn ifas (False, False, w1)))"

section \<open>What the update keeps\<close>

text \<open>The system's IPv6 addresses have sixteen bytes.\<close>

definition sa_ok :: "ifaddr_sa \<Rightarrow> bool" where
  "sa_ok sa = (case sa of SA_INET6 a \<Rightarrow> addr_wf a | _ \<Rightarrow> True)"

definition ifa_ok :: "ifaddr \<Rightarrow> bool" where
  "ifa_ok ifa = (case ifa_addr ifa of None \<Rightarrow> True | Some sa \<Rightarrow> sa_ok sa)"

definition env_ok :: "env \<Rightarrow> bool" where
  "env_ok E = (case env_getifaddrs E of None \<Rightarrow> True | Some ifas \<Rightarrow> list_all ifa_ok ifas)"

text \<open>
  No interface has the largest index, for which the size of the array wraps around, and the copy out of
  \<open>sin_addr\<close> is not made or reads what the platform lets be read.
\<close>

definition ifa_copied :: "env \<Rightarrow> ifaddr \<Rightarrow> bool" where
  "ifa_copied E ifa = (case ifa_addr ifa of None \<Rightarrow> True
     | Some sa \<Rightarrow> ifa_ignored (ifa_flags ifa) sa \<or> \<not> ifa_overreads E sa)"

definition discovery_ok :: "env \<Rightarrow> bool" where
  "discovery_ok E = (case env_getifaddrs E of None \<Rightarrow> True
     | Some ifas \<Rightarrow> list_all (\<lambda>ifa. env_nametoindex E (ifa_name ifa) \<noteq> - 1 \<and> ifa_copied E ifa) ifas)"

definition grown :: "world \<Rightarrow> world \<Rightarrow> bool" where
  "grown w w' \<longleftrightarrow> ints_ok w' \<and> same_but_ints w w' \<and> length (ints w) \<le> length (ints w') \<and>
     (w_calloc w = [] \<longrightarrow> w_calloc w' = [])"

lemma same_but_ints_trans: "same_but_ints u v \<Longrightarrow> same_but_ints v w \<Longrightarrow> same_but_ints u w"
  by (simp add: same_but_ints_def)

lemma same_but_ints_refl [simp]: "same_but_ints w w"
  by (simp add: same_but_ints_def)

lemma grown_refl: "ints_ok w \<Longrightarrow> grown w w"
  by (simp add: grown_def)

lemma grown_trans: "grown u v \<Longrightarrow> grown v w \<Longrightarrow> grown u w"
  by (auto simp: grown_def intro: same_but_ints_trans)

lemma grown_upd:
  assumes "ints_ok w" and "\<And>n. int_ok i n \<Longrightarrow> int_ok i (f n)"
  shows "grown w (upd_int i f w)"
  using assms by (auto simp: grown_def intro!: ints_ok_upd int_ok_nth)

lemma grown_update_addr:
  assumes "ints_ok w" and "sa_ok sa" and "update_addr sa i (l, g, w) = (l', g', w')"
  shows "grown w w'"
  using assms by (auto simp: update_addr_def sa_ok_def grown_refl int_ok_def intro!: grown_upd
      split: ifaddr_sa.splits if_splits)

lemma int_create_grown:
  assumes "ints_ok w" and "int_create E k w = Inr (r, w')"
  shows "grown w w'"
proof -
  have len: "length (ints w) \<le> length (ints w1) \<and> (w_calloc w = [] \<longrightarrow> w_calloc w1 = [])"
    if "int_resize k w = Inr w1" for w1
    using that by (auto simp: int_resize_def calloc_def split: if_splits list.splits bool.splits)
  have entry: "length (ints w2) = length (ints w1) \<and> w_calloc w2 = w_calloc w1"
    if "int_setup E k w1 = (r, w2)" for r w1 w2
    using that by (auto simp: int_setup_def int_destroy_def Let_def split: option.splits if_splits)
  from assms(2) obtain w1 f where w1: "int_resize k w = Inr w1"
      "w' = w1 \<or> int_setup E k (upd_int (unat k) f w1) = (r, w')"
    by (auto simp: int_create_def split: if_splits)
  with len [OF w1(1)] have "length (ints w) \<le> length (ints w') \<and> (w_calloc w = [] \<longrightarrow> w_calloc w' = [])"
    by (auto dest!: entry)
  with int_create_ok(1) [OF assms] int_create_same [OF assms(2)] show ?thesis by (simp add: grown_def)
qed

lemma grown_destroy: "ints_ok w \<Longrightarrow> grown w (int_destroy i w)"
  unfolding int_destroy_def by (rule grown_upd) (simp_all add: int_ok_def)

lemma update_any_grown:
  assumes "ints_ok w" and "sa_ok sa" and "update_any E sa k w = Inr w'"
  shows "grown w w'"
proof -
  from assms(3) obtain intn new w1 where w1: "(case int_find k w of Some i \<Rightarrow> Inr (Some i, False, w)
       | None \<Rightarrow> rbind (int_create E k w) (\<lambda>(r, w1). Inr (r, r \<noteq> None, w1))) = Inr (intn, new, w1)"
    and w': "w' = (case intn of None \<Rightarrow> w1
        | Some i \<Rightarrow> (case update_addr sa i (False, False, w1) of (l, g, w2) \<Rightarrow>
            if new \<and> \<not> (l \<or> g) then int_destroy i w2 else w2))"
    unfolding update_any_def by auto
  from w1 have g1: "grown w w1"
    using assms(1) by (auto simp: grown_refl split: option.splits dest: int_create_grown)
  then have ok1: "ints_ok w1" by (simp add: grown_def)
  show ?thesis
  proof (cases intn)
    case (Some i)
    obtain l g w2 where u: "update_addr sa i (False, False, w1) = (l, g, w2)" by (cases "update_addr sa i (False, False, w1)")
    have g2: "grown w1 w2" by (rule grown_update_addr [OF ok1 assms(2) u])
    then have "grown w2 (int_destroy i w2)" by (intro grown_destroy) (simp add: grown_def)
    with w' Some u g1 g2 show ?thesis by (auto intro: grown_trans)
  qed (use w' g1 in simp)
qed

lemma update_any_total:
  assumes "ints_ok w" and "w_calloc w = []" and "k \<noteq> - 1"
  shows "\<exists>w'. update_any E sa k w = Inr w'"
  using int_create_total [OF assms, of E] by (auto simp: update_any_def split: option.split)

lemma update_loop_grown:
  assumes "ints_ok w" and "list_all ifa_ok ifas" and "update_loop E specific ifas (l, g, w) = Inr w'"
  shows "grown w w'"
  using assms
proof (induction ifas arbitrary: l g w)
  case (Cons ifa ifas)
  show ?case
  proof (cases "\<exists>sa. ifa_addr ifa = Some sa \<and> \<not> (ifa_ignored (ifa_flags ifa) sa \<or> ifa_skipped sa)")
    case False
    with Cons show ?thesis by (auto simp: ifa_copied_def split: option.splits if_splits)
  next
    case True
    then obtain sa where sa: "ifa_addr ifa = Some sa" "\<not> (ifa_ignored (ifa_flags ifa) sa \<or> ifa_skipped sa)" by blast
    have ok: "sa_ok sa" using Cons.prems(2) sa(1) by (simp add: ifa_ok_def)
    show ?thesis
    proof (cases specific)
      case None
      with Cons.prems(3) sa obtain w1 where "update_any E sa (env_nametoindex E (ifa_name ifa)) w = Inr w1"
        "update_loop E specific ifas (l, g, w1) = Inr w'" by (auto simp: Let_def split: if_splits)
      then have "grown w w1" "grown w1 w'"
        using Cons.IH [of w1] Cons.prems(2) update_any_grown [OF Cons.prems(1) ok] by (simp_all add: grown_def)
      then show ?thesis by (rule grown_trans)
    next
      case (Some i)
      obtain l1 g1 w1 where u: "update_addr sa i (l, g, w) = (l1, g1, w1)" by (cases "update_addr sa i (l, g, w)")
      have "grown w w1" by (rule grown_update_addr [OF Cons.prems(1) ok u])
      moreover have "w' = w1 \<or> update_loop E specific ifas (l, g, w) = Inr w' \<or>
          update_loop E specific ifas (l1, g1, w1) = Inr w'"
        using Cons.prems(3) sa Some u by (simp add: Let_def split: if_splits)
      then have "w' = w1 \<or> grown w w' \<or> (ints_ok w1 \<longrightarrow> grown w1 w')"
        using Cons.IH [of w l g] Cons.IH [of w1 l1 g1] Cons.prems(1,2) by (elim disjE) simp_all
      ultimately show ?thesis by (auto simp: grown_def intro: same_but_ints_trans)
    qed
  qed
qed (simp add: grown_refl)

lemma update_interfaces_grown:
  assumes "ints_ok w" and "env_ok E" and "update_interfaces E intn w = Inr w'"
  shows "grown (w\<lparr>w_last_update := w_last_update w'\<rparr>) w'"
proof (cases "env_getifaddrs E")
  case None
  with assms show ?thesis
    by (auto simp: update_interfaces_def Let_def intro!: grown_refl ints_ok_frame [OF assms(1)] split: if_splits)
next
  case (Some ifas)
  define u where "u = w\<lparr>w_last_update := gettimes w\<rparr>"
  have ok: "ints_ok u" by (rule ints_ok_frame [OF assms(1)]) (simp_all add: u_def)
  have "w' = w \<or> update_loop E intn ifas (False, False, u) = Inr w'"
    using assms(3) Some by (simp add: update_interfaces_def Let_def u_def split: if_splits)
  then show ?thesis
  proof
    assume "w' = w" with assms(1) show ?thesis by (simp add: grown_refl)
  next
    assume "update_loop E intn ifas (False, False, u) = Inr w'"
    with update_loop_grown [OF ok] assms(2) Some have g: "grown u w'" by (simp add: env_ok_def)
    then have "w_last_update w' = w_last_update u" by (simp add: grown_def same_but_ints_def)
    with g show ?thesis by (simp add: u_def)
  qed
qed

lemma update_interfaces_inv:
  assumes "tables_ok w" and "env_ok E" and "update_interfaces E intn w = Inr w'"
  shows "tables_ok w'" and "membership w' = membership w" and "length (ints w) \<le> length (ints w')"
    and "buffer w' = buffer w" and "bufferlen w' = bufferlen w" and "w_now w' = w_now w"
    and "w_sent w' = w_sent w" and "mld1only w' = mld1only w" and "mld2only w' = mld2only w"
    and "groups w' = groups w" and "w_calloc w = [] \<Longrightarrow> w_calloc w' = []"
  using update_interfaces_grown [OF _ assms(2,3)] assms(1)
  by (auto simp: grown_def tables_ok_def same_but_ints_def membership_def grpint_of_def fun_eq_iff)

section \<open>Totality and the rate limit\<close>

lemma update_loop_total:
  assumes "ints_ok w" and "w_calloc w = []" and "list_all ifa_ok ifas"
    and "list_all (\<lambda>ifa. env_nametoindex E (ifa_name ifa) \<noteq> - 1 \<and> ifa_copied E ifa) ifas"
  shows "\<exists>w'. update_loop E specific ifas (l, g, w) = Inr w'"
  using assms
proof (induction ifas arbitrary: l g w)
  case (Cons ifa ifas)
  show ?case
  proof (cases "\<exists>sa. ifa_addr ifa = Some sa \<and> \<not> (ifa_ignored (ifa_flags ifa) sa \<or> ifa_skipped sa)")
    case False
    with Cons show ?thesis by (auto simp: ifa_copied_def split: option.splits if_splits)
  next
    case True
    then obtain sa where sa: "ifa_addr ifa = Some sa" "\<not> (ifa_ignored (ifa_flags ifa) sa \<or> ifa_skipped sa)" by blast
    have ok: "sa_ok sa" using Cons.prems(3) sa(1) by (simp add: ifa_ok_def)
    have copied: "\<not> ifa_overreads E sa" using Cons.prems(4) sa by (simp add: ifa_copied_def)
    show ?thesis
    proof (cases specific)
      case None
      obtain w1 where w1: "update_any E sa (env_nametoindex E (ifa_name ifa)) w = Inr w1"
        using update_any_total [OF Cons.prems(1,2)] Cons.prems(4) by fastforce
      with update_any_grown [OF Cons.prems(1) ok w1] Cons sa None copied show ?thesis
        by (auto simp: Let_def grown_def)
    next
      case (Some i)
      obtain l1 g1 w1 where u: "update_addr sa i (l, g, w) = (l1, g1, w1)" by (cases "update_addr sa i (l, g, w)")
      with grown_update_addr [OF Cons.prems(1) ok u] Cons sa Some copied show ?thesis
        by (auto simp: Let_def grown_def)
    qed
  qed
qed simp

lemma update_interfaces_total:
  assumes "ints_ok w" and "w_calloc w = []" and "env_ok E" and "discovery_ok E"
  shows "\<exists>w'. update_interfaces E intn w = Inr w'"
proof -
  have "ints_ok (w\<lparr>w_last_update := gettimes w\<rparr>)" using assms(1) by (auto intro: ints_ok_frame)
  with assms(2-4) update_loop_total [of "w\<lparr>w_last_update := gettimes w\<rparr>"] show ?thesis
    by (auto simp: update_interfaces_def Let_def env_ok_def discovery_ok_def split: option.splits)
qed

text \<open>A second update in the same five minutes does nothing.\<close>

lemma update_interfaces_limited:
  assumes "w_last_update w + 300 > w_now w"
  shows "update_interfaces E intn w = Inr w"
  using assms by (simp add: update_interfaces_def gettimes_def Let_def)

text \<open>
  The update for one interface passes over the addresses of this very interface: only the
  addresses of others are noted.
\<close>

lemma update_loop_specific:
  assumes "\<forall>ifa \<in> set ifas. ucast (env_nametoindex E (ifa_name ifa)) = in_ifindex (ints w ! i)"
    and "update_loop E (Some i) ifas (l, g, w) = Inr w'"
  shows "w' = w"
  using assms by (induction ifas) (auto simp: Let_def split: option.splits if_splits)

text \<open>The copy out of \<open>sin_addr\<close> is made for every address that is not IPv6 of an interface that runs.\<close>

lemma update_loop_overreads:
  assumes "ints_ok w" and "w_calloc w = []" and "list_all ifa_ok ifas"
    and "\<forall>ifa \<in> set ifas. env_nametoindex E (ifa_name ifa) \<noteq> - 1" and "ifa \<in> set ifas" and "\<not> ifa_copied E ifa"
  shows "update_loop E None ifas (l, g, w) = Inl OutOfBounds"
  using assms
proof (induction ifas arbitrary: w)
  case (Cons x ifas)
  show ?case
  proof (cases "ifa_copied E x")
    case False
    then show ?thesis by (auto simp: ifa_copied_def split: option.splits)
  next
    case True
    with Cons.prems(5,6) have rest: "ifa \<in> set ifas" by auto
    show ?thesis
    proof (cases "\<exists>sa. ifa_addr x = Some sa \<and> \<not> (ifa_ignored (ifa_flags x) sa \<or> ifa_skipped sa)")
      case False
      with True Cons rest show ?thesis by (auto simp: ifa_copied_def split: option.splits)
    next
      case runs: True
      then obtain sa where sa: "ifa_addr x = Some sa" "\<not> (ifa_ignored (ifa_flags x) sa \<or> ifa_skipped sa)" by blast
      have ok: "sa_ok sa" using Cons.prems(3) sa(1) by (simp add: ifa_ok_def)
      obtain w1 where w1: "update_any E sa (env_nametoindex E (ifa_name x)) w = Inr w1"
        using update_any_total [OF Cons.prems(1,2)] Cons.prems(4) by fastforce
      with update_any_grown [OF Cons.prems(1) ok w1] Cons rest sa True show ?thesis
        by (auto simp: Let_def grown_def ifa_copied_def)
    qed
  qed
qed simp

end
