(* ===== verification/Bpf_Discovery.thy ===== *)
theory Bpf_Discovery
  imports Bpf Forward Update_Ifaces
begin

text \<open>
  The BPF build, continued: the creation and destruction of interfaces, \<open>update_interfaces\<close>, which in
  this build always looks at all interfaces, and the decapsulation of tunnelled packets. The call of
  \<open>l2_ethtype\<close> for what was in a tunnel is the result of \<open>l3_ipv4\<close>: its interface and the packet.

  A function that contains the search for a free device gives \<open>None\<close> when the search does not end.
\<close>

definition obind :: "'a result option \<Rightarrow> ('a \<Rightarrow> 'b result option) \<Rightarrow> 'b result option" where
  "obind m f = (case m of None \<Rightarrow> None | Some r \<Rightarrow> (case r of Inl e \<Rightarrow> Some (Inl e) | Inr x \<Rightarrow> f x))"

lemma obind_simps [simp]:
  "obind None f = None" "obind (Some (Inl e)) f = Some (Inl e)" "obind (Some (Inr x)) f = f x"
  by (simp_all add: obind_def)

lemma obind_Inr [simp]: "obind m f = Some (Inr y) \<longleftrightarrow> (\<exists>x. m = Some (Inr x) \<and> f x = Some (Inr y))"
  by (auto simp: obind_def split: option.splits sum.splits)

section \<open>Interfaces\<close>

text \<open>The descriptor is closed, but it stays in the select set.\<close>

definition int_destroy_bpf :: "nat \<Rightarrow> bpf_conf \<Rightarrow> bpf_conf" where
  "int_destroy_bpf i b =
     (let sock = bi_socket (b_ints b ! i);
          b1 = (if sock \<noteq> - 1
                then (upd_bint i (\<lambda>n. n\<lparr>bi_socket := - 1\<rparr>) b)\<lparr>b_closed := List.insert sock (b_closed b)\<rparr> else b)
      in upd_bint i (\<lambda>n. n\<lparr>in_mtu := 0\<rparr>) b1)"

definition int_find_bpf :: "u32 \<Rightarrow> bpf_conf \<Rightarrow> nat option" where
  "int_find_bpf ifindex b =
     (if ucast ifindex \<ge> b_maxinterfaces b \<or> in_mtu (b_ints b ! unat ifindex) = 0 then None
      else Some (unat ifindex))"

definition bint_zero :: bpf_int where
  "bint_zero = intnode.extend int_zero (bpf_int.fields 0 0 0 None (replicate INTNODE_MAXIPV4 ipv4_any) ipv4_any)"

text \<open>
  \<open>realloc\<close> can move the array. The local addresses and the masters of tunnels are pointers into it, which
  nothing corrects: as soon as there are such pointers and the array moves, they are indeterminate, and the
  model goes no further. Otherwise it counts the moves, for those who hold a pointer across the call.
\<close>

definition int_pointers :: "bpf_conf \<Rightarrow> bool" where
  "int_pointers b \<longleftrightarrow> nodes (b_locals b) \<noteq> [] \<or> list_ex (\<lambda>n. bi_master n \<noteq> None) (b_ints b)"

definition int_resize_bpf :: "bool \<Rightarrow> u32 \<Rightarrow> bpf_conf \<Rightarrow> bpf_conf result" where
  "int_resize_bpf moved ifindex b =
     (if ucast (ifindex + 1) > b_maxinterfaces b then
        (case b_alloc b of
           (False, _) \<Rightarrow> Inl ExitFailure
         | (True, b1) \<Rightarrow> if moved \<and> int_pointers b1 then Inl OutOfBounds else Inr (b1\<lparr>
             b_moves := b_moves b1 + of_bool moved,
             b_ints := b_ints b1 @ replicate (unat (ucast (ifindex + 1) - b_maxinterfaces b1 :: u64)) bint_zero,
             b_maxinterfaces := ucast (ifindex + 1)\<rparr>))
      else Inr b)"

definition int_upstream_bpf :: "string \<Rightarrow> nat \<Rightarrow> bpf_conf \<Rightarrow> bpf_conf" where
  "int_upstream_bpf name i b =
     (if (case b_upstream b of Some up \<Rightarrow> strcaseeq name up | None \<Rightarrow> False)
      then (upd_bint i (\<lambda>n. n\<lparr>in_upstream := True\<rparr>) b)\<lparr>b_upstream_id := in_ifindex (b_ints b ! i)\<rparr>
      else upd_bint i (\<lambda>n. n\<lparr>in_upstream := False\<rparr>) b)"

definition int_setup_bpf ::
    "nat \<Rightarrow> env \<Rightarrow> (u32 \<Rightarrow> bpf_sys) \<Rightarrow> u32 \<Rightarrow> bool \<Rightarrow> bpf_conf \<Rightarrow> (nat option \<times> bpf_conf) result option" where
  "int_setup_bpf fuel E S ifindex tunnel b =
     (let i = unat ifindex in
      case env_ifname E ifindex of
        None \<Rightarrow> Some (Inr (None, int_destroy_bpf i b))
      | Some name \<Rightarrow>
         (let b1 = upd_bint i (\<lambda>n. n\<lparr>in_name := name\<rparr>) b in
          case env_ifmtu E ifindex of
            None \<Rightarrow> Some (Inr (None, int_destroy_bpf i b1))
          | Some mtu \<Rightarrow>
             if sint mtu < 1280 then Some (Inr (None, int_destroy_bpf i b1))
             else obind (int_create_bpf fuel (S ifindex) i tunnel (upd_bint i (\<lambda>n. n\<lparr>in_mtu := scast mtu\<rparr>) b1))
               (\<lambda>(ok, b2). Some (Inr (if ok then (Some i, int_upstream_bpf name i b2)
                  else (None, int_destroy_bpf i b2))))))"

definition int_create_b ::
    "nat \<Rightarrow> env \<Rightarrow> (u32 \<Rightarrow> bpf_sys) \<Rightarrow> u32 \<Rightarrow> bool \<Rightarrow> bpf_conf \<Rightarrow> (nat option \<times> bpf_conf) result option" where
  "int_create_b fuel E S ifindex tunnel b =
     obind (Some (int_resize_bpf (bs_moves (S ifindex)) ifindex b)) (\<lambda>b1.
       if \<not> env_socket E then Some (Inr (None, b1))
       else if unat ifindex \<ge> length (b_ints b1) then Some (Inl OutOfBounds)
       else int_setup_bpf fuel E S ifindex tunnel (upd_bint (unat ifindex)
              (\<lambda>_. bint_zero\<lparr>in_ifindex := ucast ifindex, in_mld_version := 0, bi_socket := - 1\<rparr>) b1))"

section \<open>Discovery\<close>

definition IFF_POINTOPOINT :: u32 where [layout]: "IFF_POINTOPOINT = 0x10"

text \<open>
  The address goes to the interface; the result says whether one was taken. Of an IPv4 address these are
  the sixteen bytes that the code copies, on a platform where it gets that far.
\<close>

definition update_addr_bpf :: "bool \<Rightarrow> ifaddr_sa \<Rightarrow> nat \<Rightarrow> bpf_conf \<Rightarrow> bool \<times> bpf_conf" where
  "update_addr_bpf ptp sa i b = (case sa of
       SA_INET6 a \<Rightarrow>
         (True, if IN6_IS_ADDR_LINKLOCAL a then upd_bint i (\<lambda>n. n\<lparr>in_linklocal := a\<rparr>) b
          else upd_bint i (\<lambda>n. n\<lparr>in_global := a\<rparr>) b)
     | SA_INET addr \<Rightarrow> update_ipv4 ptp addr i (False, b)
     | _ \<Rightarrow> (False, b))"

definition update_any_bpf ::
    "nat \<Rightarrow> env \<Rightarrow> (u32 \<Rightarrow> bpf_sys) \<Rightarrow> bool \<Rightarrow> ifaddr_sa \<Rightarrow> u32 \<Rightarrow> bpf_conf \<Rightarrow> bpf_conf result option" where
  "update_any_bpf fuel E S ptp sa ifindex b =
     obind (case int_find_bpf ifindex b of
         Some i \<Rightarrow> Some (Inr (Some i, False, b))
       | None \<Rightarrow> obind (int_create_b fuel E S ifindex ptp b) (\<lambda>(r, b1). Some (Inr (r, r \<noteq> None, b1))))
       (\<lambda>(intn, newintn, b1). Some (Inr (case intn of
          None \<Rightarrow> b1
        | Some i \<Rightarrow> (case update_addr_bpf ptp sa i b1 of (got, b2) \<Rightarrow>
            if newintn \<and> \<not> got then int_destroy_bpf i b2 else b2))))"

fun update_loop_bpf :: "nat \<Rightarrow> env \<Rightarrow> (u32 \<Rightarrow> bpf_sys) \<Rightarrow> ifaddr list \<Rightarrow> bpf_conf \<Rightarrow> bpf_conf result option" where
  "update_loop_bpf fuel E S [] b = Some (Inr b)"
| "update_loop_bpf fuel E S (ifa # ifas) b =
     (case ifa_addr ifa of
        None \<Rightarrow> update_loop_bpf fuel E S ifas b
      | Some sa \<Rightarrow>
         if ifa_ignored (ifa_flags ifa) sa then update_loop_bpf fuel E S ifas b
         else if ifa_overreads E sa then Some (Inl OutOfBounds)
         else if ifa_skipped sa then update_loop_bpf fuel E S ifas b
         else obind (update_any_bpf fuel E S (ifa_flags ifa AND IFF_POINTOPOINT = IFF_POINTOPOINT) sa
                (env_nametoindex E (ifa_name ifa)) b) (update_loop_bpf fuel E S ifas))"

definition update_interfaces_bpf :: "nat \<Rightarrow> env \<Rightarrow> (u32 \<Rightarrow> bpf_sys) \<Rightarrow> bpf_conf \<Rightarrow> bpf_conf result option" where
  "update_interfaces_bpf fuel E S b =
     (if b_last_update b + 5 * 60 > b_now b then Some (Inr b)
      else (let b1 = b\<lparr>b_last_update := b_now b\<rparr> in
        case env_getifaddrs E of
          None \<Rightarrow> Some (Inr b1)
        | Some ifas \<Rightarrow> update_loop_bpf fuel E S ifas b1))"

section \<open>Tunnelled packets\<close>

text \<open>
  The tunnel on which the packet is handed to \<open>l2_ethtype\<close>, if it is. The sender is read again after the
  look-up of the interfaces, from a buffer that was freed if a device wanted a bigger one; and the line
  that is logged for the tunnel names the interface that received the packet, through a pointer that is
  stale if the array moved.
\<close>

definition l4_ipv4_proto41 ::
    "nat \<Rightarrow> env \<Rightarrow> (u32 \<Rightarrow> bpf_sys) \<Rightarrow> bytes \<Rightarrow> bpf_conf \<Rightarrow> (nat option \<times> bpf_conf) result option" where
  "l4_ipv4_proto41 fuel E S ip_src b =
     (if \<not> b_tunnelmode b then Some (Inr (None, b))
      else if local_find ip_src b \<noteq> None then Some (Inr (None, b))
      else case int_find_ipv4 False ip_src b of
        Some tun \<Rightarrow> Some (Inr (Some tun, b))
      | None \<Rightarrow> obind (update_interfaces_bpf fuel E S b) (\<lambda>b1.
          if b_bufferlen b1 \<noteq> b_bufferlen b then Some (Inl OutOfBounds)
          else case int_find_ipv4 False ip_src b1 of
            None \<Rightarrow> Some (Inr (None, b1))
          | Some tun \<Rightarrow> if b_moves b1 \<noteq> b_moves b then Some (Inl OutOfBounds) else Some (Inr (Some tun, b1))))"

text \<open>\<open>l3_ipv4\<close> of this build: the arguments of the call of \<open>l2_ethtype\<close> for what was in the tunnel.\<close>

definition l3_ipv4_bpf ::
    "nat \<Rightarrow> env \<Rightarrow> (u32 \<Rightarrow> bpf_sys) \<Rightarrow> bytes \<Rightarrow> nat \<Rightarrow> u16 \<Rightarrow> bpf_conf \<Rightarrow>
     ((nat \<times> nat \<times> u16) option \<times> bpf_conf) result option" where
  "l3_ipv4_bpf fuel E S buf iph len b =
     obind (Some (rd8 buf iph)) (\<lambda>vhl.
       if drop_bit 4 vhl \<noteq> 4 then Some (Inr (None, b))
       else if vhl AND 0xf < 5 then Some (Inr (None, b))
       else obind (Some (rd16 buf (iph + 2))) (\<lambda>_.
            obind (Some (rd buf (iph + 12) 4)) (\<lambda>src.
              if src = ipv4_6to4_relay then Some (Inr (None, b))
              else obind (Some (rd buf (iph + 16) 4)) (\<lambda>dst.
                if dst = ipv4_6to4_relay then Some (Inr (None, b))
                else obind (Some (rd8 buf (iph + 9))) (\<lambda>p.
                  if p = IPPROTO_IPV6 then
                    (let hl = 4 * unat (vhl AND 0xf) in
                     obind (l4_ipv4_proto41 fuel E S src b) (\<lambda>(tun, b1).
                       Some (Inr (map_option (\<lambda>i. (i, iph + hl, len - of_nat hl)) tun, b1))))
                  else Some (Inr (None, b)))))))"

section \<open>What discovery keeps\<close>

definition sys_ok :: "(u32 \<Rightarrow> bpf_sys) \<Rightarrow> bool" where
  "sys_ok S \<longleftrightarrow> (\<forall>i k s. bs_open (S i) k = Opened s \<longrightarrow> s < 2 ^ 31)"

named_theorems bpf_keeps \<open>the operations that keep the BPF state well-formed\<close>

lemma bpf_ok_fields [simp]:
  "bpf_ok (b\<lparr>b_closed := fds\<rparr>) = bpf_ok b" "bpf_ok (b\<lparr>b_last_update := t\<rparr>) = bpf_ok b"
  "bpf_ok (b\<lparr>b_upstream_id := u\<rparr>) = bpf_ok b" "bpf_ok (b\<lparr>b_locals := ls\<rparr>) = bpf_ok b"
  "bpf_ok (b\<lparr>b_calloc := cs\<rparr>) = bpf_ok b" "bpf_ok (b\<lparr>b_moves := ms\<rparr>) = bpf_ok b"
  by (simp_all add: bpf_ok_def)

lemma bpf_ok_destroy [bpf_keeps]: "bpf_ok b \<Longrightarrow> bpf_ok (int_destroy_bpf i b)"
  unfolding int_destroy_bpf_def Let_def by (auto intro!: bpf_ok_upd)

lemma bint_zero_ok: "length (bi_ipv4_local bint_zero) = INTNODE_MAXIPV4" "bi_bufferlen bint_zero = 0" "in_mtu bint_zero = 0"
  by (simp_all add: bint_zero_def int_zero_def intnode.defs bpf_int.defs)

lemma bpf_ok_resize [bpf_keeps]:
  assumes "bpf_ok b" and "int_resize_bpf moved k b = Inr b'"
  shows "bpf_ok b'"
proof (cases "ucast (k + 1) > b_maxinterfaces b")
  case True
  with assms(2) obtain b1 where a: "b_alloc b = (True, b1)" and b': "b' = b1\<lparr>
      b_moves := b_moves b1 + of_bool moved,
      b_ints := b_ints b1 @ replicate (unat (ucast (k + 1) - b_maxinterfaces b1 :: u64)) bint_zero,
      b_maxinterfaces := ucast (k + 1)\<rparr>"
    by (auto simp: int_resize_bpf_def split: prod.splits bool.splits if_splits)
  from b_alloc_fields [OF a] obtain cs where b1: "b1 = b\<lparr>b_calloc := cs\<rparr>" by auto
  have "unat (ucast (k + 1) - b_maxinterfaces b :: u64) = unat (ucast (k + 1) :: u64) - unat (b_maxinterfaces b)"
    using True by (simp only: unat_sub less_imp_le)
  moreover have "unat (b_maxinterfaces b) < unat (ucast (k + 1) :: u64)" using True by (simp only: word_less_nat_alt)
  ultimately show ?thesis
    using assms(1) by (simp add: b' b1 bpf_ok_def bint_zero_ok list_all_iff)
next
  case False
  with assms show ?thesis by (simp add: int_resize_bpf_def)
qed

lemma local_add_ok: "bpf_ok b \<Longrightarrow> bpf_ok (local_add i a b)"
  by (auto simp: local_add_def Let_def dest!: b_alloc_fields split: prod.splits bool.splits)

lemma local_update_ok [bpf_keeps]: "bpf_ok b \<Longrightarrow> bpf_ok (local_update i b)"
  unfolding local_update_def by (rule fold_invariant [where Q = "\<lambda>_. True"]) (auto intro: local_add_ok)

lemma update_addr_bpf_ok [bpf_keeps]: "bpf_ok b \<Longrightarrow> bpf_ok (snd (update_addr_bpf ptp sa i b))"
  by (auto simp: update_addr_bpf_def update_ipv4_def Let_def int_of_mem_def
      intro!: bpf_ok_upd local_update_ok split: ifaddr_sa.split prod.split)

lemma int_setup_bpf_ok:
  assumes "bpf_ok b" and "unat k < length (b_ints b)" and "bi_socket (b_ints b ! unat k) = - 1" and "sys_ok S"
    and "int_setup_bpf fuel E S k tunnel b = Some (Inr (r, b'))"
  shows "bpf_ok b'"
proof -
  let ?i = "unat k"
  have create: "bpf_ok b2" if "int_create_bpf fuel (S k) ?i tunnel
      (upd_bint ?i (\<lambda>n. n\<lparr>in_mtu := mtu\<rparr>) (upd_bint ?i (\<lambda>n. n\<lparr>in_name := name\<rparr>) b)) = Some (Inr (ok, b2))" for ok b2 mtu name
    by (rule conjunct1 [OF int_create_bpf_inv [OF _ _ _ _ that]])
      (use assms in \<open>auto simp: upd_bint_nth sys_ok_def intro!: bpf_ok_upd\<close>)
  have up: "bpf_ok (int_upstream_bpf name ?i b2)" if "bpf_ok b2" for name b2
    using that by (auto simp: int_upstream_bpf_def intro!: bpf_ok_upd split: option.split)
  from assms(1,5) create show ?thesis
    by (auto simp: int_setup_bpf_def Let_def intro!: bpf_ok_destroy bpf_ok_upd up
        split: option.splits if_splits)
qed

lemma int_create_b_ok [bpf_keeps]:
  assumes "bpf_ok b" and "sys_ok S" and "int_create_b fuel E S k tunnel b = Some (Inr (r, b'))"
  shows "bpf_ok b'"
proof -
  from assms(3) obtain b1 where b1: "int_resize_bpf (bs_moves (S k)) k b = Inr b1" and r: "(if \<not> env_socket E then Some (Inr (None, b1))
       else if unat k \<ge> length (b_ints b1) then Some (Inl OutOfBounds)
       else int_setup_bpf fuel E S k tunnel (upd_bint (unat k)
              (\<lambda>_. bint_zero\<lparr>in_ifindex := ucast k, in_mld_version := 0, bi_socket := - 1\<rparr>) b1)) = Some (Inr (r, b'))"
    by (auto simp: int_create_b_def)
  have ok1: "bpf_ok b1" by (rule bpf_ok_resize [OF assms(1) b1])
  show ?thesis
  proof (cases "\<not> env_socket E")
    case True
    with r ok1 show ?thesis by simp
  next
    case False
    with r have k: "unat k < length (b_ints b1)" and s: "int_setup_bpf fuel E S k tunnel (upd_bint (unat k)
              (\<lambda>_. bint_zero\<lparr>in_ifindex := ucast k, in_mld_version := 0, bi_socket := - 1\<rparr>) b1) = Some (Inr (r, b'))"
      by (auto split: if_splits)
    have "bpf_ok (upd_bint (unat k) (\<lambda>_. bint_zero\<lparr>in_ifindex := ucast k, in_mld_version := 0, bi_socket := - 1\<rparr>) b1)"
      using ok1 by (intro bpf_ok_upd) (simp_all add: bint_zero_ok)
    from int_setup_bpf_ok [OF this _ _ assms(2) s] k show ?thesis by (simp add: upd_bint_nth)
  qed
qed

text \<open>The state after one address: that after a creation, if there was one, with the address noted or the interface given up.\<close>

lemma update_any_bpf_cases:
  assumes "update_any_bpf fuel E S ptp sa k b = Some (Inr b')"
  obtains b1 where "b1 = b \<or> (\<exists>r. int_create_b fuel E S k ptp b = Some (Inr (r, b1)))"
    and "b' = b1 \<or> (\<exists>i. b' = snd (update_addr_bpf ptp sa i b1)) \<or> (\<exists>i. b' = int_destroy_bpf i (snd (update_addr_bpf ptp sa i b1)))"
proof -
  from assms obtain intn new b1 where b1: "(case int_find_bpf k b of Some i \<Rightarrow> Some (Inr (Some i, False, b))
       | None \<Rightarrow> obind (int_create_b fuel E S k ptp b) (\<lambda>(r, b1). Some (Inr (r, r \<noteq> None, b1)))) = Some (Inr (intn, new, b1))"
    and b': "b' = (case intn of None \<Rightarrow> b1
        | Some i \<Rightarrow> (case update_addr_bpf ptp sa i b1 of (got, b2) \<Rightarrow>
            if new \<and> \<not> got then int_destroy_bpf i b2 else b2))"
    unfolding update_any_bpf_def by auto
  show thesis
  proof (rule that [of b1])
    show "b1 = b \<or> (\<exists>r. int_create_b fuel E S k ptp b = Some (Inr (r, b1)))" using b1 by (auto split: option.splits)
    show "b' = b1 \<or> (\<exists>i. b' = snd (update_addr_bpf ptp sa i b1)) \<or> (\<exists>i. b' = int_destroy_bpf i (snd (update_addr_bpf ptp sa i b1)))"
      using b' by (simp add: split_beta split: option.splits if_splits) blast+
  qed
qed

lemma update_any_bpf_ok [bpf_keeps]:
  assumes "bpf_ok b" and "sys_ok S" and "update_any_bpf fuel E S ptp sa k b = Some (Inr b')"
  shows "bpf_ok b'"
proof -
  obtain b1 where "bpf_ok b1"
    and "b' = b1 \<or> (\<exists>i. b' = snd (update_addr_bpf ptp sa i b1)) \<or> (\<exists>i. b' = int_destroy_bpf i (snd (update_addr_bpf ptp sa i b1)))"
    using update_any_bpf_cases [OF assms(3)] int_create_b_ok [OF assms(1,2)] assms(1) by metis
  then show ?thesis by (auto intro: bpf_ok_destroy update_addr_bpf_ok)
qed

lemma update_loop_bpf_ok:
  "bpf_ok b \<Longrightarrow> sys_ok S \<Longrightarrow> update_loop_bpf fuel E S ifas b = Some (Inr b') \<Longrightarrow> bpf_ok b'"
  by (induction fuel E S ifas b rule: update_loop_bpf.induct)
    (auto split: option.splits if_splits dest: update_any_bpf_ok)

section \<open>Discovery ends\<close>

text \<open>While there is memory, no step fails and the memory stays.\<close>

lemma mem_keeps:
  assumes "b_calloc b = []"
  shows "b_calloc (int_destroy_bpf i b) = []" and "b_calloc (int_upstream_bpf name i b) = []"
    and "b_calloc (local_update i b) = []" and "b_calloc (snd (update_addr_bpf ptp sa i b)) = []"
proof -
  have add: "b_calloc (local_add i a b) = []" if "b_calloc b = []" for i a b
    using that by (simp add: local_add_def Let_def)
  have upd: "b_calloc (local_update i b) = []" if "b_calloc b = []" for i b
    unfolding local_update_def by (rule fold_invariant [where Q = "\<lambda>_. True"]) (auto intro: add that)
  show "b_calloc (int_destroy_bpf i b) = []" "b_calloc (int_upstream_bpf name i b) = []" "b_calloc (local_update i b) = []"
    using assms by (simp_all add: int_destroy_bpf_def int_upstream_bpf_def Let_def upd split: option.split)
  show "b_calloc (snd (update_addr_bpf ptp sa i b)) = []"
    using assms by (auto simp: update_addr_bpf_def update_ipv4_def Let_def intro!: upd split: ifaddr_sa.split prod.split)
qed

text \<open>
  The answers under which the BPF build stays inside its objects: the array never moves, and every
  descriptor fits an \<open>fd_set\<close>.
\<close>

definition sys_fits :: "(u32 \<Rightarrow> bpf_sys) \<Rightarrow> bool" where
  "sys_fits S \<longleftrightarrow> (\<forall>i. \<not> bs_moves (S i) \<and> (\<forall>k s. bs_open (S i) k = Opened s \<longrightarrow> s < FD_SETSIZE))"

lemma bpf_configure_mem:
  assumes "b_calloc b = []" and "i < length (b_ints b)" and "bi_socket (b_ints b ! i) < 1024"
  shows "\<exists>ok b'. bpf_configure S i b = Inr (ok, b') \<and> b_calloc b' = []"
  using assms by (auto simp: bpf_configure_def bpf_buffer_def bpf_select_def FD_SETSIZE_def Let_def upd_bint_nth
      split: option.split)

lemma int_create_bpf_mem:
  assumes "b_calloc b = []" and "\<exists>d < fuel. bs_open S (of_nat d) \<noteq> Busy" and "\<forall>k s. bs_open S k = Opened s \<longrightarrow> s < 1024"
    and "i < length (b_ints b)" and "bi_socket (b_ints b ! i) < 1024"
  shows "\<exists>ok b'. int_create_bpf fuel S i tunnel b = Some (Inr (ok, b')) \<and> b_calloc b' = []"
proof -
  obtain d where "d < fuel" "bs_open S (of_nat d) \<noteq> Busy" using assms(2) by blast
  then obtain sock where sock: "(if bi_socket (b_ints b ! i) < 0 then bpf_open fuel (bs_open S) 0
      else Some (bi_socket (b_ints b ! i))) = Some sock"
    using bpf_open_ends [of "bs_open S" 0 d fuel] assms(3) by (cases "bi_socket (b_ints b ! i) < 0") fastforce+
  have fits: "sock < 1024" using sock assms(3,5) bpf_open_fits by (auto split: if_splits)
  let ?b1 = "(upd_bint i (\<lambda>n. n\<lparr>bi_socket := sock\<rparr>) b)\<lparr>b_closed := removeAll sock (b_closed b)\<rparr>"
  have "\<exists>ok b'. bpf_configure S i ?b1 = Inr (ok, b') \<and> b_calloc b' = []" using assms(1,4) fits by (intro bpf_configure_mem) (simp_all add: upd_bint_nth)
  then show ?thesis
    using sock assms(1) by (auto simp: int_create_bpf_def bpf_tunnel_def Let_def split: option.split)
qed

definition devices_free :: "nat \<Rightarrow> (u32 \<Rightarrow> bpf_sys) \<Rightarrow> bool" where
  "devices_free fuel S \<longleftrightarrow> (\<forall>k. \<exists>d < fuel. bs_open (S k) (of_nat d) \<noteq> Busy)"

lemma int_setup_bpf_mem:
  assumes "b_calloc b = []" and "devices_free fuel S" and "sys_fits S" and "unat k < length (b_ints b)"
    and "bi_socket (b_ints b ! unat k) = - 1"
  shows "\<exists>r b'. int_setup_bpf fuel E S k tunnel b = Some (Inr (r, b')) \<and> b_calloc b' = []"
proof -
  have dev: "\<exists>d < fuel. bs_open (S k) (of_nat d) \<noteq> Busy" using assms(2) by (simp add: devices_free_def)
  have sys: "\<forall>d s. bs_open (S k) d = Opened s \<longrightarrow> s < 1024" using assms(3) by (simp add: sys_fits_def FD_SETSIZE_def)
  have fin: "\<exists>r b'. obind (int_create_bpf fuel (S k) i tunnel u) (\<lambda>(ok, b2). Some (Inr (if ok
      then (Some i, int_upstream_bpf name i b2) else (None, int_destroy_bpf i b2)))) = Some (Inr (r, b')) \<and> b_calloc b' = []"
    if u: "b_calloc u = []" "i < length (b_ints u)" "bi_socket (b_ints u ! i) = - 1" for u i name
  proof -
    obtain ok b2 where "int_create_bpf fuel (S k) i tunnel u = Some (Inr (ok, b2))" "b_calloc b2 = []"
      using int_create_bpf_mem [OF u(1) dev sys u(2), of tunnel] u(3) by fastforce
    then show ?thesis by (cases ok) (simp_all add: mem_keeps)
  qed
  from assms(1,4,5) show ?thesis
    by (auto simp: int_setup_bpf_def Let_def mem_keeps upd_bint_nth simp del: obind_Inr intro!: fin split: option.split)
qed

lemma int_resize_bpf_mem:
  assumes "bpf_ok b" and "b_calloc b = []" and "k \<noteq> - 1"
  shows "\<exists>b1. int_resize_bpf False k b = Inr b1 \<and> b_calloc b1 = [] \<and> unat k < length (b_ints b1)"
proof -
  have k1: "unat (k + 1) = Suc (unat k)"
    using assms(3) unatSuc [of k] by (simp add: add.commute eq_neg_iff_add_eq_0)
  show ?thesis
  proof (cases "ucast (k + 1) > b_maxinterfaces b")
    case True
    then have "unat (ucast (k + 1) - b_maxinterfaces b :: u64) = Suc (unat k) - unat (b_maxinterfaces b)"
      by (simp add: unat_sub word_le_nat_alt word_less_nat_alt ucast_u32_le k1)
    with True assms show ?thesis
      by (auto simp: int_resize_bpf_def bpf_ok_def word_less_nat_alt ucast_u32_le k1)
  next
    case False
    with assms show ?thesis
      by (auto simp: int_resize_bpf_def bpf_ok_def word_less_nat_alt ucast_u32_le k1)
  qed
qed

lemma int_create_b_mem:
  assumes "bpf_ok b" and "b_calloc b = []" and "k \<noteq> - 1" and "devices_free fuel S" and "sys_fits S"
  shows "\<exists>r b'. int_create_b fuel E S k tunnel b = Some (Inr (r, b')) \<and> b_calloc b' = []"
proof -
  obtain b1 where b1: "int_resize_bpf False k b = Inr b1" "b_calloc b1 = []" "unat k < length (b_ints b1)"
    using int_resize_bpf_mem [OF assms(1-3)] by blast
  have "b_calloc (upd_bint (unat k) (\<lambda>_. bint_zero\<lparr>in_ifindex := ucast k, in_mld_version := 0, bi_socket := - 1\<rparr>) b1) = []"
    using b1(2) by simp
  from int_setup_bpf_mem [OF this assms(4,5), of k E tunnel] b1 assms(5) show ?thesis
    by (simp add: int_create_b_def upd_bint_nth sys_fits_def)
qed

lemma update_any_bpf_mem:
  assumes "bpf_ok b" and "b_calloc b = []" and "k \<noteq> - 1" and "devices_free fuel S" and "sys_fits S"
  shows "\<exists>b'. update_any_bpf fuel E S ptp sa k b = Some (Inr b') \<and> b_calloc b' = []"
proof -
  have "\<exists>intn new b1. (case int_find_bpf k b of Some i \<Rightarrow> Some (Inr (Some i, False, b))
       | None \<Rightarrow> obind (int_create_b fuel E S k ptp b) (\<lambda>(r, b1). Some (Inr (r, r \<noteq> None, b1)))) =
       Some (Inr (intn, new, b1)) \<and> b_calloc b1 = []"
    using assms(2) int_create_b_mem [OF assms, of E ptp] by (auto split: option.split)
  then obtain intn new b1 where "(case int_find_bpf k b of Some i \<Rightarrow> Some (Inr (Some i, False, b))
       | None \<Rightarrow> obind (int_create_b fuel E S k ptp b) (\<lambda>(r, b1). Some (Inr (r, r \<noteq> None, b1)))) =
       Some (Inr (intn, new, b1))" and m: "b_calloc b1 = []" by blast
  moreover have "b_calloc (case intn of None \<Rightarrow> b1 | Some i \<Rightarrow> (case update_addr_bpf ptp sa i b1 of (got, b2) \<Rightarrow>
            if new \<and> \<not> got then int_destroy_bpf i b2 else b2)) = []"
  proof (cases intn)
    case (Some i)
    obtain got b2 where u: "update_addr_bpf ptp sa i b1 = (got, b2)" by fastforce
    then have "b_calloc b2 = []" using mem_keeps(4) [OF m, of ptp sa i] by simp
    with Some u show ?thesis by (simp add: mem_keeps)
  qed (use m in simp)
  ultimately show ?thesis unfolding update_any_bpf_def by simp
qed

lemma update_loop_bpf_mem:
  assumes "bpf_ok b" and "b_calloc b = []"
    and "list_all (\<lambda>ifa. env_nametoindex E (ifa_name ifa) \<noteq> - 1 \<and> ifa_copied E ifa) ifas"
    and "devices_free fuel S" and "sys_ok S" and "sys_fits S"
  shows "\<exists>b'. update_loop_bpf fuel E S ifas b = Some (Inr b') \<and> b_calloc b' = []"
  using assms(1-3)
proof (induction ifas arbitrary: b)
  case (Cons ifa ifas)
  show ?case
  proof (cases "\<exists>sa. ifa_addr ifa = Some sa \<and> \<not> (ifa_ignored (ifa_flags ifa) sa \<or> ifa_skipped sa)")
    case False
    with Cons show ?thesis by (auto simp: ifa_copied_def split: option.splits if_splits)
  next
    case True
    then obtain sa where sa: "ifa_addr ifa = Some sa" "\<not> (ifa_ignored (ifa_flags ifa) sa \<or> ifa_skipped sa)" by blast
    let ?ptp = "ifa_flags ifa AND IFF_POINTOPOINT = IFF_POINTOPOINT" and ?k = "env_nametoindex E (ifa_name ifa)"
    have "?k \<noteq> - 1" using Cons.prems(3) by simp
    from update_any_bpf_mem [OF Cons.prems(1,2) this assms(4,6), of E ?ptp sa] obtain b1 where
      b1: "update_any_bpf fuel E S ?ptp sa ?k b = Some (Inr b1)" "b_calloc b1 = []" by blast
    have "bpf_ok b1" by (rule update_any_bpf_ok [OF Cons.prems(1) assms(5) b1(1)])
    from Cons.IH [OF this b1(2)] Cons.prems(3) sa b1(1) show ?thesis by (simp add: ifa_copied_def)
  qed
qed simp

lemma update_interfaces_bpf_run:
  assumes "bpf_ok b" and "sys_ok S"
  shows "update_interfaces_bpf fuel E S b = Some (Inr b') \<Longrightarrow> bpf_ok b'"
    and "b_calloc b = [] \<Longrightarrow> discovery_ok E \<Longrightarrow> devices_free fuel S \<Longrightarrow> sys_fits S \<Longrightarrow> \<exists>b'. update_interfaces_bpf fuel E S b = Some (Inr b')"
proof -
  let ?b = "b\<lparr>b_last_update := b_now b\<rparr>"
  have ok: "bpf_ok ?b" using assms(1) by simp
  show "bpf_ok b'" if "update_interfaces_bpf fuel E S b = Some (Inr b')"
    using that assms(1) ok update_loop_bpf_ok [OF ok assms(2)]
    by (auto simp: update_interfaces_bpf_def Let_def split: if_splits option.splits)
  show "\<exists>b'. update_interfaces_bpf fuel E S b = Some (Inr b')"
    if m: "b_calloc b = []" and i: "discovery_ok E" and d: "devices_free fuel S" and f: "sys_fits S"
  proof (cases "env_getifaddrs E")
    case None
    then show ?thesis by (simp add: update_interfaces_bpf_def Let_def)
  next
    case (Some ifas)
    have "\<exists>b'. update_loop_bpf fuel E S ifas ?b = Some (Inr b') \<and> b_calloc b' = []"
      by (rule update_loop_bpf_mem [OF ok _ _ d assms(2) f]) (use m i Some in \<open>simp_all add: discovery_ok_def\<close>)
    with Some show ?thesis by (auto simp: update_interfaces_bpf_def Let_def)
  qed
qed

text \<open>
  C25: In the BPF build too, the discovery of interfaces keeps the state well-formed and ends. Whatever
  addresses and answers the system gives, when it returns, the array has its size, every entry its four
  addresses, the buffer has room for a read of every interface, and \<open>hifd\<close> bounds the select set. And it
  does return while there is memory, no interface has the index that wraps around, the platform lets the
  bytes behind an IPv4 address be read, every search meets a device that is not busy, every descriptor
  is below \<open>FD_SETSIZE\<close>, and \<open>realloc\<close> enlarges the array in place. Where it moves the array while there
  are pointers into it, these are used without being corrected; this is why that condition is there.
\<close>

theorem update_interfaces_bpf_keeps:
  assumes "bpf_ok b" and "sys_ok S"
  shows "(\<forall>b'. update_interfaces_bpf fuel E S b = Some (Inr b') \<longrightarrow> bpf_ok b') \<and>
    (b_calloc b = [] \<and> discovery_ok E \<and> devices_free fuel S \<and> sys_fits S \<longrightarrow>
      (\<exists>b'. update_interfaces_bpf fuel E S b = Some (Inr b')))"
  using update_interfaces_bpf_run [OF assms] by blast

text \<open>A system whose only interface is new and has an IPv4 address.\<close>

definition ex_benv :: env where
  "ex_benv = \<lparr>env_sendto = (\<lambda>_ _. Sent), env_socket = True, env_ifname = (\<lambda>_. Some ''em2''), env_ifmtu = (\<lambda>_. Some 1500),
     env_ifhwaddr = (\<lambda>_. None), env_nametoindex = (\<lambda>_. 2),
     env_getifaddrs = Some [\<lparr>ifa_name = ''em2'', ifa_flags = 0x41, ifa_addr = Some (SA_INET ([10, 0, 0, 5] @ replicate 12 0))\<rparr>], env_behind = True\<rparr>"

lemma ex_benv_ok: "discovery_ok ex_benv" "sys_ok (\<lambda>_. ex_sys)" "devices_free 2 (\<lambda>_. ex_sys)"
  "sys_fits (\<lambda>_. ex_sys)"
proof -
  show "sys_fits (\<lambda>_. ex_sys)" by (simp add: sys_fits_def ex_sys_def FD_SETSIZE_def)
  show "discovery_ok ex_benv" by (simp add: discovery_ok_def ifa_copied_def ifa_overreads_def ex_benv_def)
  show "sys_ok (\<lambda>_. ex_sys)" by (simp add: sys_ok_def ex_sys_def)
  show "devices_free 2 (\<lambda>_. ex_sys)" unfolding devices_free_def by (intro allI exI [of _ 1]) (simp add: ex_sys_def)
qed

theorem update_interfaces_bpf_keeps_witness:
  "\<exists>b'. update_interfaces_bpf 2 ex_benv (\<lambda>_. ex_sys) ex_bpf = Some (Inr b') \<and> bpf_ok b'"
  using update_interfaces_bpf_keeps [OF ex_bpf_ok ex_benv_ok(2), of 2 ex_benv] ex_benv_ok(1,3,4)
  by (auto simp: ex_bpf_def)

section \<open>Which packets are taken out of a tunnel\<close>

lemma int_find_ipv4_remote:
  assumes "int_find_ipv4 False a b = Some m"
  shows "m < unat (b_maxinterfaces b)" and "in_mtu (b_ints b ! m) \<noteq> 0" and "bi_ipv4_remote (b_ints b ! m) = a"
proof -
  have scan: "ipv4_scan False a r as \<Longrightarrow> r = a" for r as by (cases as) (auto split: if_splits)
  show "m < unat (b_maxinterfaces b)" "in_mtu (b_ints b ! m) \<noteq> 0" "bi_ipv4_remote (b_ints b ! m) = a"
    using find_Some_in [OF assms [unfolded int_find_ipv4_def]] by (auto simp: Let_def dest: scan)
qed

text \<open>
  Where the buffer and the array are. Discovery leaves them there when no device wants a bigger buffer
  and the array never moves.
\<close>

abbreviation same_place :: "bpf_conf \<Rightarrow> bpf_conf \<Rightarrow> bool" where
  "same_place b b' \<equiv> b_bufferlen b' = b_bufferlen b \<and> b_moves b' = b_moves b"

definition buffers_fit :: "(u32 \<Rightarrow> bpf_sys) \<Rightarrow> bpf_conf \<Rightarrow> bool" where
  "buffers_fit S b \<longleftrightarrow> (\<forall>k len. bs_blen (S k) = Some len \<longrightarrow> len \<le> b_bufferlen b)"

lemma buffers_fit_place: "same_place b b' \<Longrightarrow> buffers_fit S b' = buffers_fit S b"
  by (simp add: buffers_fit_def)

lemma place_ops:
  "same_place b (int_destroy_bpf i b)" "same_place b (int_upstream_bpf name i b)"
  "same_place b (local_update i b)" "same_place b (snd (update_addr_bpf ptp sa i b))"
proof -
  have upd: "same_place u (upd_bint i f u)" for u i f by (simp add: upd_bint_def)
  show "same_place b (int_destroy_bpf i b)" "same_place b (int_upstream_bpf name i b)"
    by (simp_all add: int_destroy_bpf_def int_upstream_bpf_def Let_def upd_bint_def split: option.split)
  have add: "same_place u (local_add i a u)" for i a u
    by (auto simp: local_add_def Let_def dest!: b_alloc_fields split: prod.splits bool.splits)
  have loc: "same_place u (local_update i u)" for i u
    unfolding local_update_def by (rule fold_invariant [where Q = "\<lambda>_. True" and P = "same_place u"]) (auto simp: add)
  then show "same_place b (local_update i b)" .
  show "same_place b (snd (update_addr_bpf ptp sa i b))"
    using loc upd by (auto simp: update_addr_bpf_def update_ipv4_def Let_def split: ifaddr_sa.split prod.split)
qed

lemma bpf_configure_cases:
  assumes "bpf_configure S i b = Inr (ok, b')"
  obtains "b' = b" | dlt where "b' = upd_bint i (\<lambda>n. n\<lparr>bi_dlt := dlt\<rparr>) b"
    | dlt blen b2 where "bs_blen S = Some blen"
      "bpf_buffer blen (upd_bint i (\<lambda>n. n\<lparr>bi_bufferlen := blen\<rparr>) (upd_bint i (\<lambda>n. n\<lparr>bi_dlt := dlt\<rparr>) b)) = Inr b2"
      "bpf_select (bi_socket (b_ints b2 ! i)) b2 = Inr b'"
  using assms by (auto simp: bpf_configure_def Let_def split: if_splits option.splits)

lemma int_create_bpf_place:
  assumes "int_create_bpf fuel (S k) i tunnel b = Some (Inr (ok, b'))" and "buffers_fit S b"
  shows "same_place b b'"
proof -
  have len: "len \<le> b_bufferlen b" if "bs_blen (S k) = Some len" for len
    using that assms(2) by (auto simp: buffers_fit_def)
  have sel: "same_place u u'" if "bpf_select sock u = Inr u'" for sock u u'
    using bpf_select_fields(2,4) [OF that] by simp
  have buf: "same_place u u'" if "bpf_buffer len u = Inr u'" "len \<le> b_bufferlen u" for len u u'
    using that by (simp add: bpf_buffer_def not_less [symmetric])
  have conf: "same_place b u'" if c: "bpf_configure (S k) i u = Inr (ok, u')" and p: "same_place b u" for u u'
    using c
  proof (cases rule: bpf_configure_cases)
    case (3 dlt blen u2)
    with buf [OF 3(2)] sel [OF 3(3)] len p show ?thesis by simp
  qed (use p in simp_all)
  have tun: "same_place b (snd (bpf_tunnel (S k) i b))"
    by (simp add: bpf_tunnel_def Let_def split_beta split: option.split)
  show ?thesis
  proof (cases "b_tunnelmode b \<and> tunnel")
    case True
    with assms(1) tun show ?thesis by (simp add: int_create_bpf_def)
  next
    case False
    with assms(1) obtain sock where "(if sock < 0 then Inr (False, (upd_bint i (\<lambda>n. n\<lparr>bi_socket := sock\<rparr>) b)\<lparr>b_closed := removeAll sock (b_closed b)\<rparr>)
        else bpf_configure (S k) i ((upd_bint i (\<lambda>n. n\<lparr>bi_socket := sock\<rparr>) b)\<lparr>b_closed := removeAll sock (b_closed b)\<rparr>)) = Inr (ok, b')"
      by (auto simp: int_create_bpf_def Let_def)
    then show ?thesis by (auto dest!: conf split: if_splits)
  qed
qed

lemma int_create_b_place:
  assumes "int_create_b fuel E S k tunnel b = Some (Inr (r, b'))" and "buffers_fit S b" and "sys_fits S"
  shows "same_place b b'"
proof -
  from assms(1,3) obtain b1 where b1: "int_resize_bpf False k b = Inr b1"
    and r: "b' = b1 \<or> int_setup_bpf fuel E S k tunnel (upd_bint (unat k)
      (\<lambda>_. bint_zero\<lparr>in_ifindex := ucast k, in_mld_version := 0, bi_socket := - 1\<rparr>) b1) = Some (Inr (r, b'))"
    by (auto simp: int_create_b_def sys_fits_def split: if_splits)
  have b1: "same_place b b1"
    using b1 by (auto simp: int_resize_bpf_def dest!: b_alloc_fields split: if_splits prod.splits bool.splits)
  have create: "same_place u u'" if "int_create_bpf fuel (S k) i tunnel (upd_bint i f (upd_bint i g u)) = Some (Inr (ok, u'))"
    "buffers_fit S u" for i f g ok u u'
    using int_create_bpf_place [of fuel S k, OF that(1)] that(2) by (simp add: upd_bint_def buffers_fit_def)
  have "same_place u u'" if "int_setup_bpf fuel E S k tunnel u = Some (Inr (r, u'))" "buffers_fit S u" for u u'
    using that(1) place_ops(1,2)
    by (auto simp: int_setup_bpf_def Let_def upd_bint_fields dest!: create [OF _ that(2)] split: option.splits if_splits)
  with r b1 assms(2) show ?thesis by (auto simp: upd_bint_def buffers_fit_def)
qed

lemma update_interfaces_bpf_place:
  assumes "update_interfaces_bpf fuel E S b = Some (Inr b')" and "buffers_fit S b" and "sys_fits S"
  shows "same_place b b'"
proof -
  have any: "same_place u u'" if a: "update_any_bpf fuel E S ptp sa k u = Some (Inr u')" and f: "buffers_fit S u" for ptp sa k u u'
  proof -
    obtain u1 where c: "u1 = u \<or> (\<exists>r. int_create_b fuel E S k ptp u = Some (Inr (r, u1)))"
      and u': "u' = u1 \<or> (\<exists>i. u' = snd (update_addr_bpf ptp sa i u1)) \<or> (\<exists>i. u' = int_destroy_bpf i (snd (update_addr_bpf ptp sa i u1)))"
      by (rule update_any_bpf_cases [OF a])
    from c have "same_place u u1" using int_create_b_place [OF _ f assms(3)] by auto
    with u' show ?thesis by (auto simp: place_ops)
  qed
  have "same_place u u'" if "update_loop_bpf fuel E S ifas u = Some (Inr u')" "buffers_fit S u" for ifas u u'
    using that
  proof (induction ifas arbitrary: u)
    case (Cons ifa ifas)
    have step: "same_place u u'" if "update_any_bpf fuel E S ptp sa k u = Some (Inr u1)" "update_loop_bpf fuel E S ifas u1 = Some (Inr u')"
      for ptp sa k u1
      using any [OF that(1) Cons.prems(2)] Cons.IH [OF that(2)] Cons.prems(2) by (simp add: buffers_fit_def)
    show ?case
      using Cons.prems Cons.IH by (auto dest!: step split: option.splits if_splits)
  qed simp
  with assms(1,2) show ?thesis
    by (auto simp: update_interfaces_bpf_def buffers_fit_def Let_def split: if_splits option.splits)
qed

text \<open>
  C24: A protocol 41 packet is handed on only as a packet of the tunnel it came through. When
  \<open>l4_ipv4_proto41\<close> hands it to the decoder, tunnel mode is on, the sender is not one of the host's own
  addresses, and the interface it is attributed to is in use and has the sender as its remote end.
  The state stays well-formed, also when the interfaces had to be looked up again. The function
  returns when that lookup does (see \<open>update_interfaces_bpf\<close>) and wants no bigger buffer: the code reads
  the sender once more after the lookup, and a bigger buffer takes the place of the one the packet is in,
  which was freed.
\<close>

theorem proto41_decapsulates:
  assumes "bpf_ok b" and "sys_ok S"
  shows "(\<forall>r b'. l4_ipv4_proto41 fuel E S src b = Some (Inr (r, b')) \<longrightarrow> bpf_ok b' \<and>
      (\<forall>tun. r = Some tun \<longrightarrow> b_tunnelmode b \<and>
        (\<forall>k \<in> set (nodes (b_locals b)). src \<notin> set (bi_ipv4_local (b_ints b ! k))) \<and>
        tun < length (b_ints b') \<and> in_mtu (b_ints b' ! tun) \<noteq> 0 \<and> bi_ipv4_remote (b_ints b' ! tun) = src)) \<and>
    (b_calloc b = [] \<and> discovery_ok E \<and> devices_free fuel S \<and> sys_fits S \<and> buffers_fit S b \<longrightarrow>
      (\<exists>r. l4_ipv4_proto41 fuel E S src b = Some (Inr r)))"
proof (intro conjI allI impI)
  fix r b'
  assume run: "l4_ipv4_proto41 fuel E S src b = Some (Inr (r, b'))"
  show ok: "bpf_ok b'"
    using run assms(1) update_interfaces_bpf_run(1) [OF assms]
    by (auto simp: l4_ipv4_proto41_def split: if_splits option.splits)
  fix tun
  assume r: "r = Some tun"
  then have tm: "b_tunnelmode b" "local_find src b = None" and f: "int_find_ipv4 False src b' = Some tun"
    using run by (auto simp: l4_ipv4_proto41_def split: if_splits option.splits)
  show "b_tunnelmode b" by (rule tm(1))
  show "\<forall>k \<in> set (nodes (b_locals b)). src \<notin> set (bi_ipv4_local (b_ints b ! k))"
    using tm(2) unfolding local_find_None .
  show "tun < length (b_ints b')" "in_mtu (b_ints b' ! tun) \<noteq> 0" "bi_ipv4_remote (b_ints b' ! tun) = src"
    using int_find_ipv4_remote [OF f] ok by (simp_all add: bpf_ok_def)
next
  assume a: "b_calloc b = [] \<and> discovery_ok E \<and> devices_free fuel S \<and> sys_fits S \<and> buffers_fit S b"
  then obtain b1 where b1: "update_interfaces_bpf fuel E S b = Some (Inr b1)"
    using update_interfaces_bpf_run(2) [OF assms] by blast
  with update_interfaces_bpf_place [OF b1] a show "\<exists>r. l4_ipv4_proto41 fuel E S src b = Some (Inr r)"
    by (simp add: l4_ipv4_proto41_def split: option.split)
qed

theorem proto41_decapsulates_witness:
  "\<exists>b'. l4_ipv4_proto41 2 ex_benv (\<lambda>_. ex_sys) [10, 0, 0, 2] ex_bpf = Some (Inr (Some 1, b')) \<and> bpf_ok b' \<and>
     bi_ipv4_remote (b_ints b' ! 1) = [10, 0, 0, 2]"
proof -
  have "l4_ipv4_proto41 2 ex_benv (\<lambda>_. ex_sys) [10, 0, 0, 2] ex_bpf = Some (Inr (Some 1, ex_bpf))"
    by code_simp
  with proto41_decapsulates [OF ex_bpf_ok ex_benv_ok(2), of 2 ex_benv "[10, 0, 0, 2]"] show ?thesis by blast
qed

section \<open>Through the tunnel\<close>

lemma eth_header_bytes: "length a = 4 \<Longrightarrow> length (eth_header a type) = 14"
  "length a = 4 \<Longrightarrow> rd16 (eth_header a type @ X) 12 = Inr (htons type)"
proof -
  assume a: "length a = 4"
  then show len: "length (eth_header a type) = 14" by (simp add: eth_header_def)
  have "(eth_header a type @ X) ! 12 = le16_bytes (htons type) ! 0" "(eth_header a type @ X) ! 13 = le16_bytes (htons type) ! 1"
    using a by (simp_all add: eth_header_def nth_append nth_Cons' le16_bytes_def)
  moreover have "12 < length (eth_header a type @ X)" "13 < length (eth_header a type @ X)" using len by simp_all
  ultimately show "rd16 (eth_header a type @ X) 12 = Inr (htons type)"
    using le16_le16_bytes [of "htons type"] by (simp add: rd16_def rd8_def)
qed

lemma length_proto41_header: "length src = 4 \<Longrightarrow> length dst = 4 \<Longrightarrow> length (proto41_header len c src dst) = 20"
  by (simp add: proto41_header_def)

lemma proto41_header_bytes:
  fixes X :: bytes
  assumes "length src = 4" and "length dst = 4" and "length pre = p"
  shows "rd8 (pre @ proto41_header len c src dst @ X) p = Inr 0x45"
    and "\<exists>x. rd16 (pre @ proto41_header len c src dst @ X) (p + 2) = Inr x"
    and "rd (pre @ proto41_header len c src dst @ X) (p + 12) 4 = Inr src"
    and "rd (pre @ proto41_header len c src dst @ X) (p + 16) 4 = Inr dst"
    and "rd8 (pre @ proto41_header len c src dst @ X) (p + 9) = Inr IPPROTO_IPV6"
  using assms
  by (simp_all add: proto41_header_def le16_bytes_def rd8_def rd16_def rd_def nth_append)

text \<open>The frame of a tunnelled packet, anywhere in the buffer of a receiver that knows the tunnel.\<close>

lemma tunnel_frame:
  assumes "length mac = 4" and "length src = 4" and "length dst = 4" and "length pre = n" and "length data = unat len"
    and "src \<noteq> ipv4_6to4_relay" and "dst \<noteq> ipv4_6to4_relay"
    and "b_tunnelmode b" and "local_find src b = None" and "int_find_ipv4 False src b = Some tun"
    and "frame = eth_header mac ETH_P_IP @ proto41_header len c src dst @ data" and "buf = pre @ frame @ Z"
  shows "l2_eth buf n (of_nat (length frame)) = Inr (n + 14, of_nat (unat len + 20), ETH_P_IP)"
    and "l3_ipv4_bpf fuel E S buf (n + 14) (of_nat (unat len + 20)) b = Some (Inr (Some (tun, n + 34, len), b))"
    and "length frame = unat len + 34" and "drop 34 frame = data"
proof -
  note eth = eth_header_bytes [OF assms(1)]
  have lh: "length (proto41_header len c src dst) = 20" by (rule length_proto41_header [OF assms(2,3)])
  show lf: "length frame = unat len + 34" "drop 34 frame = data" using eth(1) assms(5) lh by (simp_all add: assms(11))
  have "rd16 (frame @ Z) 12 = Inr (htons ETH_P_IP)" using eth(2) by (simp add: assms(11))
  then have "rd16 buf (n + 12) = Inr (htons ETH_P_IP)" using rd_behind(3) [OF assms(4)] by (simp add: assms(12))
  moreover have "of_nat (unat len + 34) - (14 :: u32) = of_nat (unat len + 20)" by simp
  ultimately show "l2_eth buf n (of_nat (length frame)) = Inr (n + 14, of_nat (unat len + 20), ETH_P_IP)"
    by (simp only: l2_eth_def rbind_simps htons_htons lf)
  have p: "length (pre @ eth_header mac ETH_P_IP) = n + 14" using assms(4) eth(1) by simp
  have buf: "buf = (pre @ eth_header mac ETH_P_IP) @ proto41_header len c src dst @ data @ Z"
    by (simp add: assms(11,12))
  note ip = proto41_header_bytes [OF assms(2,3) p, of len c "data @ Z", folded buf]
  obtain x where x: "rd16 buf (n + 14 + 2) = Inr x" using ip(2) by blast
  have t: "l4_ipv4_proto41 fuel E S src b = Some (Inr (Some tun, b))"
    using assms(8-10) by (simp add: l4_ipv4_proto41_def)
  have v: "drop_bit 4 (0x45 :: u8) = 4" "(0x45 :: u8) AND 0xf = 5" by simp_all
  have l: "of_nat (unat len + 20) - of_nat (4 * unat (5 :: u8)) = len" by simp
  have h: "n + 14 + 4 * unat (5 :: u8) = n + 34" by simp
  show "l3_ipv4_bpf fuel E S buf (n + 14) (of_nat (unat len + 20)) b = Some (Inr (Some (tun, n + 34, len), b))"
    unfolding l3_ipv4_bpf_def ip(1,3-5) x obind_simps v t Let_def prod.case option.map l h
    using assms(6,7) by simp
qed

text \<open>
  What one host sends into a tunnel another takes out of it unchanged. The frame that \<open>sendpacket6\<close>
  writes for a tunnel is IPv4 for \<open>l2_eth\<close>, and \<open>l3_ipv4\<close> of a host that has a tunnel with the sender's
  address as its remote end, does not have that address itself and is not reached through the 6to4
  relay, attributes it to that tunnel and hands the decoder exactly the IPv6 packet, with its
  length.
\<close>

theorem tunnel_roundtrip:
  assumes "b_tunnelmode b" and "bi_master (b_ints b ! i) = Some m"
    and "length (bi_ipv4_local (b_ints b ! i) ! 0) = 4" and "length (bi_ipv4_remote (b_ints b ! i)) = 4"
    and "iph + 40 \<le> length obj" and "iph + unat len \<le> length obj" and "unat len + 20 < 2 ^ 16"
    and "bi_ipv4_local (b_ints b ! i) ! 0 \<noteq> ipv4_6to4_relay" and "bi_ipv4_remote (b_ints b ! i) \<noteq> ipv4_6to4_relay"
    and "b_tunnelmode b2" and "local_find (bi_ipv4_local (b_ints b ! i) ! 0) b2 = None"
    and "int_find_ipv4 False (bi_ipv4_local (b_ints b ! i) ! 0) b2 = Some tun"
  shows "\<exists>sock frame. sendpacket6_bpf b i obj iph len = Inr (sock, frame) \<and>
    l2_eth frame 0 (of_nat (length frame)) = Inr (14, of_nat (unat len + 20), ETH_P_IP) \<and>
    l3_ipv4_bpf fuel E S frame 14 (of_nat (unat len + 20)) b2 = Some (Inr (Some (tun, 34, len), b2)) \<and>
    drop 34 frame = take (unat len) (drop iph obj)"
proof -
  let ?s = "bi_ipv4_local (b_ints b ! i) ! 0" and ?d = "bi_ipv4_remote (b_ints b ! i)"
  let ?mac = "take 4 (drop (iph + 36) obj)" and ?data = "take (unat len) (drop iph obj)"
  define frame where "frame = eth_header ?mac ETH_P_IP @
    proto41_header len (finish_chksum (ucast (inchksum (proto41_header len 0 ?s ?d)))) ?s ?d @ ?data"
  have send: "sendpacket6_bpf b i obj iph len = Inr (bi_socket (b_ints b ! m), frame)"
    using assms(1,2,5,6) by (simp add: sendpacket6_bpf_def bpf_frame_def rd_Inr Let_def frame_def)
  have "length ?mac = 4" "length ?data = unat len" using assms(5,6) by simp_all
  note f = tunnel_frame [OF this(1) assms(3,4) _ this(2) assms(8,9,10-12) frame_def, of "[]" 0 frame "[]"]
  show ?thesis using send f by (intro exI [of _ "bi_socket (b_ints b ! m)"] exI [of _ frame]) simp
qed

theorem tunnel_roundtrip_witness:
  "\<exists>sock frame. sendpacket6_bpf ex_bpf 1 (replicate 48 0) 0 48 = Inr (sock, frame) \<and>
     l3_ipv4_bpf 2 ex_benv (\<lambda>_. ex_sys) frame 14 68
       (ex_bpf\<lparr>b_ints := [ex_bint\<lparr>bi_ipv4_local := replicate 4 ipv4_any, bi_ipv4_remote := [10, 0, 0, 1]\<rparr>], b_maxinterfaces := 1\<rparr>) =
       Some (Inr (Some (0, 34, 48),
         ex_bpf\<lparr>b_ints := [ex_bint\<lparr>bi_ipv4_local := replicate 4 ipv4_any, bi_ipv4_remote := [10, 0, 0, 1]\<rparr>], b_maxinterfaces := 1\<rparr>))"
proof -
  let ?b2 = "ex_bpf\<lparr>b_ints := [ex_bint\<lparr>bi_ipv4_local := replicate 4 ipv4_any, bi_ipv4_remote := [10, 0, 0, 1]\<rparr>], b_maxinterfaces := 1\<rparr>"
  have "local_find [10, 0, 0, 1] ?b2 = None" "int_find_ipv4 False [10, 0, 0, 1] ?b2 = Some 0"
    by code_simp+
  with tunnel_roundtrip [of ex_bpf 1 0 0 "replicate 48 0" 48 ?b2 0 2 ex_benv "\<lambda>_. ex_sys"] show ?thesis
    by (simp add: ex_bpf_def ex_bint_def ipv4_6to4_relay_def) blast
qed

end
