(* ===== verification/Timeout.thy ===== *)
theory Timeout
  imports Update_Ifaces
begin

text \<open>
  \<open>timeout\<close>: subscriptions that were not refreshed for long are dropped, then the interfaces
  whose list of subscriptions is marked, then the groups without interfaces; queries follow on
  every interface.
\<close>

section \<open>The code\<close>

text \<open>
  \<open>LIST_LOOP2\<close> with a body that changes the data of its node and may delete the node: the body
  gives the data to keep, or \<open>None\<close>.
\<close>

definition cl_loop2 :: "('a \<Rightarrow> 'a option) \<Rightarrow> 'a clist \<Rightarrow> 'a clist" where
  "cl_loop2 body c = \<lparr>nodes = List.map_filter body (nodes c),
     count = count c - int (length (filter (\<lambda>x. body x = None) (nodes c)))\<rparr>"

text \<open>The difference of the two times is an \<open>int64_t\<close>.\<close>

definition subscr_dead :: "u64 \<Rightarrow> subscrnode \<Rightarrow> bool" where
  "subscr_dead time_tee s =
     (let i = time_tee - sb_refreshtime s;
          i' = (if sint i < 0 then - i else i)
      in sint i' > sint ECMH_SUBSCRIPTION_TIMEOUT * ECMH_ROBUSTNESS_FACTOR)"

definition timeout_grpint :: "u64 \<Rightarrow> grpintnode \<Rightarrow> grpintnode option" where
  "timeout_grpint time_tee gi =
     (let subs = cl_loop2_delete (subscr_dead time_tee) (gi_subscriptions gi)
      in if count subs \<le> - ECMH_ROBUSTNESS_FACTOR then None else Some (gi\<lparr>gi_subscriptions := subs\<rparr>))"

definition timeout_group :: "u64 \<Rightarrow> groupnode \<Rightarrow> groupnode option" where
  "timeout_group time_tee g =
     (let ifs = cl_loop2 (timeout_grpint time_tee) (gr_interfaces g)
      in if count ifs = 0 then None else Some (g\<lparr>gr_interfaces := ifs\<rparr>))"

definition send_mld_querys :: "env \<Rightarrow> world \<Rightarrow> world result" where
  "send_mld_querys E w =
     foldM (\<lambda>i u. if in_mtu (ints u ! i) = 0 then Inr u else mld_send_query E i in6addr_any u)
       [0..<unat (maxinterfaces w)] w"

definition timeout :: "env \<Rightarrow> world \<Rightarrow> world result" where
  "timeout E w =
     rbind (update_interfaces E None w) (\<lambda>w1.
       send_mld_querys E (w1\<lparr>groups := cl_loop2 (timeout_group (gettimes w1)) (groups w1)\<rparr>))"

section \<open>The loop over a keyed table\<close>

lemma nodes_loop2 [simp]: "nodes (cl_loop2 b c) = List.map_filter b (nodes c)"
  by (simp add: cl_loop2_def)

lemma length_map_filter:
  "length (List.map_filter b xs) + length (filter (\<lambda>x. b x = None) xs) = length xs"
  by (induction xs) (auto simp: map_filter_def)

lemma cl_exact_loop2_body: "cl_exact c \<Longrightarrow> cl_exact (cl_loop2 b c)"
  using length_map_filter [of b "nodes c"] by (simp add: cl_exact_def cl_loop2_def)

lemma set_map_filter: "set (List.map_filter b xs) = {y. \<exists>x \<in> set xs. b x = Some y}"
  by (induction xs) (auto simp: map_filter_def)

lemma map_filter_keys:
  assumes "\<And>x y. b x = Some y \<Longrightarrow> key y = key x" and "distinct (map key xs)"
  shows "distinct (map key (List.map_filter b xs))"
  using assms(2)
proof (induction xs)
  case (Cons x xs)
  have sub: "key ` set (List.map_filter b xs) \<subseteq> key ` set xs"
    using assms(1) by (auto simp: set_map_filter)
  show ?case
  proof (cases "b x")
    case None with Cons show ?thesis by (simp add: map_filter_simps)
  next
    case (Some y)
    with Cons sub assms(1) [OF Some] show ?thesis by (auto simp: map_filter_simps)
  qed
qed (simp add: map_filter_simps)

lemma find_map_filter:
  assumes "\<And>x y. b x = Some y \<Longrightarrow> key y = key x" and "distinct (map key xs)"
  shows "find (\<lambda>x. key x = k) (List.map_filter b xs) = Option.bind (find (\<lambda>x. key x = k) xs) b"
  using assms(2)
proof (induction xs)
  case (Cons x xs)
  have none: "find (\<lambda>x. key x = key x') (List.map_filter b xs) = None" if "key x' \<notin> key ` set xs" for x'
    using that assms(1) by (auto simp: find_None_iff set_map_filter) (metis imageI)
  show ?case
  proof (cases "b x")
    case None with Cons none [of x] show ?thesis by (auto simp: map_filter_simps)
  next
    case (Some y)
    with Cons assms(1) [OF Some] show ?thesis by (auto simp: map_filter_simps)
  qed
qed (simp add: map_filter_simps)

context keyed_table
begin

lemma tfind_loop2:
  assumes "\<And>x y. b x = Some y \<Longrightarrow> key y = key x" and "distinct (map key (nodes c))"
  shows "tfind (cl_loop2 b c) k = Option.bind (tfind c k) b"
  unfolding tfind_eq nodes_loop2 by (rule find_map_filter [OF assms])

end

section \<open>What is left after a timeout\<close>

lemma timeout_grpint_Some:
  "timeout_grpint t gi = Some gi' \<Longrightarrow>
     gi' = gi\<lparr>gi_subscriptions := cl_loop2_delete (subscr_dead t) (gi_subscriptions gi)\<rparr>"
  by (simp add: timeout_grpint_def Let_def split: if_splits)

lemma timeout_group_Some:
  "timeout_group t g = Some g' \<Longrightarrow> g' = g\<lparr>gr_interfaces := cl_loop2 (timeout_grpint t) (gr_interfaces g)\<rparr>"
  by (simp add: timeout_group_def Let_def split: if_splits)

text \<open>Only a list that is marked makes its interface disappear.\<close>

definition marked :: "grpintnode \<Rightarrow> bool" where
  "marked gi \<longleftrightarrow> count (gi_subscriptions gi) = - ECMH_ROBUSTNESS_FACTOR"

lemma timeout_grpint_ok:
  assumes "grpint_ok gi"
  shows "timeout_grpint t gi = (if marked gi then None
    else Some (gi\<lparr>gi_subscriptions := cl_loop2_delete (subscr_dead t) (gi_subscriptions gi)\<rparr>))"
proof -
  define d where "d = length (filter (subscr_dead t) (nodes (gi_subscriptions gi)))"
  have "int d \<le> int (length (nodes (gi_subscriptions gi)))" by (simp add: d_def)
  then show ?thesis
    using assms
    by (auto simp: timeout_grpint_def Let_def marked_def grpint_ok_def subs_ok_def cl_marked_def cl_exact_def
        cl_loop2_delete_def layout d_def [symmetric])
qed

lemma timeout_grpints_ok:
  assumes "grpints_ok l"
  shows "grpints_ok (cl_loop2 (timeout_grpint t) l)"
proof -
  have "distinct (map gi_ifindex (List.map_filter (timeout_grpint t) (nodes l)))"
    using assms by (intro map_filter_keys) (auto simp: grpints_ok_def dest: timeout_grpint_Some)
  with assms show ?thesis
    by (auto simp: grpints_ok_def set_map_filter grpint_ok_def
        dest!: timeout_grpint_Some intro!: cl_exact_loop2_body subs_ok_purge)
qed

lemma timeout_groups_ok:
  assumes "groups_ok l"
  shows "groups_ok (cl_loop2 (timeout_group t) l)"
proof -
  have "distinct (map gr_mca (List.map_filter (timeout_group t) (nodes l)))"
    using assms by (intro map_filter_keys) (auto simp: groups_ok_def dest: timeout_group_Some)
  with assms show ?thesis
    by (auto simp: groups_ok_def set_map_filter group_ok_def
        dest!: timeout_group_Some intro!: cl_exact_loop2_body timeout_grpints_ok)
qed

text \<open>An interface of a group goes exactly when it is marked; the others lose their dead subscriptions.\<close>

lemma timeout_grpint_of:
  assumes "groups_ok (groups w)"
  shows "grpint_of (w\<lparr>groups := cl_loop2 (timeout_group t) (groups w)\<rparr>) mca k =
    Option.bind (grpint_of w mca k) (timeout_grpint t)"
proof (cases "group_find (groups w) mca")
  case None
  have "group_find (cl_loop2 (timeout_group t) (groups w)) mca = None"
    using assms None by (subst grps.tfind_loop2) (auto simp: groups_ok_def dest: timeout_group_Some)
  with None show ?thesis by (simp add: grpint_of_def)
next
  case (Some g)
  have gf: "group_find (cl_loop2 (timeout_group t) (groups w)) mca = timeout_group t g"
    using assms Some by (subst grps.tfind_loop2) (auto simp: groups_ok_def dest: timeout_group_Some)
  have ok: "grpints_ok (gr_interfaces g)"
    using groups_okD(1) [OF assms Some] by (simp add: group_ok_def)
  have f: "grpint_find (cl_loop2 (timeout_grpint t) (gr_interfaces g)) k =
      Option.bind (grpint_find (gr_interfaces g) k) (timeout_grpint t)"
    using ok by (subst gints.tfind_loop2) (auto simp: grpints_ok_def dest: timeout_grpint_Some)
  show ?thesis
  proof (cases "timeout_group t g")
    case None
    then have "count (cl_loop2 (timeout_grpint t) (gr_interfaces g)) = 0"
      by (simp add: timeout_group_def Let_def split: if_splits)
    with timeout_grpints_ok [OF ok, of t]
    have "nodes (cl_loop2 (timeout_grpint t) (gr_interfaces g)) = []"
      unfolding grpints_ok_def cl_exact_def by simp
    then have "grpint_find (cl_loop2 (timeout_grpint t) (gr_interfaces g)) k = None"
      unfolding grpint_find_def by simp
    with f gf Some None show ?thesis by (simp add: grpint_of_def)
  next
    case (Some g')
    from timeout_group_Some [OF this] gf Some f \<open>group_find (groups w) mca = Some g\<close> show ?thesis
      by (simp add: grpint_of_def)
  qed
qed

definition mem_purge :: "u64 \<Rightarrow> mtable \<Rightarrow> mtable" where
  "mem_purge t m = (\<lambda>mca k a. case m mca k a of None \<Rightarrow> None
     | Some s \<Rightarrow> if subscr_dead t s then None else Some s)"

lemma timeout_membership:
  assumes "groups_ok (groups w)"
  shows "membership (w\<lparr>groups := cl_loop2 (timeout_group t) (groups w)\<rparr>) = mem_purge t (membership w)"
proof (intro ext)
  fix mca k a
  show "membership (w\<lparr>groups := cl_loop2 (timeout_group t) (groups w)\<rparr>) mca k a = mem_purge t (membership w) mca k a"
  proof (cases "grpint_of w mca k")
    case None
    then show ?thesis using timeout_grpint_of [OF assms, of t mca k]
      by (simp add: membership_def mem_purge_def)
  next
    case (Some gi)
    then obtain g where g: "group_find (groups w) mca = Some g" "grpint_find (gr_interfaces g) k = Some gi"
      by (auto simp: grpint_of_def split: option.splits)
    have ok: "grpint_ok gi"
      using groups_okD(1) [OF assms g(1)] gints.tfind_SomeD [OF g(2)] by (auto simp: group_ok_def grpints_ok_def)
    have "nodes (gi_subscriptions gi) = []" if "marked gi"
      using ok that unfolding grpint_ok_def subs_ok_def marked_def cl_marked_def cl_exact_def by (auto simp: layout)
    moreover have "distinct (map sb_ipv6 (nodes (gi_subscriptions gi)))"
      using ok by (simp add: grpint_ok_def subs_ok_def)
    ultimately show ?thesis
      using Some timeout_grpint_of [OF assms, of t mca k] timeout_grpint_ok [OF ok, of t]
        subs.tfind_purge [of "gi_subscriptions gi" "subscr_dead t" a]
      by (auto simp: membership_def mem_purge_def subscr_find_def split: option.splits)
  qed
qed

section \<open>The whole routine\<close>

lemma send_mld_querys_sends: "send_mld_querys E w = Inr w' \<Longrightarrow> sends w w'"
  unfolding send_mld_querys_def by (rule queries.loop_frame)

lemma timeout_spec:
  assumes "tables_ok w" and "env_ok E" and "timeout E w = Inr w'"
  shows "tables_ok w'" and "membership w' = mem_purge (w_now w) (membership w)"
    and "grpint_of w' mca k = Option.bind (grpint_of w mca k) (timeout_grpint (w_now w))"
    and "length (ints w) \<le> length (ints w')" and "buffer w' = buffer w" and "w_now w' = w_now w"
    and "mld1only w' = mld1only w" and "mld2only w' = mld2only w" and "bufferlen w' = bufferlen w"
proof -
  from assms(3) obtain w1 where w1: "update_interfaces E None w = Inr w1"
    and q: "send_mld_querys E (w1\<lparr>groups := cl_loop2 (timeout_group (w_now w1)) (groups w1)\<rparr>) = Inr w'"
    by (auto simp: timeout_def gettimes_def)
  define w2 where "w2 = w1\<lparr>groups := cl_loop2 (timeout_group (w_now w1)) (groups w1)\<rparr>"
  note u = update_interfaces_inv [OF assms(1,2) w1]
  have s: "sends w2 w'" using send_mld_querys_sends [OF q] by (simp add: w2_def)
  have ok1: "groups_ok (groups w1)" using u(1) by (simp add: tables_ok_def)
  have "tables_ok w2"
    using u(1) timeout_groups_ok [OF ok1] by (auto simp: tables_ok_def w2_def intro: ints_ok_frame)
  then show "tables_ok w'" by (rule inv_sends [OF s])
  show "membership w' = mem_purge (w_now w) (membership w)"
    using sends_membership [OF s] timeout_membership [OF ok1, of "w_now w1"] u by (simp add: w2_def)
  have "grpint_of w' = grpint_of w2" by (rule grpint_of_ints) (rule sends_fields(1) [OF s])
  moreover have "grpint_of w1 = grpint_of w" by (rule grpint_of_ints) (rule u(10))
  ultimately show "grpint_of w' mca k = Option.bind (grpint_of w mca k) (timeout_grpint (w_now w))"
    using timeout_grpint_of [OF ok1, of "w_now w1"] u by (simp add: w2_def)
  show "length (ints w) \<le> length (ints w')" "buffer w' = buffer w" "w_now w' = w_now w"
    "mld1only w' = mld1only w" "mld2only w' = mld2only w" "bufferlen w' = bufferlen w"
    using u sends_fields [OF s] by (simp_all add: w2_def)
qed

text \<open>Nothing can go wrong in a timeout while there is memory.\<close>

lemma mld_send_query_total:
  assumes "ints_ok w" and "addr_wf mca" and "i < length (ints w)"
  shows "\<exists>w'. mld_send_query E i mca w = Inr w'"
proof (cases "in_upstream (ints w ! i)")
  case True then show ?thesis by (simp add: mld_send_query_def Let_def)
next
  case False
  moreover have "addr_wf (in_linklocal (ints w ! i))" using int_ok_nth [OF assms(1,3)] by (simp add: int_ok_def)
  ultimately show ?thesis using mld_send_query_spec [OF _ assms(2)] by blast
qed

lemma send_mld_querys_total:
  assumes "ints_ok w"
  shows "\<exists>w'. send_mld_querys E w = Inr w'"
proof -
  have "\<exists>v. mld_send_query E i in6addr_any u = Inr v" if "i \<in> set [0..<unat (maxinterfaces w)]" "sends w u" for i u
    using that sends_ints_ok [OF that(2) assms] assms
    by (intro mld_send_query_total) (auto simp: ints_ok_def sends_fields)
  with queries.loop_total [of w w "[0..<unat (maxinterfaces w)]" "\<lambda>i u. in_mtu (ints u ! i) = 0" E in6addr_any]
  show ?thesis unfolding send_mld_querys_def by auto
qed

lemma timeout_total:
  assumes "tables_ok w" and "w_calloc w = []" and "env_ok E" and "discovery_ok E"
  shows "\<exists>w'. timeout E w = Inr w'"
proof -
  from assms(1) have "ints_ok w" by (simp add: tables_ok_def)
  then obtain w1 where w1: "update_interfaces E None w = Inr w1"
    using update_interfaces_total [OF _ assms(2-4)] by blast
  have "ints_ok (w1\<lparr>groups := gs\<rparr>)" for gs
    using update_interfaces_inv(1) [OF assms(1,3) w1] by (auto simp: tables_ok_def intro: ints_ok_frame)
  with w1 send_mld_querys_total show ?thesis by (auto simp: timeout_def)
qed

text \<open>For times that a clock shows the test is the distance in seconds.\<close>

lemma sint_small: "\<bar>x\<bar> < 2 ^ 62 \<Longrightarrow> sint (of_int x :: u64) = x"
  by (simp add: int_word_sint)

lemma subscr_dead_iff:
  assumes "unat t < 2 ^ 62" and "unat (sb_refreshtime s) < 2 ^ 62"
  shows "subscr_dead t s \<longleftrightarrow> \<bar>int (unat t) - int (unat (sb_refreshtime s))\<bar> > 250"
proof -
  define d where "d = int (unat t) - int (unat (sb_refreshtime s))"
  have eq: "t - sb_refreshtime s = of_int d" by (simp add: d_def)
  have "\<bar>int a - int b\<bar> < 2 ^ 62" if "a < 2 ^ 62" "b < 2 ^ 62" for a b using that by simp
  from this [OF assms] have "\<bar>d\<bar> < 2 ^ 62" unfolding d_def .
  then have d: "sint (of_int d :: u64) = d" "sint (- of_int d :: u64) = - d"
    using sint_small [of d] sint_small [of "- d"] by simp_all
  show ?thesis unfolding subscr_dead_def eq Let_def d_def [symmetric] using d
    by (auto simp: layout)
qed

end
