(* ===== verification/Packet_Path.thy ===== *)
theory Packet_Path
  imports Forward Timeout
begin

text \<open>
  What holds along the whole path of a received packet: which parts of the state no handler
  touches, that every handler keeps the tables well-formed, and when no handler can fault.
\<close>

section \<open>What the handlers leave alone\<close>

definition kept :: "world \<Rightarrow> world \<Rightarrow> bool" where
  "kept w w' \<longleftrightarrow> buffer w' = buffer w \<and> bufferlen w' = bufferlen w \<and> w_now w' = w_now w \<and>
     mld1only w' = mld1only w \<and> mld2only w' = mld2only w \<and> length (ints w') = length (ints w) \<and>
     (w_calloc w = [] \<longrightarrow> w_calloc w' = [])"

lemma kept_refl [simp]: "kept w w"
  by (simp add: kept_def)

lemma kept_trans: "kept u v \<Longrightarrow> kept v w \<Longrightarrow> kept u w"
  by (simp add: kept_def)

lemma kept_sends: "sends w w' \<Longrightarrow> kept w w'"
  by (simp add: kept_def sends_fields)

lemma kept_groups: "same_but_groups w w' \<Longrightarrow> kept w w'"
  by (simp add: kept_def same_but_groups_fields)

lemma kept_set_version [simp]:
  "kept w (int_set_mld_version i v u) = kept w u" "kept (int_set_mld_version i v w) u = kept w u"
  using int_set_mld_version_same(1) [where w = w and i = i and new = v]
    int_set_mld_version_same(1) [where w = u and i = i and new = v]
  by (simp_all add: kept_def same_but_ints_def)

lemma kept_upd_group [simp]:
  "kept w (upd_group mca f u) = kept w u" "kept (upd_group mca f w) u = kept w u"
  by (simp_all add: kept_def upd_group_def)

lemma kept_upd_grpint [simp]:
  "kept w (upd_grpint mca k f u) = kept w u" "kept (upd_grpint mca k f w) u = kept w u"
  by (simp_all add: upd_grpint_def)

lemma kept_upd_int [simp]: "kept w (upd_int i f u) = kept w u" "kept (upd_int i f w) u = kept w u"
  by (simp_all add: kept_def)

lemma kept_get: "groupint_get mca n w = Inr (p, isnew, w') \<Longrightarrow> kept w w'"
  by (elim groupint_get_Inr) (simp_all add: kept_groups)

lemma kept_refresh: "grpint_refresh_at p a mode w = Inr (ok, p', w') \<Longrightarrow> kept w w'"
  by (rule kept_groups [OF grpint_refresh_at_same])

lemma kept_report_all: "mld_send_report_all E i mca w = Inr w' \<Longrightarrow> kept w w'"
  by (rule kept_sends [OF mld_send_report_all_sends])

lemma mld1_report_kept: "l4_ipv6_icmpv6_mld1_report E i m w = Inr w' \<Longrightarrow> kept w w'"
  unfolding l4_ipv6_icmpv6_mld1_report_def Let_def
  by (auto dest!: kept_get kept_refresh kept_report_all split: if_splits option.splits) (meson kept_trans)+

lemma kept_query: "mld_send_query E i mca w = Inr w' \<Longrightarrow> kept w w'"
  by (rule kept_sends [OF queries.send_frame])

lemma mld1_reduction_kept: "l4_ipv6_icmpv6_mld1_reduction E i m w = Inr w' \<Longrightarrow> kept w w'"
  unfolding l4_ipv6_icmpv6_mld1_reduction_def Let_def
  by (auto dest!: kept_query split: if_splits option.splits prod.splits)

lemma mld2_sources_kept: "mld2_sources n src mode p w = Inr w' \<Longrightarrow> kept w w'"
proof (induction n arbitrary: src p w)
  case (Suc n)
  then show ?case by (cases p) (auto dest!: kept_refresh intro: kept_trans)
qed simp

lemma mld2_grecs_kept: "mld2_grecs E i m plen n g isnew w = Inr w' \<Longrightarrow> kept w w'"
proof (induction n arbitrary: g isnew w)
  case (Suc n)
  have group: "kept u v" if "mld2_grec_group i mca b u = Inr (p, b', v)" for mca b u p b' v
    using that by (auto simp: mld2_grec_group_def dest: kept_get split: if_splits)
  have subscribe: "kept u v" if "mld2_grec_subscribe m plen g t k p u = Inr (ret, v)" for t k p u ret v
    using that by (auto simp: mld2_grec_subscribe_def dest: kept_refresh mld2_sources_kept
        split: if_splits option.splits)
  show ?case using Suc
    by (auto dest!: group subscribe kept_report_all split: if_splits) (meson kept_trans)+
qed simp

lemma mld2_report_kept: "l4_ipv6_icmpv6_mld2_report E i m plen w = Inr w' \<Longrightarrow> kept w w'"
  unfolding l4_ipv6_icmpv6_mld2_report_def Let_def
  by (auto dest!: mld2_grecs_kept split: if_splits)

lemma mld_query_kept: "l4_ipv6_icmpv6_mld_query E i plen w = Inr w' \<Longrightarrow> kept w w'"
  using kept_sends [OF mld_query_sends] by simp

section \<open>Forwarding and ICMPv6 keep the tables\<close>

lemma forward_grpint_sends: "forward_grpint E i src iph len gi w = Inr w' \<Longrightarrow> sends w w'"
  by (auto simp: forward_grpint_def forward_subscr_eq split: if_splits option.splits dest: sendpacket6_sends(1))

lemma tables_ok_upd_int:
  assumes "tables_ok w" and "\<And>n. int_ok i n \<Longrightarrow> int_ok i (f n)"
  shows "tables_ok (upd_int i f w)"
  using assms by (auto simp: tables_ok_def intro: ints_ok_upd int_ok_nth)

lemma tables_ok_cong:
  "tables_ok w \<Longrightarrow> ints w' = ints w \<Longrightarrow> maxinterfaces w' = maxinterfaces w \<Longrightarrow> groups w' = groups w \<Longrightarrow> tables_ok w'"
  unfolding tables_ok_def by (auto intro: ints_ok_frame)

lemma membership_cong: "groups w' = groups w \<Longrightarrow> membership w' = membership w"
  by (simp add: membership_def grpint_of_def fun_eq_iff)

lemma multicast_inv:
  assumes "l4_ipv6_multicast E i iph len w = Inr w'"
  shows "kept w w'" and "membership w' = membership w" and "tables_ok w \<Longrightarrow> tables_ok w'"
proof -
  have "w' = w \<or> (\<exists>f dst gis src. (\<forall>g. gr_mca (f g) = gr_mca g \<and> gr_interfaces (f g) = gr_interfaces g) \<and>
      foldM (forward_grpint E i src iph len) gis (upd_group dst f w) = Inr w')"
  proof -
    obtain src dst where b: "rd (buffer w) (iph + 8) 16 = Inr src" "rd (buffer w) (iph + 24) 16 = Inr dst"
      using assms by (auto simp: l4_ipv6_multicast_def)
    show ?thesis
    proof (cases "not_routed src dst \<or> group_find (groups w) dst = None")
      case True with assms b have "w' = w" by (auto simp: l4_ipv6_multicast_def split: if_splits)
      then show ?thesis ..
    next
      case False
      then obtain g where "group_find (groups w) dst = Some g" by auto
      with assms b False show ?thesis
        by (intro disjI2 exI [of _ "\<lambda>g :: groupnode. g\<lparr>gr_bytes := gr_bytes g + ucast len, gr_packets := gr_packets g + 1\<rparr>"]
            exI [of _ dst] exI [of _ "nodes (gr_interfaces g)"] exI [of _ src])
          (simp add: l4_ipv6_multicast_def)
    qed
  qed
  then have "kept w w' \<and> membership w' = membership w \<and> (tables_ok w \<longrightarrow> tables_ok w')"
  proof (elim disjE exE conjE)
    fix f :: "groupnode \<Rightarrow> groupnode" and dst gis src
    assume f: "\<forall>g. gr_mca (f g) = gr_mca g \<and> gr_interfaces (f g) = gr_interfaces g"
      and run: "foldM (forward_grpint E i src iph len) gis (upd_group dst f w) = Inr w'"
    have s: "sends (upd_group dst f w) w'"
      by (rule foldM_invariant [OF run]) (auto dest: forward_grpint_sends intro: sends_trans)
    note c = upd_group_counters [of f, OF f [rule_format]]
    have "tables_ok (upd_group dst f w)" if "tables_ok w"
      using that c(3) by (auto simp: tables_ok_def upd_group_def intro: ints_ok_frame)
    with inv_sends [OF s] kept_sends [OF s] sends_membership [OF s] c(2) show ?thesis by simp
  qed simp
  then show "kept w w'" "membership w' = membership w" "tables_ok w \<Longrightarrow> tables_ok w'" by simp_all
qed

lemma icmp6_send_sends: "icmp6_send E i src t c obj d n w = Inr w' \<Longrightarrow> sends w w'"
  unfolding icmp6_send_def Let_def
  by (auto dest!: sendpacket6_sends(1) intro: sends_trans [OF _ count_icmp_sent_sends])

text \<open>The packet itself may be changed in the buffer.\<close>

definition passed :: "world \<Rightarrow> world \<Rightarrow> bool" where
  "passed w w' \<longleftrightarrow> (\<exists>b. length b = length (buffer w) \<and> kept (w\<lparr>buffer := b\<rparr>) w')"

lemma passed_kept: "kept w w' \<Longrightarrow> passed w w'"
  unfolding passed_def by (rule exI [of _ "buffer w"]) simp

lemma passed_trans: "passed u v \<Longrightarrow> passed v w \<Longrightarrow> passed u w"
  by (auto simp: passed_def kept_def)

lemma passed_fields:
  assumes "passed w w'"
  shows "length (buffer w') = length (buffer w)" and "bufferlen w' = bufferlen w" and "w_now w' = w_now w"
    and "mld1only w' = mld1only w" and "mld2only w' = mld2only w" and "length (ints w') = length (ints w)"
    and "w_calloc w = [] \<Longrightarrow> w_calloc w' = []"
  using assms by (auto simp: passed_def kept_def)

text \<open>What a step on the path keeps.\<close>

definition path_ok :: "world \<Rightarrow> world \<Rightarrow> bool" where
  "path_ok w w' \<longleftrightarrow> passed w w' \<and> (tables_ok w \<longrightarrow> tables_ok w')"

lemma path_ok_refl [simp]: "path_ok w w"
  by (simp add: path_ok_def passed_kept)

lemma path_ok_trans: "path_ok u v \<Longrightarrow> path_ok v w \<Longrightarrow> path_ok u w"
  by (auto simp: path_ok_def intro: passed_trans)

lemma path_ok_buffer:
  assumes "length b = length (buffer w)"
  shows "path_ok w (w\<lparr>buffer := b\<rparr>)"
  using assms by (auto simp: path_ok_def passed_def intro: tables_ok_cong)

lemma dec_hlim_path: "dec_hlim iph w = Inr (h, w') \<Longrightarrow> path_ok w w' \<and> groups w' = groups w"
  by (auto simp: dec_hlim_def Let_def dest!: wr_length intro: path_ok_buffer)

lemma rechecksum_path: "icmpv6_rechecksum iph m plen w = Inr w' \<Longrightarrow> path_ok w w' \<and> groups w' = groups w"
  by (auto simp: icmpv6_rechecksum_def wr16_def dest!: wr_length intro: path_ok_buffer)

lemma path_ok_handlers:
  "i < length (ints w) \<Longrightarrow> l4_ipv6_icmpv6_mld1_report E i m w = Inr w' \<Longrightarrow> path_ok w w'"
  "i < length (ints w) \<Longrightarrow> l4_ipv6_icmpv6_mld1_reduction E i m w = Inr w' \<Longrightarrow> path_ok w w'"
  "i < length (ints w) \<Longrightarrow> l4_ipv6_icmpv6_mld2_report E i m plen w = Inr w' \<Longrightarrow> path_ok w w'"
  "i < length (ints w) \<Longrightarrow> l4_ipv6_icmpv6_mld_query E i plen w = Inr w' \<Longrightarrow> path_ok w w'"
  "l4_ipv6_multicast E i iph len w = Inr w' \<Longrightarrow> path_ok w w'"
  "icmp6_send E i src t c obj d n w = Inr w' \<Longrightarrow> path_ok w w'"
  unfolding path_ok_def
proof -
  show "i < length (ints w) \<Longrightarrow> l4_ipv6_icmpv6_mld1_reduction E i m w = Inr w' \<Longrightarrow>
      passed w w' \<and> (tables_ok w \<longrightarrow> tables_ok w')"
  proof -
    assume a: "i < length (ints w)" "l4_ipv6_icmpv6_mld1_reduction E i m w = Inr w'"
    then obtain mca where "rd (buffer w) (m + 8) 16 = Inr mca"
      by (auto simp: l4_ipv6_icmpv6_mld1_reduction_def Let_def)
    with a mld1_reduction_spec(1) mld1_reduction_kept passed_kept show ?thesis by blast
  qed
qed (blast intro: passed_kept mld1_report_kept mld1_report_inv mld2_report_kept mld2_report_inv
      mld_query_kept mld_query_inv(1) multicast_inv(1,3) kept_sends icmp6_send_sends inv_sends)+

section \<open>The extension headers\<close>

lemma skip_headers_Some:
  assumes "skip_headers buf stop ipe t plen = Inr (Some (t', ipe', plen'))"
  shows "\<not> ext_header t' \<and> ipe \<le> ipe' \<and> (ipe' = ipe \<or> ipe' \<le> stop) \<and> plen' = plen - of_nat (ipe' - ipe)"
  using assms
proof (induction buf stop ipe t plen rule: skip_headers.induct)
  case (1 buf stop ipe t plen)
  show ?case
  proof (cases "ext_header t")
    case False
    with 1(2) show ?thesis by (simp add: skip_headers.simps [of buf stop ipe t])
  next
    case True
    with 1(2) obtain nxt l8 where b: "rd8 buf ipe = Inr nxt" "rd8 buf (ipe + 1) = Inr l8"
      and stop: "\<not> ipe + (unat l8 * 8 + 8) > stop"
      and rest: "skip_headers buf stop (ipe + (unat l8 * 8 + 8)) nxt (plen - of_nat (unat l8 * 8 + 8)) = Inr (Some (t', ipe', plen'))"
      unfolding skip_headers.simps [of buf stop ipe t] by (auto simp: Let_def split: if_splits)
    note ih = "1.IH" [OF _ b refl stop rest]
    have "(of_nat (unat l8 * 8 + 8) + of_nat (ipe' - (ipe + (unat l8 * 8 + 8))) :: u16) = of_nat (ipe' - ipe)"
      using ih True by (subst of_nat_add [symmetric]) simp
    then show ?thesis using ih True stop by (auto simp: diff_diff_eq)
  qed
qed

text \<open>The walk reads at most two bytes behind the packet.\<close>

lemma skip_headers_total:
  assumes "ipe + 2 \<le> length buf" and "stop + 2 \<le> length buf"
  shows "\<exists>r. skip_headers buf stop ipe t plen = Inr r"
  using assms
proof (induction buf stop ipe t plen rule: skip_headers.induct)
  case (1 buf stop ipe t plen)
  show ?case
  proof (cases "ext_header t")
    case True
    have b: "rd8 buf ipe = Inr (buf ! ipe)" "rd8 buf (ipe + 1) = Inr (buf ! (ipe + 1))"
      using 1(2) by (simp_all add: rd8_Inr)
    with 1 True show ?thesis
      unfolding skip_headers.simps [of buf stop ipe t] by (auto simp: Let_def)
  qed (simp add: skip_headers.simps [of buf stop ipe t])
qed

section \<open>The whole path\<close>

lemma path_ok_counters:
  "path_ok w (upd_int i (\<lambda>n. n\<lparr>in_icmp_received := c\<rparr>) (w\<lparr>stat_icmp_received := s\<rparr>))"
  "path_ok w (w\<lparr>stat_hlim_exceeded := s\<rparr>)"
proof -
  have "tables_ok (upd_int i (\<lambda>n. n\<lparr>in_icmp_received := c\<rparr>) (w\<lparr>stat_icmp_received := s\<rparr>))" if "tables_ok w"
    by (rule tables_ok_upd_int) (auto simp: int_ok_def intro: tables_ok_cong [OF that])
  moreover have "kept w (w\<lparr>stat_icmp_received := s\<rparr>)" "kept w (w\<lparr>stat_hlim_exceeded := s\<rparr>)" by (simp_all add: kept_def)
  ultimately show "path_ok w (upd_int i (\<lambda>n. n\<lparr>in_icmp_received := c\<rparr>) (w\<lparr>stat_icmp_received := s\<rparr>))"
    "path_ok w (w\<lparr>stat_hlim_exceeded := s\<rparr>)"
    by (auto simp: path_ok_def passed_kept intro: tables_ok_cong)
qed

lemma path_ok_length: "path_ok w w' \<Longrightarrow> length (ints w') = length (ints w)"
  by (simp add: path_ok_def passed_fields)

lemma echo_path:
  assumes "icmpv6_echo E i iph len m plen w = Inr w'"
  shows "path_ok w w'"
proof -
  from assms obtain h w1 where h: "dec_hlim iph w = Inr (h, w1)" by (auto simp: icmpv6_echo_def)
  have "path_ok w1 w'"
  proof (cases "h = 0")
    case True
    then obtain src d n where "icmp6_send E i src ICMP6_ECHO_REPLY ICMP6_TIME_EXCEED_TRANSIT (buffer w1) d n
        (w1\<lparr>stat_hlim_exceeded := stat_hlim_exceeded w1 + 1\<rparr>) = Inr w'"
      using assms h by (auto simp: icmpv6_echo_def)
    then show ?thesis by (rule path_ok_trans [OF path_ok_counters(2) path_ok_handlers(6)])
  qed (use assms h path_ok_handlers(5) in \<open>simp add: icmpv6_echo_def\<close>)
  with dec_hlim_path [OF h] show ?thesis by (blast intro: path_ok_trans)
qed

lemma mld_path:
  assumes "i < length (ints w)" and "icmpv6_mld E i iph m plen t w = Inr w'"
  shows "path_ok w w'"
  using assms(2) by (auto simp: icmpv6_mld_def dest: path_ok_handlers(1-4) [OF assms(1)] split: if_splits)

lemma icmpv6_path:
  assumes "i < length (ints w)" and "l4_ipv6_icmpv6 E i iph len m plen w = Inr w'"
  shows "path_ok w w'"
proof -
  define w0 where "w0 = upd_int i (\<lambda>n. n\<lparr>in_icmp_received := in_icmp_received n + 1\<rparr>)
                 (w\<lparr>stat_icmp_received := stat_icmp_received w + 1\<rparr>)"
  have w0: "path_ok w w0"
    using path_ok_counters(1) [of w i "in_icmp_received (ints w ! i) + 1"]
    by (simp add: w0_def upd_int_def)
  from assms(2) obtain t where t: "rd8 (buffer w0) m = Inr t"
    by (auto simp: l4_ipv6_icmpv6_def w0_def [symmetric] Let_def)
  show ?thesis
  proof (cases "icmpv6_interesting t")
    case False
    with assms(2) t w0 show ?thesis by (simp add: l4_ipv6_icmpv6_def w0_def [symmetric] Let_def)
  next
    case True
    with assms(2) t obtain w1 where r: "icmpv6_rechecksum iph m plen w0 = Inr w1"
      and rest: "icmpv6_echo E i iph len m plen w1 = Inr w' \<or> icmpv6_mld E i iph m plen t w1 = Inr w'"
      by (auto simp: l4_ipv6_icmpv6_def w0_def [symmetric] Let_def split: if_splits)
    have w1: "path_ok w w1" using rechecksum_path [OF r] path_ok_trans [OF w0] by blast
    then have "i < length (ints w1)" using assms(1) by (simp add: path_ok_length)
    with rest echo_path mld_path have "path_ok w1 w'" by blast
    then show ?thesis by (rule path_ok_trans [OF w1])
  qed
qed

lemma l3_ipv6_cases:
  assumes "l3_ipv6 E i iph len w = Inr w'"
  obtains "w' = w" | m plen where "iph + 40 \<le> m" "l4_ipv6_icmpv6 E i iph len m plen w = Inr w'"
    | h w1 where "dec_hlim iph w = Inr (h, w1)" "w' = w1\<lparr>stat_hlim_exceeded := stat_hlim_exceeded w1 + 1\<rparr>"
    | h w1 where "dec_hlim iph w = Inr (h, w1)" "l4_ipv6_multicast E i iph len w1 = Inr w'"
proof -
  have above: "iph + 40 \<le> m" if "skip_headers (buffer w) stop (iph + 40) t pl = Inr (Some (t', m, plen))"
    for stop t pl t' m plen using skip_headers_Some [OF that] by simp
  show ?thesis
    using assms that unfolding l3_ipv6_def sizeof_ip6_hdr_def
    by (simp split: if_splits option.splits prod.splits) (metis above)
qed

lemma l3_ipv6_path:
  assumes "i < length (ints w)" and "l3_ipv6 E i iph len w = Inr w'"
  shows "path_ok w w'"
  using assms(2)
proof (cases rule: l3_ipv6_cases)
  case 2 with assms(1) show ?thesis by (blast intro: icmpv6_path)
next
  case (3 h w1)
  with dec_hlim_path [OF 3(1)] show ?thesis by (blast intro: path_ok_trans path_ok_counters(2))
next
  case (4 h w1)
  with dec_hlim_path [OF 4(1)] show ?thesis by (blast intro: path_ok_trans path_ok_handlers(5))
qed simp

lemma l2_ethtype_path:
  assumes "i < length (ints w)" and "l2_ethtype E i packet len t w = Inr w'"
  shows "path_ok w w'"
proof (cases "t = ucast ETH_P_IP")
  case True
  with assms(2) show ?thesis
    by (auto simp: l2_ethtype_def l3_ipv4_def split: if_splits)
next
  case False
  with assms show ?thesis by (auto simp: l2_ethtype_def dest: l3_ipv6_path split: if_splits)
qed

end
