(* ===== verification/Packet_Safety.thy ===== *)
theory Packet_Safety
  imports Packet_Path
begin

text \<open>
  When the path of a packet cannot fault. The daemon believes the payload length of the IPv6
  header, and its MLDv2 report writer has limits of its own, so this is shown for packets whose
  payload length is that of the frame, and for the MLDv1-only mode: then no read or write of
  any handler leaves its object, whatever the packet holds.
\<close>

section \<open>Sending in the MLDv1-only mode\<close>

definition calm_mld1 :: "world \<Rightarrow> bool" where
  "calm_mld1 w \<longleftrightarrow> tables_ok w \<and> mld1only w \<and> w_calloc w = []"

lemma calm_path: "path_ok w w' \<Longrightarrow> calm_mld1 w \<Longrightarrow> calm_mld1 w'"
  by (auto simp: calm_mld1_def path_ok_def passed_fields)

lemma calm_kept: "kept w w' \<Longrightarrow> tables_ok w' \<Longrightarrow> calm_mld1 w \<Longrightarrow> calm_mld1 w'"
  by (auto simp: calm_mld1_def kept_def)

lemma calm_sends: "sends w w' \<Longrightarrow> calm_mld1 w \<Longrightarrow> calm_mld1 w'"
  by (auto simp: calm_mld1_def sends_fields inv_sends)

lemma mld_send_report_total:
  assumes "calm_mld1 w" and "i < length (ints w)" and "addr_wf mca"
  shows "\<exists>w'. mld_send_report E i mca w = Inr w'"
proof -
  have ll: "addr_wf (in_linklocal (ints w ! i))"
    using assms int_ok_nth [of w i] by (simp add: calm_mld1_def tables_ok_def int_ok_def)
  obtain w1 where w1: "mld1_send_report E i mca w = Inr w1"
    using mld1_send_report_spec [OF ll assms(3)] by blast
  have "mld1only w1" "mld1only w"
    using assms(1) sends_fields(6) [OF mld1_send_report_sends [OF w1]] by (auto simp: calm_mld1_def)
  with w1 show ?thesis by (simp add: mld_send_report_def Let_def)
qed

lemma mld_send_report_all_total:
  assumes "calm_mld1 w" and "addr_wf mca"
  shows "\<exists>w'. mld_send_report_all E i mca w = Inr w'"
proof -
  have "\<exists>v. mld_send_report E j mca u = Inr v" if "j \<in> set [0..<unat (maxinterfaces w)]" "sends w u" for j u
    using that calm_sends [OF that(2) assms(1)] assms
    by (intro mld_send_report_total) (auto simp: calm_mld1_def tables_ok_def ints_ok_def sends_fields)
  with reports.loop_total [of w w "[0..<unat (maxinterfaces w)]"
      "\<lambda>j u. in_mtu (ints u ! j) = 0 \<or> in_ifindex (ints u ! i) = in_ifindex (ints u ! j)" E mca]
  show ?thesis unfolding mld_send_report_all_def by auto
qed

section \<open>The handlers\<close>

lemma calm_set_version:
  "calm_mld1 w \<Longrightarrow> i < length (ints w) \<Longrightarrow> v \<in> {1, 2} \<Longrightarrow> calm_mld1 (int_set_mld_version i v w)"
  by (auto simp: calm_mld1_def inv_set_version)

lemma mld1_report_runs:
  assumes "tables_ok w" and "w_calloc w = []" and "i < length (ints w)" and "m + 24 \<le> length (buffer w)"
    and send: "\<And>mca u. group_addr mca \<Longrightarrow> tables_ok u \<Longrightarrow> w_calloc u = [] \<Longrightarrow> same_but_groups (int_set_mld_version i 1 w) u \<Longrightarrow>
      membership u = mem_report mca (in_ifindex (ints w ! i)) in6addr_any MODE_INCLUDE (w_now w) (membership w) \<Longrightarrow>
      \<exists>w'. mld_send_report_all E i mca u = Inr w'"
  shows "\<exists>w'. l4_ipv6_icmpv6_mld1_report E i m w = Inr w'"
proof -
  define w1 where "w1 = int_set_mld_version i 1 w"
  define mca where "mca = take 16 (drop (m + 8) (buffer w1))"
  have ok1: "tables_ok w1" unfolding w1_def by (rule inv_set_version [OF assms(1,3)]) simp
  have mem: "w_calloc w1 = []" using assms(2) by (simp add: w1_def)
  have rd: "rd (buffer w1) (m + 8) 16 = Inr mca" using assms(4) by (simp add: mca_def w1_def rd_Inr)
  have ix: "in_ifindex (ints w1 ! i) = in_ifindex (ints w ! i)"
    using assms(3) by (simp add: w1_def int_set_mld_version_eq upd_int_nth Let_def case_prod_beta)
  show ?thesis
  proof (cases "mld1_ignored mca")
    case True
    with rd show ?thesis by (simp add: l4_ipv6_icmpv6_mld1_report_def w1_def [symmetric] Let_def)
  next
    case False
    have ga: "group_addr mca" using False rd by (simp add: group_addr_mld1 rd_addr)
    obtain isnew w2 where g: "groupint_get mca (ints w1 ! i) w1 = Inr (Some (Linked mca (in_ifindex (ints w1 ! i))), isnew, w2)"
      using groupint_get_mem [OF mem] by blast
    note l = get_linked [OF mem g]
    have ok2: "tables_ok w2" by (rule groupint_get_inv(1) [OF ok1 ga g])
    obtain r p' w3 where r: "grpint_refresh_at (Linked mca (in_ifindex (ints w1 ! i))) in6addr_any MODE_INCLUDE w2 = Inr (r, p', w3)"
      using grpint_refresh_at_valid [OF groupint_get_valid [OF g], of in6addr_any MODE_INCLUDE] by auto
    note k = refresh_linked [OF l(3) r]
    have "\<exists>w4. mld_send_report_all E i mca w3 = Inr w4"
    proof (rule send [OF ga refresh_inv(1) [OF ok2 _ _ r] k(4)])
      show "same_but_groups (int_set_mld_version i 1 w) w3"
        using same_but_groups_trans [OF l(4) k(5)] by (simp add: w1_def)
      show "membership w3 = mem_report mca (in_ifindex (ints w ! i)) in6addr_any MODE_INCLUDE (w_now w) (membership w)"
        using k(1) l(2) ix same_but_groups_fields(2) [OF l(4)] by (simp add: w1_def)
    qed simp_all
    with rd False g r show ?thesis
      by (auto simp: l4_ipv6_icmpv6_mld1_report_def w1_def [symmetric] Let_def)
  qed
qed

lemma mld1_report_total:
  assumes "calm_mld1 w" and "i < length (ints w)" and "m + 24 \<le> length (buffer w)"
  shows "\<exists>w'. l4_ipv6_icmpv6_mld1_report E i m w = Inr w'"
proof (rule mld1_report_runs)
  fix mca u
  assume u: "group_addr mca" "tables_ok u" "same_but_groups (int_set_mld_version i 1 w) u"
  have "calm_mld1 u"
    using calm_kept [OF kept_groups [OF u(3)] u(2)] calm_set_version [OF assms(1,2), of 1] by simp
  with u(1) show "\<exists>w'. mld_send_report_all E i mca u = Inr w'"
    by (intro mld_send_report_all_total) (simp_all add: group_addr_def)
qed (use assms in \<open>simp_all add: calm_mld1_def\<close>)

lemma mld1_reduction_total:
  assumes "calm_mld1 w" and "i < length (ints w)" and "m + 24 \<le> length (buffer w)"
  shows "\<exists>w'. l4_ipv6_icmpv6_mld1_reduction E i m w = Inr w'"
proof -
  define w1 where "w1 = int_set_mld_version i 1 w"
  define mca where "mca = take 16 (drop (m + 8) (buffer w1))"
  have c1: "calm_mld1 w1" unfolding w1_def by (rule calm_set_version [OF assms(1,2)]) simp
  have rd: "rd (buffer w1) (m + 8) 16 = Inr mca" using assms(3) by (simp add: mca_def w1_def rd_Inr)
  have q: "\<exists>w3. mld_send_query E i mca (upd_grpint mca k f w1) = Inr w3" for k f
  proof (rule mld_send_query_total)
    show "ints_ok (upd_grpint mca k f w1)"
      using c1 by (auto simp: calm_mld1_def tables_ok_def upd_grpint_eq intro: ints_ok_frame)
    show "i < length (ints (upd_grpint mca k f w1))" using assms(2) by (simp add: w1_def upd_grpint_eq)
  qed (rule rd_addr [OF rd])
  show ?thesis
    unfolding l4_ipv6_icmpv6_mld1_reduction_def w1_def [symmetric] Let_def rd
    by (auto split: option.split prod.split intro: q)
qed

lemma rd16_Inr: "a + 1 < length buf \<Longrightarrow> \<exists>n. rd16 buf a = Inr n"
  by (simp add: rd16_def rd8_Inr)

lemma rd16_at: "b < length buf \<Longrightarrow> b = a + 1 \<Longrightarrow> rd16 buf a = Inr (le16 (buf ! a) (buf ! b))"
  by (simp add: rd16_def rd8_Inr)

lemma mld2_sources_total:
  assumes "\<And>q. p = Some q \<Longrightarrow> valid_ptr w q" and "mode \<in> {MODE_INCLUDE, MODE_EXCLUDE}"
    and "src + 16 * n \<le> length (buffer w)"
  shows "\<exists>w'. mld2_sources n src mode p w = Inr w'"
  using assms(1,3)
proof (induction n arbitrary: src p w)
  case (Suc n)
  show ?case
  proof (cases p)
    case (Some q)
    define a where "a = take 16 (drop src (buffer w))"
    have rd: "rd (buffer w) src 16 = Inr a" using Suc.prems(2) by (simp add: a_def rd_Inr)
    obtain r q' w1 where r: "grpint_refresh_at q a mode w = Inr (r, q', w1)" "valid_ptr w1 q'"
      using grpint_refresh_at_valid [OF Suc.prems(1) [OF Some] rd_addr [OF rd] assms(2)] by blast
    have "buffer w1 = buffer w" using kept_refresh [OF r(1)] by (simp add: kept_def)
    then show ?thesis using Suc.IH [of "Some q'" w1 "src + 16"] Suc.prems(2) Some rd r by simp
  qed (simp add: mld2_sources_None)
qed simp

lemma mld2_grec_group_total:
  assumes "calm_mld1 w" and "addr_wf mca"
  shows "\<exists>p isnew' w'. mld2_grec_group i mca isnew w = Inr (p, isnew', w') \<and> calm_mld1 w' \<and> kept w w' \<and>
    (\<forall>q. p = Some q \<longrightarrow> valid_ptr w' q)"
proof (cases "\<not> IN6_IS_ADDR_MC_NODELOCAL mca \<and> \<not> IN6_IS_ADDR_MC_LINKLOCAL mca")
  case True
  then have ga: "group_addr mca" using assms(2) by (simp add: group_addr_def)
  have ok: "tables_ok w" "w_calloc w = []" using assms(1) by (simp_all add: calm_mld1_def)
  obtain p isnew' w' where g: "groupint_get mca (ints w ! i) w = Inr (Some p, isnew', w')"
    using groupint_get_mem [OF ok(2)] by blast
  have "calm_mld1 w'" by (rule calm_kept [OF kept_get [OF g] groupint_get_inv(1) [OF ok(1) ga g] assms(1)])
  with True g kept_get [OF g] groupint_get_valid [OF g] show ?thesis by (simp add: mld2_grec_group_def)
next
  case False
  with assms(1) show ?thesis by (auto simp: mld2_grec_group_def)
qed

lemma mld2_grec_subscribe_total:
  assumes "calm_mld1 w" and "\<And>q. p = Some q \<Longrightarrow> valid_ptr w q" and "m \<le> g" and "m + plen \<le> length (buffer w)"
  shows "\<exists>ret w'. mld2_grec_subscribe m plen g t n p w = Inr (ret, w') \<and> calm_mld1 w' \<and> kept w w'"
proof -
  have "\<exists>ret w'. mld2_grec_subscribe m plen g t n p w = Inr (ret, w')"
  proof (cases "n = 0")
    case True
    show ?thesis
    proof (cases p)
      case (Some q)
      obtain r q' w1 where
        "grpint_refresh_at q in6addr_any (if grec_excludes t then MODE_INCLUDE else MODE_EXCLUDE) w = Inr (r, q', w1)"
        using grpint_refresh_at_valid [OF assms(2) [OF Some] addr_wf_any, of "if grec_excludes t then MODE_INCLUDE else MODE_EXCLUDE"]
        by (cases "grec_excludes t") auto
      with True Some show ?thesis by (simp add: mld2_grec_subscribe_def)
    qed (use True in \<open>auto simp: mld2_grec_subscribe_def\<close>)
  next
    case False
    have "\<exists>w'. mld2_sources n (g + 20) (if grec_excludes t then MODE_EXCLUDE else MODE_INCLUDE) p w = Inr w'"
      if "g + 20 - m + n * 16 \<le> plen"
      using that assms(2-4) by (intro mld2_sources_total) auto
    with False show ?thesis by (auto simp: mld2_grec_subscribe_def sizes)
  qed
  then obtain ret w' where s: "mld2_grec_subscribe m plen g t n p w = Inr (ret, w')" by blast
  have inv: "tables_ok w'" "same_but_groups w w'"
    using mld2_grec_subscribe_inv [OF s] assms(1) by (auto simp: calm_mld1_def)
  from calm_kept [OF kept_groups [OF inv(2)] inv(1) assms(1)] kept_groups [OF inv(2)] s show ?thesis by blast
qed

lemma mld2_grecs_total:
  assumes "calm_mld1 w" and "m \<le> g" and "m + plen + 20 \<le> length (buffer w)"
  shows "\<exists>w'. mld2_grecs E i m plen n g isnew w = Inr w'"
  using assms
proof (induction n arbitrary: g isnew w)
  case (Suc n)
  show ?case
  proof (cases "g > m + plen")
    case False
    define mca where "mca = take 16 (drop (g + 4) (buffer w))"
    obtain n16 where n16: "rd16 (buffer w) (g + 2) = Inr n16"
      using rd16_Inr [of "g + 2" "buffer w"] False Suc.prems(3) by auto
    define ns where "ns = unat (ntohs n16)"
    have rds: "rd16 (buffer w) (g + 2) = Inr n16"
      "rd8 (buffer w) g = Inr (buffer w ! g)" "rd (buffer w) (g + 4) 16 = Inr mca"
      using n16 False Suc.prems(3) by (simp_all add: rd8_Inr rd_Inr mca_def)
    obtain p isnew' w1 where g: "mld2_grec_group i mca isnew w = Inr (p, isnew', w1)" "calm_mld1 w1" "kept w w1"
        "\<forall>q. p = Some q \<longrightarrow> valid_ptr w1 q"
      using mld2_grec_group_total [OF Suc.prems(1) rd_addr [OF rds(3)]] by blast
    have len1: "m + plen \<le> length (buffer w1)" using Suc.prems(3) g(3) by (simp add: kept_def)
    obtain ret w2 where s: "mld2_grec_subscribe m plen g (buffer w ! g) ns p w1 = Inr (ret, w2)" "calm_mld1 w2" "kept w1 w2"
      using mld2_grec_subscribe_total [OF g(2) _ Suc.prems(2) len1] g(4) by blast
    obtain w3 where w3: "(if isnew' then mld_send_report_all E i mca w2 else Inr w2) = Inr w3"
      using mld_send_report_all_total [OF s(2) rd_addr [OF rds(3)]] by (cases isnew') auto
    then have "sends w2 w3" by (auto dest: mld_send_report_all_sends split: if_splits)
    then have c3: "calm_mld1 w3" "kept w w3"
      using calm_sends s(2) kept_sends g(3) s(3) by (blast, blast intro: kept_trans)
    then have "length (buffer w3) = length (buffer w)" by (simp add: kept_def)
    moreover from this have "rd8 (buffer w3) (g + 1) = Inr (buffer w3 ! (g + 1))"
      using False Suc.prems(3) by (simp add: rd8_Inr)
    moreover have "\<exists>w'. mld2_grecs E i m plen n (g + 20 + 16 * ns + unat (buffer w3 ! (g + 1))) isnew' w3 = Inr w'"
      using Suc.prems c3(1) calculation(1) by (intro Suc.IH) simp_all
    ultimately show ?thesis
      using False rds g(1) s(1) w3 by (simp add: sizes ns_def)
  qed simp
qed simp

lemma mld2_report_total:
  assumes "calm_mld1 w" and "i < length (ints w)" and "m + unat plen + 20 \<le> length (buffer w)"
  shows "\<exists>w'. l4_ipv6_icmpv6_mld2_report E i m plen w = Inr w'"
proof -
  obtain n where "rd16 (buffer w) (m + 6) = Inr n"
    using rd16_Inr [of "m + 6" "buffer w"] assms(3) by auto
  moreover have "calm_mld1 (int_set_mld_version i 2 w)" by (rule calm_set_version [OF assms(1,2)]) simp
  ultimately show ?thesis
    using mld2_grecs_total [of "int_set_mld_version i 2 w" m "m + 8" "unat plen"] assms(3)
    by (simp add: l4_ipv6_icmpv6_mld2_report_def Let_def sizes)
qed

lemma query_group_total:
  assumes "calm_mld1 w" and "i < length (ints w)" and "addr_wf (gr_mca g)"
  shows "\<exists>w'. query_group E i g w = Inr w' \<and> sends w w'"
  unfolding query_group_def
proof (rule foldM_total [where P = "sends w"])
  fix gi u
  assume s: "sends w u"
  then have "\<exists>v. mld_send_report E i (gr_mca g) u = Inr v"
    using calm_sends [OF s assms(1)] assms(2,3) by (intro mld_send_report_total) (simp_all add: sends_fields)
  with s show "\<exists>v. (if gi_ifindex gi \<noteq> in_ifindex (ints u ! i) then Inr u else mld_send_report E i (gr_mca g) u) = Inr v \<and>
      sends w v"
    by (auto intro: sends_trans reports.send_frame)
qed simp

lemma mld_query_total:
  assumes "calm_mld1 w" and "i < length (ints w)"
  shows "\<exists>w'. l4_ipv6_icmpv6_mld_query E i plen w = Inr w'"
proof -
  define w1 where "w1 = (if unat plen = sizeof_mld1 then int_set_mld_version i 1 w else int_set_mld_version i 2 w)"
  have c1: "calm_mld1 w1" using calm_set_version [OF assms] by (simp add: w1_def)
  have i1: "i < length (ints w1)" using assms(2) by (simp add: w1_def)
  have "\<exists>w'. foldM (query_group E i) (nodes (groups w1)) w1 = Inr w' \<and> sends w1 w'"
  proof (rule foldM_total [where P = "sends w1"])
    fix g u
    assume g: "g \<in> set (nodes (groups w1))" and s: "sends w1 u"
    have "addr_wf (gr_mca g)"
      using g c1 by (auto simp: calm_mld1_def tables_ok_def groups_ok_def group_ok_def)
    then obtain v where "query_group E i g u = Inr v" "sends u v"
      using query_group_total [of u i g E] calm_sends [OF s c1] i1 s by (auto simp: sends_fields)
    with s show "\<exists>v. query_group E i g u = Inr v \<and> sends w1 v" by (blast intro: sends_trans)
  qed simp
  moreover have "mld1only w1" using c1 by (simp add: calm_mld1_def)
  ultimately show ?thesis
    unfolding l4_ipv6_icmpv6_mld_query_def w1_def [symmetric] Let_def by auto
qed

section \<open>Forwarding and the answer to an expired echo request\<close>

lemma forward_grpint_total:
  assumes "iph + 40 \<le> length (buffer w)" and "iph + unat len \<le> length (buffer w)"
  shows "\<exists>w'. forward_grpint E i src iph len gi w = Inr w'"
  using sendpacket6_Inr [OF assms, of E _ w]
  by (auto simp: forward_grpint_def forward_subscr_eq split: option.split)

lemma multicast_total:
  assumes "iph + 40 \<le> length (buffer w)" and "iph + unat len \<le> length (buffer w)"
  shows "\<exists>w'. l4_ipv6_multicast E i iph len w = Inr w'"
proof -
  have run: "\<exists>w'. foldM (forward_grpint E i src iph len) gis (upd_group dst f w) = Inr w' \<and> sends (upd_group dst f w) w'"
    for src gis dst f
  proof (rule foldM_total [where P = "sends (upd_group dst f w)"])
    fix gi u
    assume s: "sends (upd_group dst f w) u"
    then have "buffer u = buffer w" by (simp add: sends_fields upd_group_def)
    with assms obtain v where "forward_grpint E i src iph len gi u = Inr v"
      using forward_grpint_total [of iph u len E i src gi] by auto
    with s show "\<exists>v. forward_grpint E i src iph len gi u = Inr v \<and> sends (upd_group dst f w) v"
      by (blast intro: sends_trans forward_grpint_sends)
  qed simp
  from this [THEN exE] have "\<exists>w'. foldM (forward_grpint E i src iph len) gis (upd_group dst f w) = Inr w'"
    for src gis dst f by blast
  then show ?thesis
    unfolding multicast_inside [OF assms(1)] Let_def by (simp split: option.split)
qed

lemma checksum_total:
  assumes "iph + 40 \<le> length obj" and "d + unat len \<le> length obj"
  shows "\<exists>c. ipv6_checksum_at obj iph proto d len = Inr c"
  using assms by (simp add: ipv6_checksum_at_def rd_Inr)

lemma rechecksum_total:
  assumes "iph + 40 \<le> length (buffer w)" and "m + 4 \<le> length (buffer w)" and "m + unat plen \<le> length (buffer w)"
  shows "\<exists>w'. icmpv6_rechecksum iph m plen w = Inr w'"
proof -
  obtain c where c: "rd16 (buffer w) (m + 2) = Inr c"
    using rd16_Inr [of "m + 2" "buffer w"] assms(2) by auto
  obtain b where b: "wr16 (buffer w) (m + 2) 0 = Inr b" using assms(2) by (auto simp: wr16_def wr_def)
  then have len: "length b = length (buffer w)" by (simp add: wr16_def wr_length)
  obtain x where x: "ipv6_checksum_at b iph IPPROTO_ICMPV6 m plen = Inr x"
    using checksum_total [of iph b m plen IPPROTO_ICMPV6] assms len by auto
  have "\<exists>b'. wr16 b (m + 2) x = Inr b'" using assms(2) len by (simp add: wr16_def wr_def)
  with c b x show ?thesis by (auto simp: icmpv6_rechecksum_def)
qed

lemma dec_hlim_total:
  assumes "iph + 40 \<le> length (buffer w)"
  shows "\<exists>h b. dec_hlim iph w = Inr (h, w\<lparr>buffer := b\<rparr>) \<and> length b = length (buffer w)"
  using assms by (auto simp: dec_hlim_def rd8_Inr wr_def Let_def)

text \<open>The lengths of the answer, which the code computes with wrap-around.\<close>

lemma cut16: "(c + x mod 18446744073709551616 mod 4294967296) mod 65536 = (c + x) mod (65536 :: int)"
proof -
  have "x mod 18446744073709551616 mod 4294967296 mod 65536 = x mod (65536 :: int)"
    by (simp add: mod_mod_cancel)
  then show ?thesis by (metis mod_add_right_eq)
qed

lemma shift40: "(44 + (p mod m - 4)) mod m = (p + 40) mod (m :: int)"
  using mod_add_left_eq [of p m 40] by (simp add: algebra_simps)

lemma echo_checksum_len:
  "(ucast (8 + ucast (ucast (ucast (p :: u16) - 8 + 4 :: u64) :: u32) - 4 :: u64) :: u16) = p"
  by transfer (simp add: take_bit_eq_mod cut16)

lemma echo_packet_len:
  "(ucast (1548 - (1500 - ucast (ucast (ucast (p :: u16) - 8 + 4 :: u64) :: u32)) - 4 :: u64) :: u16) = p + 40"
  by transfer (simp add: take_bit_eq_mod, simp only: cut16 shift40)

lemma icmp6_send_total:
  fixes plen :: u16
  assumes "addr_wf (in_global (ints w ! i))" and "addr_wf src" and "unat plen \<le> 1508" and "d + 1500 \<le> length obj"
  shows "\<exists>w'. icmp6_send E i src t c obj d (ucast (ucast plen - 8 + 4 :: u64)) w = Inr w'"
proof -
  define dlen :: u32 where "dlen = ucast (ucast plen - 8 + 4 :: u64)"
  define n where "n = (if (1500 :: u64) > ucast dlen then unat dlen else 1500)"
  define pkt where "pkt = ip6_hdr plen IPPROTO_ICMPV6 64
      (in_global (ints w ! i)) src @ t # c # replicate 1506 0"
  have n: "n \<le> 1500" by (auto simp: n_def word_less_nat_alt ucast_u32_le)
  have len: "length pkt = 1548" using assms(1,2) by (simp add: pkt_def)
  have bs: "rd obj d n = Inr (take n (drop d obj))" using n assms(4) by (simp add: rd_Inr)
  obtain p1 where p1: "wr pkt 44 (take n (drop d obj)) = Inr p1" using n len assms(4) by (simp add: wr_def)
  have l1: "length p1 = 1548" using wr_length [OF p1] len by simp
  obtain x where x: "ipv6_checksum_at p1 0 IPPROTO_ICMPV6 40 plen = Inr x"
    using checksum_total [of 0 p1 40 plen] l1 assms(3) by auto
  obtain p2 where p2: "wr p1 42 (le16_bytes x) = Inr p2" using l1 by (simp add: wr_def)
  have l2: "length p2 = 1548" using wr_length [OF p2] l1 by simp
  have "unat (plen + 40) = unat plen + 40" using assms(3) by (simp add: unat_word_ariths(1))
  then obtain w1 where "sendpacket6 E i p2 0 (plen + 40) w = Inr w1"
    using sendpacket6_Inr [of 0 p2 "plen + 40" E i w] l2 assms(3) by auto
  with bs p1 x p2 show ?thesis
    unfolding icmp6_send_def dlen_def [symmetric] Let_def
    using echo_checksum_len [of plen, folded dlen_def] echo_packet_len [of plen, folded dlen_def]
    by (simp add: sizes sizeof_hoplimit_packet_def n_def [symmetric] pkt_def [symmetric])
qed

lemma echo_total:
  assumes "calm_mld1 w" and "i < length (ints w)" and "iph + 40 \<le> length (buffer w)" and "iph + unat len \<le> length (buffer w)"
    and "m + 1504 \<le> length (buffer w)" and "unat plen \<le> 1508"
  shows "\<exists>w'. icmpv6_echo E i iph len m plen w = Inr w'"
proof -
  obtain h b where h: "dec_hlim iph w = Inr (h, w\<lparr>buffer := b\<rparr>)" "length b = length (buffer w)"
    using dec_hlim_total [OF assms(3)] by blast
  have src: "rd b (iph + 8) 16 = Inr (take 16 (drop (iph + 8) b))" using h(2) assms(3) by (simp add: rd_Inr)
  have "addr_wf (in_global (ints w ! i))"
    using assms(1,2) int_ok_nth [of w i] by (simp add: calm_mld1_def tables_ok_def int_ok_def)
  then have "\<exists>w'. icmp6_send E i (take 16 (drop (iph + 8) b)) ICMP6_ECHO_REPLY ICMP6_TIME_EXCEED_TRANSIT b (m + 4)
      (ucast (ucast plen - 8 + 4 :: u64)) (w\<lparr>buffer := b, stat_hlim_exceeded := s\<rparr>) = Inr w'" for s
    using assms(5,6) h(2) rd_addr [OF src] by (intro icmp6_send_total) simp_all
  moreover have "\<exists>w'. l4_ipv6_multicast E i iph len (w\<lparr>buffer := b\<rparr>) = Inr w'"
    using assms(3,4) h(2) by (intro multicast_total) simp_all
  ultimately show ?thesis using h(1) src by (simp add: icmpv6_echo_def sizes)
qed

section \<open>The whole path\<close>

lemma mld_total:
  assumes "calm_mld1 w" and "i < length (ints w)" and "iph + 40 \<le> length (buffer w)"
    and "m + unat plen + 24 \<le> length (buffer w)"
  shows "\<exists>w'. icmpv6_mld E i iph m plen t w = Inr w'"
proof -
  have "rd (buffer w) (iph + 8) 16 = Inr (take 16 (drop (iph + 8) (buffer w)))" using assms(3) by (simp add: rd_Inr)
  moreover have "\<exists>w'. l4_ipv6_icmpv6_mld1_report E i m w = Inr w'" "\<exists>w'. l4_ipv6_icmpv6_mld1_reduction E i m w = Inr w'"
      "\<exists>w'. l4_ipv6_icmpv6_mld2_report E i m plen w = Inr w'" "\<exists>w'. l4_ipv6_icmpv6_mld_query E i plen w = Inr w'"
    using assms mld1_report_total mld1_reduction_total mld2_report_total mld_query_total by simp_all
  ultimately show ?thesis by (simp add: icmpv6_mld_def)
qed

lemma icmpv6_total:
  assumes "calm_mld1 w" and "i < length (ints w)" and "iph + 40 \<le> length (buffer w)" and "iph + unat len \<le> length (buffer w)"
    and "m + 1504 \<le> length (buffer w)" and "unat plen \<le> 1508" and "m + unat plen + 24 \<le> length (buffer w)"
  shows "\<exists>w'. l4_ipv6_icmpv6 E i iph len m plen w = Inr w'"
proof -
  define w0 where "w0 = upd_int i (\<lambda>n. n\<lparr>in_icmp_received := in_icmp_received n + 1\<rparr>)
                 (w\<lparr>stat_icmp_received := stat_icmp_received w + 1\<rparr>)"
  have p0: "path_ok w w0"
    using path_ok_counters(1) [of w i "in_icmp_received (ints w ! i) + 1"] by (simp add: w0_def upd_int_def)
  then have l0: "length (buffer w0) = length (buffer w)" by (simp add: path_ok_def passed_fields)
  obtain w1 where w1: "icmpv6_rechecksum iph m plen w0 = Inr w1"
    using rechecksum_total [of iph w0 m plen] assms l0 by auto
  have p1: "path_ok w w1" using rechecksum_path [OF w1] path_ok_trans [OF p0] by blast
  then have c1: "calm_mld1 w1" "length (ints w1) = length (ints w)" "length (buffer w1) = length (buffer w)"
    using assms(1) by (auto simp: path_ok_def passed_fields intro: calm_path)
  have "\<exists>w'. icmpv6_echo E i iph len m plen w1 = Inr w'" using c1 assms by (intro echo_total) simp_all
  moreover have "\<exists>w'. icmpv6_mld E i iph m plen t w1 = Inr w'" for t using c1 assms by (intro mld_total) simp_all
  moreover have "rd8 (buffer w0) m = Inr (buffer w0 ! m)" using assms(5) l0 by (simp add: rd8_Inr)
  ultimately show ?thesis
    using w1 by (simp add: l4_ipv6_icmpv6_def w0_def [symmetric] Let_def)
qed

text \<open>A frame whose IPv6 payload length is honest, with room behind it in the receive buffer.\<close>

definition honest :: "world \<Rightarrow> nat \<Rightarrow> u16 \<Rightarrow> bool" where
  "honest w iph len \<longleftrightarrow> 40 \<le> unat len \<and> unat len \<le> 1548 \<and> iph + unat len + 1504 \<le> length (buffer w) \<and>
     ntohs (le16 (buffer w ! (iph + 4)) (buffer w ! (iph + 5))) = len - 40"

lemma honest_plen:
  assumes "40 \<le> unat (len :: u16)" and "m \<le> iph + unat len" and "iph + 40 \<le> m"
  shows "unat (len - 40 - of_nat (m - (iph + 40))) = iph + unat len - m"
proof -
  have "unat len = (iph + unat len - m) + 40 + (m - (iph + 40))" using assms by simp
  then have "(of_nat (unat len) :: u16) = of_nat ((iph + unat len - m) + 40 + (m - (iph + 40)))" by simp
  then have eq: "len = of_nat (iph + unat len - m) + 40 + of_nat (m - (iph + 40))" unfolding of_nat_add by simp
  have "a = x + 40 + y \<Longrightarrow> a - 40 - y = x" for a x y :: u16 by simp
  from this [OF eq] have cut: "len - 40 - of_nat (m - (iph + 40)) = of_nat (iph + unat len - m)" .
  have "iph + unat len - m < 65536" using assms unat_u16_le [of len] by simp
  then show ?thesis unfolding cut by (simp only: unsigned_of_nat) (simp add: take_bit_nat_eq_self)
qed

lemma l3_ipv6_total:
  assumes "calm_mld1 w" and "i < length (ints w)" and "honest w iph len"
  shows "\<exists>w'. l3_ipv6 E i iph len w = Inr w'"
proof -
  define stop where "stop = iph + unat len"
  note h = assms(3) [unfolded honest_def]
  have rds: "rd (buffer w) (iph + 24) 16 = Inr (take 16 (drop (iph + 24) (buffer w)))"
    "rd (buffer w) (iph + 8) 16 = Inr (take 16 (drop (iph + 8) (buffer w)))"
    "rd8 (buffer w) (iph + 6) = Inr (buffer w ! (iph + 6))"
    using h by (simp_all add: rd_Inr rd8_Inr)
  have pl: "rd16 (buffer w) (iph + 4) = Inr (le16 (buffer w ! (iph + 4)) (buffer w ! (iph + 5)))"
    using h by (intro rd16_at) simp_all
  obtain r where r: "skip_headers (buffer w) stop (iph + 40) (buffer w ! (iph + 6)) (len - 40) = Inr r"
    using skip_headers_total [of "iph + 40" "buffer w" stop] h by (auto simp: stop_def)
  have fwd: "\<exists>w'. rbind (dec_hlim iph w) (\<lambda>(hlim, w1). if hlim = 0 then Inr (w1\<lparr>stat_hlim_exceeded := stat_hlim_exceeded w1 + 1\<rparr>)
                     else l4_ipv6_multicast E i iph len w1) = Inr w'"
  proof -
    obtain hl b where b: "dec_hlim iph w = Inr (hl, w\<lparr>buffer := b\<rparr>)" "length b = length (buffer w)"
      using dec_hlim_total [of iph w] h by auto
    moreover have "\<exists>w'. l4_ipv6_multicast E i iph len (w\<lparr>buffer := b\<rparr>) = Inr w'"
      using h b(2) by (intro multicast_total) simp_all
    ultimately show ?thesis by simp
  qed
  have "\<exists>w'. l4_ipv6_icmpv6 E i iph len m plen w = Inr w'" if "r = Some (t, m, plen)" for t m plen
  proof -
    have "plen = len - 40 - of_nat (m - (iph + 40)) \<and> iph + 40 \<le> m \<and> m \<le> iph + unat len"
      using skip_headers_Some [of _ stop] r that h by (fastforce simp: stop_def)
    then show ?thesis
      using h honest_plen [of len m iph] assms(1,2) by (intro icmpv6_total) auto
  qed
  then show ?thesis
    using rds pl r fwd h by (auto simp: l3_ipv6_def sizes stop_def split: option.split prod.split)
qed

end
