(* ===== verification/Daemon.thy ===== *)
theory Daemon
  imports Packet_Safety
begin

text \<open>
  The process: \<open>init\<close>, the options of \<open>main\<close>, the start-up, \<open>handleinterfaces\<close>, the signal
  handlers, the main loop and the shutdown. A run is a sequence of events, each with the answers
  that the system gives while it is handled. A signal arrives between two rounds of the loop or
  while the loop waits for a packet.
\<close>

section \<open>Start-up\<close>

text \<open>Before \<open>init\<close>: what \<open>calloc\<close> leaves in \<open>struct conf\<close>, and the outside world.\<close>

definition blank :: "u64 \<Rightarrow> bool list \<Rightarrow> world" where
  "blank now cs = \<lparr>maxgroups = 0, maxinterfaces = 0, ints = [], groups = cl_new, upstream = None,
     upstream_id = 0, daemonize = False, verbose = False, quit = False, mld1only = False,
     mld2only = False, promisc = False, buffer = [], bufferlen = 0, rawsocket = 0,
     stat_starttime = 0, stat_packets_received = 0, stat_packets_sent = 0, stat_bytes_received = 0,
     stat_bytes_sent = 0, stat_icmp_received = 0, stat_icmp_sent = 0, stat_hlim_exceeded = 0,
     w_now = now, w_calloc = cs, w_sent = [], w_last_update = 0, w_needs_timeout = False\<rparr>"

definition init :: "world \<Rightarrow> world result" where
  "init w = (case calloc w of
       (False, _) \<Rightarrow> Inl ExitFailure
     | (True, w1) \<Rightarrow>
        (let w2 = w1\<lparr>bufferlen := 32 * 1024, rawsocket := - 1, maxgroups := 42, maxinterfaces := 0,
                     daemonize := True, promisc := False\<rparr> in
         case calloc w2 of
           (False, _) \<Rightarrow> Inl NullDeref
         | (True, w3) \<Rightarrow> Inr (w3\<lparr>groups := cl_new, stat_starttime := gettimes w3,
             stat_packets_received := 0, stat_packets_sent := 0, stat_bytes_received := 0,
             stat_bytes_sent := 0, stat_icmp_received := 0, stat_icmp_sent := 0,
             stat_hlim_exceeded := 0\<rparr>)))"

text \<open>
  What \<open>getopt_long\<close> can return. The users that \<open>getpwnam\<close> knows are a parameter. The state of
  the option loop is the configuration with the user and group to drop to; a \<open>return\<close> of \<open>main\<close> is
  its code.
\<close>

datatype opt = OptZero | Opt_f | Opt_i string | Opt_p | Opt_P | Opt_u string | Opt_v | Opt_V | Opt_1 | Opt_2 | OptOther

type_synonym drop_ids = "u32 \<times> u32"

definition handle_option ::
    "(string \<Rightarrow> drop_ids option) \<Rightarrow> opt \<Rightarrow> world \<times> drop_ids \<Rightarrow> int + (world \<times> drop_ids)" where
  "handle_option getpwnam opt = (\<lambda>(w, ids).
     case opt of
       OptZero \<Rightarrow> Inr (w, ids)
     | Opt_f \<Rightarrow> Inr (w\<lparr>daemonize := False\<rparr>, ids)
     | Opt_i optarg \<Rightarrow> if upstream w \<noteq> None then Inl (- 1) else Inr (w\<lparr>upstream := Some optarg\<rparr>, ids)
     | Opt_p \<Rightarrow> Inr (w\<lparr>promisc := True\<rparr>, ids)
     | Opt_P \<Rightarrow> Inr (w\<lparr>promisc := False\<rparr>, ids)
     | Opt_u optarg \<Rightarrow> (case getpwnam optarg of None \<Rightarrow> Inl (- 1) | Some ids' \<Rightarrow> Inr (w, ids'))
     | Opt_v \<Rightarrow> Inr (w\<lparr>verbose := True\<rparr>, ids)
     | Opt_V \<Rightarrow> Inl 0
     | Opt_1 \<Rightarrow> Inr (w\<lparr>mld1only := True, mld2only := False\<rparr>, ids)
     | Opt_2 \<Rightarrow> Inr (w\<lparr>mld1only := False, mld2only := True\<rparr>, ids)
     | OptOther \<Rightarrow> Inl (- 1))"

fun handle_options ::
    "(string \<Rightarrow> drop_ids option) \<Rightarrow> opt list \<Rightarrow> world \<times> drop_ids \<Rightarrow> int + (world \<times> drop_ids)" where
  "handle_options getpwnam [] s = Inr s"
| "handle_options getpwnam (opt # opts) s =
     (case handle_option getpwnam opt s of Inl code \<Rightarrow> Inl code
      | Inr s' \<Rightarrow> handle_options getpwnam opts s')"

text \<open>
  From the dump file to the first queries; \<open>return -1\<close> is \<open>ExitFailure\<close>. What \<open>fopen\<close> and \<open>socket\<close>
  answer are parameters.
\<close>

definition main_start :: "env \<Rightarrow> bool \<Rightarrow> int \<Rightarrow> world \<Rightarrow> world result" where
  "main_start E dumpfile sock w =
     (if \<not> dumpfile then Inl ExitFailure
      else if sock < 0 then Inl ExitFailure
      else case calloc w of
        (False, _) \<Rightarrow> Inl ExitFailure
      | (True, w1) \<Rightarrow>
         rbind (update_interfaces E None (w1\<lparr>rawsocket := sock, buffer := replicate (unat (bufferlen w1)) 0\<rparr>))
           (send_mld_querys E))"

section \<open>Receiving\<close>

definition PACKET_OUTGOING :: u8 where [layout]: "PACKET_OUTGOING = 4"

text \<open>
  The outcome of \<open>recvfrom\<close>: the data, cut to the buffer, and of \<open>struct sockaddr_ll\<close> the hardware
  type, the packet type, the interface index and the protocol in network byte order.
\<close>

datatype recv = RecvError | Recv bytes u16 u8 u32 u16

definition find_or_create :: "env \<Rightarrow> u32 \<Rightarrow> world \<Rightarrow> (nat option \<times> world) result" where
  "find_or_create E ifindex w = (case int_find ifindex w of
       Some i \<Rightarrow> Inr (Some i, w)
     | None \<Rightarrow> rbind (int_create E ifindex w) (\<lambda>(r, w1). case r of
           None \<Rightarrow> Inr (None, w1)
         | Some i \<Rightarrow> rbind (update_interfaces E (Some i) w1) (\<lambda>w2. Inr (Some i, w2))))"

definition handleinterfaces :: "env \<Rightarrow> recv \<Rightarrow> world \<Rightarrow> (bool \<times> world) result" where
  "handleinterfaces E r w = (case r of
       RecvError \<Rightarrow> Inr (False, w)
     | Recv data hatype pkttype ifindex protocol \<Rightarrow>
        (let len = min (length data) (unat (bufferlen w));
             w0 = w\<lparr>buffer := take len data @ drop len (buffer w)\<rparr> in
         if hatype = ARPHRD_LOOPBACK \<or> pkttype = PACKET_OUTGOING then Inr (True, w0)
         else
           rbind (find_or_create E ifindex (w0\<lparr>stat_packets_received := stat_packets_received w0 + 1,
               stat_bytes_received := stat_bytes_received w0 + of_nat len\<rparr>)) (\<lambda>(intn, w1).
             case intn of
               None \<Rightarrow> Inr (True, w1)
             | Some i \<Rightarrow>
                rbind (l2_ethtype E i 0 (of_nat len) (ucast (ntohs protocol))
                    (upd_int i (\<lambda>n. n\<lparr>in_packets_received := in_packets_received n + 1,
                                      in_bytes_received := in_bytes_received n + of_nat len\<rparr>) w1))
                  (\<lambda>w2. Inr (True, w2)))))"

section \<open>Signals and the main loop\<close>

definition cleanpid :: "world \<Rightarrow> world" where
  "cleanpid w = w\<lparr>quit := True\<rparr>"

definition sigusr2 :: "env \<Rightarrow> world \<Rightarrow> world result" where
  "sigusr2 E w = (if upstream w \<noteq> None then
       (case int_find (ucast (upstream_id w)) w of
          None \<Rightarrow> Inr w
        | Some i \<Rightarrow> mld2_send_report E i None w)
     else Inr w)"

definition timeout_signal :: "world \<Rightarrow> world" where
  "timeout_signal w = w\<lparr>w_needs_timeout := True\<rparr>"

text \<open>
  The state of the loop is the world and the local variable \<open>quit\<close>. \<open>SIGHUP\<close> does nothing, and
  \<open>SIGUSR1\<close> only writes the dump file. The clock moves between events.
\<close>

type_synonym daemon = "world \<times> bool"

datatype event = Clock u64 | SigHup | SigTerm | SigUsr1 | SigUsr2 | SigAlrm | Round recv

definition run_timeout :: "env \<Rightarrow> world \<Rightarrow> world result" where
  "run_timeout E w = (if w_needs_timeout w
     then rbind (timeout E w) (\<lambda>w1. Inr (w1\<lparr>w_needs_timeout := False\<rparr>)) else Inr w)"

definition main_round :: "env \<Rightarrow> recv \<Rightarrow> daemon \<Rightarrow> daemon result" where
  "main_round E r = (\<lambda>(w, q).
     if quit w \<or> q then Inr (w, q)
     else rbind (run_timeout E w) (\<lambda>w1.
          rbind (handleinterfaces E r w1) (\<lambda>(ok, w2). Inr (w2, \<not> ok))))"

fun daemon_step :: "env \<times> event \<Rightarrow> daemon \<Rightarrow> daemon result" where
  "daemon_step (E, Clock t) (w, q) = Inr (w\<lparr>w_now := t\<rparr>, q)"
| "daemon_step (E, SigHup) (w, q) = Inr (w, q)"
| "daemon_step (E, SigTerm) (w, q) = Inr (cleanpid w, q)"
| "daemon_step (E, SigUsr1) (w, q) = Inr (w, q)"
| "daemon_step (E, SigUsr2) (w, q) = rbind (sigusr2 E w) (\<lambda>w1. Inr (w1, q))"
| "daemon_step (E, SigAlrm) (w, q) = Inr (timeout_signal w, q)"
| "daemon_step (E, Round r) (w, q) = main_round E r (w, q)"

text \<open>The end of \<open>main\<close>, before the memory is given back.\<close>

definition shutdown :: "world \<Rightarrow> world" where
  "shutdown w =
     (let w1 = w\<lparr>groups := cl_delete_all (groups w)\<rparr> in
      fold (\<lambda>j u. if in_mtu (ints u ! j) = 0 then u else int_destroy j u)
        [0..<unat (maxinterfaces w1)] w1)"

section \<open>Runs\<close>

text \<open>
  A system that reacts to events. What every event keeps holds after every run, and when no
  event can fault, no run can.
\<close>

locale event_system =
  fixes step :: "'e \<Rightarrow> 's \<Rightarrow> 's result" and allowed :: "'e \<Rightarrow> bool" and inv :: "'s \<Rightarrow> bool"
  assumes step_inv: "inv s \<Longrightarrow> allowed e \<Longrightarrow> step e s = Inr s' \<Longrightarrow> inv s'"
begin

lemma run_inv:
  assumes "inv s" and "list_all allowed es" and "foldM step es s = Inr s'"
  shows "inv s'"
  using assms by (induction es arbitrary: s) (auto dest: step_inv)

end

locale total_event_system = event_system +
  assumes step_total: "inv s \<Longrightarrow> allowed e \<Longrightarrow> \<exists>s'. step e s = Inr s'"
begin

lemma run_total:
  assumes "inv s" and "list_all allowed es"
  shows "\<exists>s'. foldM step es s = Inr s' \<and> inv s'"
  using assms
proof (induction es arbitrary: s)
  case (Cons e es)
  then obtain s1 where "step e s = Inr s1" using step_total [of s e] by auto
  with Cons step_inv [of s e s1] show ?case by auto
qed simp

end

section \<open>The invariant of the process\<close>

definition daemon_inv :: "daemon \<Rightarrow> bool" where
  "daemon_inv = (\<lambda>(w, q). tables_ok w \<and> unat (bufferlen w) = 32768 \<and> length (buffer w) = 32768)"

definition event_ok :: "env \<times> event \<Rightarrow> bool" where
  "event_ok = (\<lambda>(E, e). env_ok E)"

text \<open>What finding the interface of a packet can change.\<close>

definition same_traffic :: "world \<Rightarrow> world \<Rightarrow> bool" where
  "same_traffic w w' \<longleftrightarrow> buffer w' = buffer w \<and> bufferlen w' = bufferlen w \<and> w_now w' = w_now w \<and>
     groups w' = groups w \<and> mld1only w' = mld1only w \<and> mld2only w' = mld2only w \<and>
     (w_calloc w = [] \<longrightarrow> w_calloc w' = [])"

lemma find_or_create_inv:
  assumes "tables_ok w" and "env_ok E" and "find_or_create E k w = Inr (r, w')"
  shows "tables_ok w' \<and> same_traffic w w' \<and> (\<forall>i. r = Some i \<longrightarrow> i < length (ints w'))"
proof (cases "int_find k w")
  case (Some i)
  with assms show ?thesis
    using int_find_Some(2) [of w k i] by (auto simp: find_or_create_def tables_ok_def same_traffic_def)
next
  case None
  with assms(3) obtain r1 w1 where c: "int_create E k w = Inr (r1, w1)"
    and rest: "case r1 of None \<Rightarrow> r = None \<and> w' = w1 | Some i \<Rightarrow> r = Some i \<and> update_interfaces E (Some i) w1 = Inr w'"
    by (auto simp: find_or_create_def split: option.splits)
  have ok: "ints_ok w" using assms(1) by (simp add: tables_ok_def)
  have g: "grown w w1" by (rule int_create_grown [OF ok c])
  then have ok1: "tables_ok w1" and s1: "same_traffic w w1"
    using assms(1) by (auto simp: grown_def tables_ok_def same_but_ints_def same_traffic_def)
  show ?thesis
  proof (cases r1)
    case None
    with rest ok1 s1 show ?thesis by simp
  next
    case (Some i)
    with rest have u: "update_interfaces E (Some i) w1 = Inr w'" and r: "r = Some i" by simp_all
    have "int_find k w1 = Some i" using int_create_ok(2) [OF ok c Some] by simp
    then have "i < length (ints w1)" using ok1 by (intro int_find_Some(2)) (simp_all add: tables_ok_def)
    with update_interfaces_inv [OF ok1 assms(2) u] s1 r show ?thesis
      by (auto simp: same_traffic_def)
  qed
qed

lemma handleinterfaces_inv:
  assumes "daemon_inv (w, q)" and "env_ok E" and "handleinterfaces E r w = Inr (b, w')"
  shows "daemon_inv (w', q')" and "mld1only w' = mld1only w" and "w_calloc w = [] \<Longrightarrow> w_calloc w' = []"
proof -
  have "daemon_inv (w', q') \<and> mld1only w' = mld1only w \<and> (w_calloc w = [] \<longrightarrow> w_calloc w' = [])"
  proof (cases r)
    case RecvError with assms show ?thesis by (simp add: handleinterfaces_def daemon_inv_def)
  next
    case (Recv data ht pt k proto)
    define len where "len = min (length data) (unat (bufferlen w))"
    define w0 where "w0 = w\<lparr>buffer := take len data @ drop len (buffer w)\<rparr>"
    define w1 where "w1 = w0\<lparr>stat_packets_received := stat_packets_received w0 + 1,
               stat_bytes_received := stat_bytes_received w0 + of_nat len\<rparr>"
    have inv0: "daemon_inv (w0, q)"
      using assms(1) by (auto simp: daemon_inv_def w0_def len_def intro: tables_ok_cong)
    then have inv1: "tables_ok w1" "unat (bufferlen w1) = 32768" "length (buffer w1) = 32768"
      by (auto simp: daemon_inv_def w1_def intro: tables_ok_cong)
    note run = assms(3) [unfolded handleinterfaces_def Recv recv.case Let_def, folded len_def, folded w0_def, folded w1_def]
    show ?thesis
    proof (cases "ht = ARPHRD_LOOPBACK \<or> pt = PACKET_OUTGOING")
      case True
      with run inv0 show ?thesis by (auto simp: daemon_inv_def w0_def)
    next
      case False
      with run obtain intn w2 where f: "find_or_create E k w1 = Inr (intn, w2)" by auto
      note foc = find_or_create_inv [OF inv1(1) assms(2) f]
      have same: "mld1only w2 = mld1only w \<and> (w_calloc w = [] \<longrightarrow> w_calloc w2 = [])"
        using foc by (simp add: same_traffic_def w1_def w0_def)
      show ?thesis
      proof (cases intn)
        case None
        with run False f foc inv1 same show ?thesis by (auto simp: daemon_inv_def same_traffic_def)
      next
        case (Some i)
        define w3 where "w3 = upd_int i (\<lambda>n. n\<lparr>in_packets_received := in_packets_received n + 1,
                                      in_bytes_received := in_bytes_received n + of_nat len\<rparr>) w2"
        have l2: "l2_ethtype E i 0 (of_nat len) (ucast (ntohs proto)) w3 = Inr w'"
          using run False f Some by (auto simp: w3_def)
        have "tables_ok w3"
          unfolding w3_def using foc by (intro tables_ok_upd_int) (simp_all add: int_ok_def)
        moreover have "path_ok w3 w'" using foc Some by (intro l2_ethtype_path [OF _ l2]) (simp add: w3_def)
        ultimately have "tables_ok w'" "passed w3 w'" by (simp_all add: path_ok_def)
        with passed_fields [of w3 w'] foc inv1 same show ?thesis
          by (auto simp: daemon_inv_def same_traffic_def w3_def)
      qed
    qed
  qed
  then show "daemon_inv (w', q')" and "mld1only w' = mld1only w" and "w_calloc w = [] \<Longrightarrow> w_calloc w' = []" by auto
qed

lemma timeout_mem:
  assumes "tables_ok w" and "env_ok E" and "timeout E w = Inr w'"
  shows "w_calloc w = [] \<Longrightarrow> w_calloc w' = []"
proof -
  from assms(3) obtain w1 gs where "update_interfaces E None w = Inr w1" "send_mld_querys E (w1\<lparr>groups := gs\<rparr>) = Inr w'"
    by (auto simp: timeout_def)
  then show "w_calloc w = [] \<Longrightarrow> w_calloc w' = []"
    using update_interfaces_inv(11) [OF assms(1,2)] sends_fields(13) [OF send_mld_querys_sends] by fastforce
qed

lemma run_timeout_inv:
  assumes "daemon_inv (w, q)" and "env_ok E" and "run_timeout E w = Inr w'"
  shows "daemon_inv (w', q)" and "mld1only w' = mld1only w" and "w_calloc w = [] \<Longrightarrow> w_calloc w' = []"
proof -
  have ok: "tables_ok w" using assms(1) by (simp add: daemon_inv_def)
  consider "w' = w" | w1 where "timeout E w = Inr w1" "w' = w1\<lparr>w_needs_timeout := False\<rparr>"
    using assms(3) by (auto simp: run_timeout_def split: if_splits)
  then have "daemon_inv (w', q) \<and> mld1only w' = mld1only w \<and> (w_calloc w = [] \<longrightarrow> w_calloc w' = [])"
  proof cases
    case (2 w1)
    with timeout_spec [OF ok assms(2) 2(1)] timeout_mem [OF ok assms(2) 2(1)] assms(1) show ?thesis
      by (auto simp: daemon_inv_def intro: tables_ok_cong)
  qed (use assms(1) in simp)
  then show "daemon_inv (w', q)" and "mld1only w' = mld1only w" and "w_calloc w = [] \<Longrightarrow> w_calloc w' = []" by auto
qed

lemma main_round_inv:
  assumes "daemon_inv (w, q)" and "env_ok E" and "main_round E r (w, q) = Inr (w', q')"
  shows "daemon_inv (w', q')" and "mld1only w' = mld1only w" and "w_calloc w = [] \<Longrightarrow> w_calloc w' = []"
proof -
  have "daemon_inv (w', q') \<and> mld1only w' = mld1only w \<and> (w_calloc w = [] \<longrightarrow> w_calloc w' = [])"
  proof (cases "quit w \<or> q")
    case False
    with assms(3) obtain w1 b where w1: "run_timeout E w = Inr w1" and h: "handleinterfaces E r w1 = Inr (b, w')"
      by (auto simp: main_round_def)
    note t = run_timeout_inv [OF assms(1,2) w1]
    from handleinterfaces_inv(1) [OF t(1) assms(2) h, of q'] handleinterfaces_inv(2,3) [OF t(1) assms(2) h] t(2,3) show ?thesis by simp
  qed (use assms in \<open>auto simp: main_round_def\<close>)
  then show "daemon_inv (w', q')" and "mld1only w' = mld1only w" and "w_calloc w = [] \<Longrightarrow> w_calloc w' = []" by auto
qed

lemma sigusr2_sends: "sigusr2 E w = Inr w' \<Longrightarrow> sends w w'"
  by (auto simp: sigusr2_def dest: mld2_send_report_sends split: if_splits option.splits)

lemma daemon_inv_cong:
  assumes "daemon_inv (w, q)" and "ints w' = ints w" and "maxinterfaces w' = maxinterfaces w"
    and "groups w' = groups w" and "bufferlen w' = bufferlen w" and "buffer w' = buffer w"
  shows "daemon_inv (w', q')"
  using assms tables_ok_cong [of w w'] by (simp add: daemon_inv_def)

lemma daemon_step_inv:
  assumes "daemon_inv s" and "event_ok e" and "daemon_step e s = Inr s'"
  shows "daemon_inv s'"
  using assms
proof (induction e s rule: daemon_step.induct)
  case (5 E w q)
  then obtain w1 where w1: "sigusr2 E w = Inr w1" "s' = (w1, q)" by auto
  note s = sigusr2_sends [OF w1(1)]
  from 5(1) inv_sends [OF s] sends_fields(4,5) [OF s] w1(2) show ?case by (simp add: daemon_inv_def)
next
  case (7 E r w q)
  then show ?case using main_round_inv(1) [of w q E r] by (cases s') (simp add: event_ok_def)
qed (auto simp: cleanpid_def timeout_signal_def elim!: daemon_inv_cong)

interpretation process: event_system daemon_step event_ok daemon_inv
  by unfold_locales (rule daemon_step_inv)

section \<open>Safety of the MLDv1-only daemon\<close>

definition frame_ok :: "bytes \<Rightarrow> bool" where
  "frame_ok data \<longleftrightarrow> 40 \<le> length data \<and> length data \<le> 1548 \<and>
     ntohs (le16 (data ! 4) (data ! 5)) = of_nat (length data) - 40"

definition recv_ok :: "recv \<Rightarrow> bool" where
  "recv_ok r = (case r of RecvError \<Rightarrow> True
     | Recv data hatype pkttype ifindex protocol \<Rightarrow>
         ifindex \<noteq> - 1 \<and> (ntohs protocol = ETH_P_IPV6 \<longrightarrow> frame_ok data))"

text \<open>\<open>SIGUSR2\<close> is left out: it sends an MLDv2 report also in this mode.\<close>

definition safe_event :: "env \<times> event \<Rightarrow> bool" where
  "safe_event = (\<lambda>(E, e). env_ok E \<and> discovery_ok E \<and>
     (case e of SigUsr2 \<Rightarrow> False | Round r \<Rightarrow> recv_ok r | _ \<Rightarrow> True))"

definition safe_inv :: "daemon \<Rightarrow> bool" where
  "safe_inv s \<longleftrightarrow> daemon_inv s \<and> mld1only (fst s) \<and> w_calloc (fst s) = []"

lemma l2_ethtype_total:
  assumes "calm_mld1 w" and "i < length (ints w)" and "20 \<le> length (buffer w)"
    and "t = ucast ETH_P_IPV6 \<Longrightarrow> honest w 0 (ucast len)"
  shows "\<exists>w'. l2_ethtype E i 0 len t w = Inr w'"
proof -
  obtain x where "rd16 (buffer w) (0 + 2) = Inr x" using assms(3) rd16_Inr [of "0 + 2" "buffer w"] by auto
  moreover have "rd8 (buffer w) 0 = Inr (buffer w ! 0)" using assms(3) by (intro rd8_Inr) linarith
  ultimately have "\<exists>w'. l3_ipv4 0 n w = Inr w'" for n
    using assms(3) by (simp add: l3_ipv4_def rd_Inr)
  with l3_ipv6_total [OF assms(1,2) assms(4)] show ?thesis
    by (simp add: l2_ethtype_def)
qed

lemma find_or_create_total:
  assumes "tables_ok w" and "w_calloc w = []" and "env_ok E" and "discovery_ok E" and "k \<noteq> - 1"
  shows "\<exists>r w'. find_or_create E k w = Inr (r, w')"
proof -
  have ok: "ints_ok w" using assms(1) by (simp add: tables_ok_def)
  obtain r w1 where c: "int_create E k w = Inr (r, w1)" using int_create_total [OF ok assms(2,5)] by blast
  have g: "grown w w1" by (rule int_create_grown [OF ok c])
  have "\<exists>w2. update_interfaces E (Some i) w1 = Inr w2" for i
    using g assms(2-4) by (intro update_interfaces_total) (simp_all add: grown_def)
  with c show ?thesis by (auto simp: find_or_create_def split: option.split)
qed

lemma ucast_eth: "(ucast (x :: u16) :: u32) = ucast y \<longleftrightarrow> x = y"
  by transfer simp

lemma handleinterfaces_total:
  assumes "safe_inv (w, q)" and "env_ok E" and "discovery_ok E" and "recv_ok r"
  shows "\<exists>b w'. handleinterfaces E r w = Inr (b, w')"
proof (cases r)
  case (Recv data ht pt k proto)
  define len where "len = min (length data) (unat (bufferlen w))"
  define w0 where "w0 = w\<lparr>buffer := take len data @ drop len (buffer w)\<rparr>"
  define w1 where "w1 = w0\<lparr>stat_packets_received := stat_packets_received w0 + 1,
             stat_bytes_received := stat_bytes_received w0 + of_nat len\<rparr>"
  have inv: "tables_ok w" "unat (bufferlen w) = 32768" "length (buffer w) = 32768" "mld1only w" "w_calloc w = []"
    using assms(1) by (simp_all add: safe_inv_def daemon_inv_def)
  have ok1: "tables_ok w1" using inv(1) by (auto simp: w1_def w0_def intro: tables_ok_cong)
  have mem1: "w_calloc w1 = []" using inv(5) by (simp add: w1_def w0_def)
  obtain intn w2 where f: "find_or_create E k w1 = Inr (intn, w2)"
    using find_or_create_total [OF ok1 mem1 assms(2,3), of k] assms(4) Recv by (auto simp: recv_ok_def)
  note foc = find_or_create_inv [OF ok1 assms(2) f]
  have "\<exists>w'. l2_ethtype E i 0 (of_nat len) (ucast (ntohs proto))
      (upd_int i (\<lambda>n. n\<lparr>in_packets_received := in_packets_received n + 1,
                       in_bytes_received := in_bytes_received n + of_nat len\<rparr>) w2) = Inr w'"
    (is "\<exists>w'. l2_ethtype E i 0 _ _ ?w3 = Inr w'") if "intn = Some i" for i
  proof (rule l2_ethtype_total)
    have "tables_ok ?w3" using foc by (intro tables_ok_upd_int) (simp_all add: int_ok_def)
    then show "calm_mld1 ?w3" using foc inv(4,5) mem1 by (simp add: calm_mld1_def same_traffic_def w1_def w0_def)
    show "i < length (ints ?w3)" using foc that by simp
    have b: "buffer ?w3 = take len data @ drop len (buffer w)"
      using foc by (simp add: same_traffic_def w1_def w0_def)
    then show "20 \<le> length (buffer ?w3)" using inv(2,3) by (simp add: len_def)
    assume "ucast (ntohs proto) = (ucast ETH_P_IPV6 :: u32)"
    then have fr: "frame_ok data" using assms(4) Recv by (simp add: ucast_eth recv_ok_def)
    then have l: "len = length data" using inv(2) by (simp add: len_def frame_ok_def)
    have cut: "(ucast (of_nat (length data) :: u32) :: u16) = of_nat (length data)"
      by transfer simp
    have "unat (of_nat (length data) :: u16) = length data"
      using fr by (simp add: frame_ok_def unsigned_of_nat take_bit_nat_eq_self)
    with fr b l inv(3) cut show "honest ?w3 0 (ucast (of_nat len :: u32))"
      by (simp add: honest_def frame_ok_def nth_append)
  qed
  with f Recv show ?thesis
    by (auto simp: handleinterfaces_def Let_def len_def [symmetric] w0_def [symmetric] w1_def [symmetric]
        split: option.split)
qed (auto simp: handleinterfaces_def)

lemma run_timeout_total:
  assumes "safe_inv (w, q)" and "env_ok E" and "discovery_ok E"
  shows "\<exists>w'. run_timeout E w = Inr w'"
  using timeout_total [OF _ _ assms(2,3), of w] assms(1)
  by (auto simp: run_timeout_def safe_inv_def daemon_inv_def)

lemma main_round_total:
  assumes "safe_inv (w, q)" and "env_ok E" and "discovery_ok E" and "recv_ok r"
  shows "\<exists>s'. main_round E r (w, q) = Inr s'"
proof (cases "quit w \<or> q")
  case False
  obtain w1 where w1: "run_timeout E w = Inr w1" using run_timeout_total [OF assms(1-3)] by blast
  have "safe_inv (w1, q)"
    using run_timeout_inv [OF _ assms(2) w1, of q] assms(1) by (simp add: safe_inv_def)
  then obtain b w2 where "handleinterfaces E r w1 = Inr (b, w2)" using handleinterfaces_total assms(2-4) by blast
  with w1 False show ?thesis by (simp add: main_round_def)
qed (simp add: main_round_def)

lemma safe_step_inv:
  assumes "safe_inv s" and "safe_event e" and "daemon_step e s = Inr s'"
  shows "safe_inv s'"
proof -
  have "daemon_inv s'"
    by (rule daemon_step_inv [OF _ _ assms(3)]) (use assms in \<open>auto simp: safe_inv_def safe_event_def event_ok_def\<close>)
  moreover have "mld1only (fst s') \<and> w_calloc (fst s') = []"
    using assms
  proof (induction e s rule: daemon_step.induct)
    case (7 E r w q)
    then show ?case using main_round_inv(2,3) [of w q E r "fst s'" "snd s'"]
      by (simp add: safe_inv_def safe_event_def)
  qed (auto simp: safe_inv_def safe_event_def cleanpid_def timeout_signal_def)
  ultimately show ?thesis by (simp add: safe_inv_def)
qed

lemma safe_step_total:
  assumes "safe_inv s" and "safe_event e"
  shows "\<exists>s'. daemon_step e s = Inr s'"
  using assms
proof (induction e s rule: daemon_step.induct)
  case (7 E r w q)
  then show ?case using main_round_total [of w q E r] by (auto simp: safe_event_def)
qed (auto simp: safe_event_def)

interpretation safe: total_event_system daemon_step safe_event safe_inv
  by unfold_locales (rule safe_step_inv, assumption+, rule safe_step_total, assumption+)

section \<open>The first state and the last\<close>

definition opt_keeps :: "world \<Rightarrow> world \<Rightarrow> bool" where
  "opt_keeps w w' \<longleftrightarrow> groups w' = groups w \<and> ints w' = ints w \<and> maxinterfaces w' = maxinterfaces w \<and>
     bufferlen w' = bufferlen w \<and> w_calloc w' = w_calloc w"

text \<open>The last of the options \<open>-1\<close> and \<open>-2\<close> decides the mode.\<close>

definition mode_opts :: "opt list \<Rightarrow> opt list" where
  "mode_opts = filter (\<lambda>opt. opt = Opt_1 \<or> opt = Opt_2)"

definition opt_mode :: "bool \<times> bool \<Rightarrow> opt list \<Rightarrow> bool \<times> bool" where
  "opt_mode m opts = (case mode_opts opts of [] \<Rightarrow> m | xs \<Rightarrow> (last xs = Opt_1, last xs = Opt_2))"

lemma handle_option_step:
  assumes "handle_option getpwnam opt (w, ids) = Inr (w', ids')"
  shows "opt_keeps w w' \<and> (mld1only w', mld2only w') = opt_mode (mld1only w, mld2only w) [opt]"
  using assms
  by (cases opt) (auto simp: handle_option_def opt_keeps_def opt_mode_def mode_opts_def split: if_splits option.splits)

lemma opt_mode_Cons: "opt_mode m (opt # opts) = opt_mode (opt_mode m [opt]) opts"
  by (auto simp: opt_mode_def mode_opts_def split: list.splits)

lemma handle_options_run:
  assumes "handle_options getpwnam opts (w, ids) = Inr (w', ids')"
  shows "opt_keeps w w' \<and> (mld1only w', mld2only w') = opt_mode (mld1only w, mld2only w) opts"
  using assms
proof (induction opts arbitrary: w ids)
  case (Cons opt opts)
  then obtain w1 ids1 where s: "handle_option getpwnam opt (w, ids) = Inr (w1, ids1)"
    and r: "handle_options getpwnam opts (w1, ids1) = Inr (w', ids')"
    by (auto split: sum.splits)
  from handle_option_step [OF s] Cons.IH [OF r] show ?case
    by (subst opt_mode_Cons) (simp add: opt_keeps_def)
qed (simp add: opt_keeps_def opt_mode_def mode_opts_def)

lemma init_state:
  assumes "init (blank now cs) = Inr w"
  shows "groups w = cl_new" "ints w = []" "maxinterfaces w = 0" "bufferlen w = 32768"
    "mld1only w = False" "mld2only w = False" "cs = [] \<Longrightarrow> w_calloc w = []"
proof -
  from assms obtain w1 w2 w3 where c: "calloc (blank now cs) = (True, w1)" "calloc w2 = (True, w3)"
    and w2: "w2 = w1\<lparr>bufferlen := 32 * 1024, rawsocket := - 1, maxgroups := 42, maxinterfaces := 0,
                     daemonize := True, promisc := False\<rparr>"
    and w: "groups w = cl_new" "ints w = ints w3" "maxinterfaces w = maxinterfaces w3" "bufferlen w = bufferlen w3"
      "mld1only w = mld1only w3" "mld2only w = mld2only w3" "w_calloc w = w_calloc w3"
    by (auto simp: init_def Let_def split: prod.splits bool.splits)
  note f = calloc_fields [OF c(1)] calloc_fields [OF c(2)]
    same_but_calloc_fields(13) [OF calloc_same [OF c(1)]] same_but_calloc_fields(13) [OF calloc_same [OF c(2)]]
  show "groups w = cl_new" "ints w = []" "maxinterfaces w = 0" "bufferlen w = 32768"
    "mld1only w = False" "mld2only w = False" "cs = [] \<Longrightarrow> w_calloc w = []"
    using f w by (simp_all add: w2 blank_def)
qed

text \<open>
  Options and start-up in one: from the call of \<open>main\<close> to the first round of its loop. An early
  \<open>return\<close> of \<open>main\<close> is \<open>ExitFailure\<close>.
\<close>

definition main_boot ::
    "env \<Rightarrow> (string \<Rightarrow> drop_ids option) \<Rightarrow> opt list \<Rightarrow> bool \<Rightarrow> int \<Rightarrow> u64 \<Rightarrow> bool list \<Rightarrow> daemon result" where
  "main_boot E getpwnam opts dumpfile sock now cs =
     rbind (init (blank now cs)) (\<lambda>w.
       case handle_options getpwnam opts (w, (0, 0)) of
         Inl code \<Rightarrow> Inl ExitFailure
       | Inr (w1, ids) \<Rightarrow> rbind (main_start E dumpfile sock w1) (\<lambda>w2. Inr (w2, False)))"

lemma main_start_inv:
  assumes "opt_keeps w0 w" and "init (blank now cs) = Inr w0" and "env_ok E" and "main_start E d sock w = Inr w'"
  shows "daemon_inv (w', False)" and "mld1only w' = mld1only w" and "cs = [] \<Longrightarrow> w_calloc w' = []"
proof -
  note i = init_state [OF assms(2)]
  from assms(4) obtain w1 w2 where c: "calloc w = (True, w1)"
    and u: "update_interfaces E None (w1\<lparr>rawsocket := sock, buffer := replicate (unat (bufferlen w1)) 0\<rparr>) = Inr w2"
    and q: "send_mld_querys E w2 = Inr w'"
    by (auto simp: main_start_def split: if_splits prod.splits bool.splits)
  define u1 where "u1 = w1\<lparr>rawsocket := sock, buffer := replicate (unat (bufferlen w1)) 0\<rparr>"
  have w1: "groups w1 = cl_new" "ints w1 = []" "maxinterfaces w1 = 0" "bufferlen w1 = 32768" "mld1only w1 = mld1only w"
    "cs = [] \<Longrightarrow> w_calloc w1 = []"
    using calloc_fields [OF c] assms(1) i same_but_calloc_fields(13) [OF calloc_same [OF c]]
    by (auto simp: opt_keeps_def)
  have ok: "tables_ok u1"
    using w1(1-3) by (simp add: u1_def tables_ok_def ints_ok_def groups_ok_def cl_exact_ops)
  note k = update_interfaces_inv [OF ok assms(3) u [folded u1_def]]
  note s = send_mld_querys_sends [OF q]
  show "daemon_inv (w', False)"
    using inv_sends [OF s k(1)] sends_fields(4,5) [OF s] k(4,5) w1(4) by (simp add: daemon_inv_def u1_def)
  show "mld1only w' = mld1only w" using sends_fields(6) [OF s] k(8) w1(5) by (simp add: u1_def)
  show "cs = [] \<Longrightarrow> w_calloc w' = []" using sends_fields(13) [OF s] k(11) w1(6) by (simp add: u1_def)
qed

lemma main_boot_inv:
  assumes "env_ok E" and "main_boot E getpwnam opts d sock now cs = Inr s"
  shows "daemon_inv s" and "fst (opt_mode (False, False) opts) \<Longrightarrow> cs = [] \<Longrightarrow> safe_inv s"
proof -
  from assms(2) obtain w where i: "init (blank now cs) = Inr w" by (auto simp: main_boot_def)
  obtain w1 ids where o: "handle_options getpwnam opts (w, (0, 0)) = Inr (w1, ids)"
    using assms(2) i by (cases "handle_options getpwnam opts (w, (0, 0))") (auto simp: main_boot_def)
  obtain w2 where m: "main_start E d sock w1 = Inr w2" and s: "s = (w2, False)"
    using assms(2) i o by (auto simp: main_boot_def)
  have k: "opt_keeps w w1" "mld1only w1 = fst (opt_mode (False, False) opts)"
    using handle_options_run [OF o] init_state [OF i] by (auto simp: prod_eq_iff)
  note b = main_start_inv [OF k(1) i assms(1) m]
  show "daemon_inv s" using b(1) s by simp
  show "fst (opt_mode (False, False) opts) \<Longrightarrow> cs = [] \<Longrightarrow> safe_inv s"
    using b k(2) s by (simp add: safe_inv_def)
qed

end
