(* ===== verification/Bpf_Daemon.thy ===== *)
theory Bpf_Daemon
  imports Bpf_Discovery Daemon
begin

text \<open>
  The process of the BPF build. Its own code works on \<open>bpf_conf\<close>; the rest of the daemon (the packet
  path behind \<open>l2_ethtype\<close>, the timeout, the queries, the signal handlers) is the same source in both
  builds and works on the fields that both have. It is run on that common part of the state, and what it
  hands to \<open>sendpacket6\<close> is then written to the BPF devices as the frames of this build.
\<close>

section \<open>The common part of the state\<close>

text \<open>
  \<open>bd_rest\<close> has the fields of \<open>struct conf\<close> that \<open>bpf_conf\<close> leaves out; the fields that it shares with
  \<open>bpf_conf\<close> are not looked at. \<open>bd_frames\<close> are the sockets and frames of all calls of \<open>writev\<close> so far.
\<close>

record bpf_state =
  bd_conf :: bpf_conf
  bd_rest :: world
  bd_frames :: "(int \<times> bytes) list"

definition common :: "bpf_state \<Rightarrow> world" where
  "common s = (let b = bd_conf s in (bd_rest s)
     \<lparr>ints := map intnode.truncate (b_ints b), maxinterfaces := b_maxinterfaces b, upstream := b_upstream b,
      upstream_id := b_upstream_id b, promisc := b_promisc b, buffer := b_buffer b,
      bufferlen := b_bufferlen b, w_now := b_now b, w_calloc := b_calloc b, w_last_update := b_last_update b\<rparr>)"

definition put_int :: "intnode \<Rightarrow> bpf_int \<Rightarrow> bpf_int" where
  "put_int n m = intnode.extend n (intnode.more m)"

definition put_common :: "world \<Rightarrow> bpf_conf \<Rightarrow> bpf_conf" where
  "put_common w b = b\<lparr>b_ints := map2 put_int (ints w) (b_ints b), b_maxinterfaces := maxinterfaces w,
     b_upstream := upstream w, b_upstream_id := upstream_id w, b_promisc := promisc w,
     b_buffer := buffer w, b_bufferlen := bufferlen w, b_now := w_now w, b_calloc := w_calloc w,
     b_last_update := w_last_update w\<rparr>"

text \<open>
  The packets handed to \<open>sendpacket6\<close> become calls of \<open>writev\<close>, each on the socket that the interface
  or its master has at that moment: a device that is gone is closed at once.
\<close>

fun writes :: "env \<Rightarrow> transmission list \<Rightarrow> transmission list \<Rightarrow> bpf_conf \<Rightarrow> bpf_conf \<times> (int \<times> bytes) list" where
  "writes E pre [] b = (b, [])"
| "writes E pre ((sa, data) # ts) b =
     (let i = unat (sll_ifindex sa);
          frame = bpf_frame b i (take 4 (drop 2 (sll_addr sa))) (of_nat (length data)) data;
          b1 = (case env_sendto E pre (sa, data) of SendENXIO \<Rightarrow> int_destroy_bpf i b | _ \<Rightarrow> b)
      in case writes E (pre @ [(sa, data)]) ts b1 of (b2, frames) \<Rightarrow> (b2, frame # frames))"

definition write_back :: "env \<Rightarrow> world \<Rightarrow> bpf_state \<Rightarrow> bpf_state" where
  "write_back E w s = (let sent = w_sent (bd_rest s) in
     case writes E sent (drop (length sent) (w_sent w)) (bd_conf s) of (b, frames) \<Rightarrow>
       \<lparr>bd_conf = put_common w b, bd_rest = w, bd_frames = bd_frames s @ frames\<rparr>)"

definition run_common :: "env \<Rightarrow> (world \<Rightarrow> world result) \<Rightarrow> bpf_state \<Rightarrow> bpf_state result" where
  "run_common E f s = rbind (f (common s)) (\<lambda>w. Inr (write_back E w s))"

section \<open>Start-up\<close>

definition bpf_blank :: "u64 \<Rightarrow> bool list \<Rightarrow> bpf_conf" where
  "bpf_blank now cs = \<lparr>b_ints = [], b_maxinterfaces = 0, b_promisc = False, b_buffer = [], b_bufferlen = 0,
     b_tunnelmode = False, b_locals = cl_new, b_selectset = [], b_hifd = 0, b_upstream = None,
     b_upstream_id = 0, b_last_update = 0, b_now = now, b_closed = [], b_moves = 0, b_calloc = cs\<rparr>"

text \<open>\<open>init\<close>; the results of \<open>list_new\<close> are used unchecked. The counters are zero from \<open>calloc\<close> on.\<close>

definition init_bpf :: "u64 \<Rightarrow> bool list \<Rightarrow> bpf_state result" where
  "init_bpf now cs = (case b_alloc (bpf_blank now cs) of
       (False, _) \<Rightarrow> Inl ExitFailure
     | (True, b1) \<Rightarrow>
        (case b_alloc (b1\<lparr>b_bufferlen := 32 * 1024, b_selectset := [], b_tunnelmode := True\<rparr>) of
           (False, _) \<Rightarrow> Inl NullDeref
         | (True, b2) \<Rightarrow>
            (case b_alloc (b2\<lparr>b_locals := cl_new, b_maxinterfaces := 0, b_promisc := True\<rparr>) of
               (False, _) \<Rightarrow> Inl NullDeref
             | (True, b3) \<Rightarrow> Inr \<lparr>bd_conf = b3, bd_rest = (blank now [])\<lparr>maxgroups := 42, daemonize := True,
                 groups := cl_new, stat_starttime := b_now b3\<rparr>, bd_frames = []\<rparr>)))"

text \<open>Two more options than the Linux build has.\<close>

datatype bopt = Opt_t | Opt_T | BOpt opt

definition handle_option_bpf ::
    "(string \<Rightarrow> drop_ids option) \<Rightarrow> bopt \<Rightarrow> bpf_state \<times> drop_ids \<Rightarrow> int + (bpf_state \<times> drop_ids)" where
  "handle_option_bpf getpwnam bopt = (\<lambda>(s, ids). case bopt of
       Opt_t \<Rightarrow> Inr (s\<lparr>bd_conf := (bd_conf s)\<lparr>b_tunnelmode := True\<rparr>\<rparr>, ids)
     | Opt_T \<Rightarrow> Inr (s\<lparr>bd_conf := (bd_conf s)\<lparr>b_tunnelmode := False\<rparr>\<rparr>, ids)
     | BOpt opt \<Rightarrow> (case handle_option getpwnam opt (common s, ids) of
           Inl code \<Rightarrow> Inl code
         | Inr (w, ids') \<Rightarrow> Inr (s\<lparr>bd_conf := put_common w (bd_conf s), bd_rest := w\<rparr>, ids')))"

fun handle_options_bpf ::
    "(string \<Rightarrow> drop_ids option) \<Rightarrow> bopt list \<Rightarrow> bpf_state \<times> drop_ids \<Rightarrow> int + (bpf_state \<times> drop_ids)" where
  "handle_options_bpf getpwnam [] s = Inr s"
| "handle_options_bpf getpwnam (opt # opts) s =
     (case handle_option_bpf getpwnam opt s of Inl code \<Rightarrow> Inl code
      | Inr s' \<Rightarrow> handle_options_bpf getpwnam opts s')"

definition main_start_bpf ::
    "nat \<Rightarrow> env \<Rightarrow> (u32 \<Rightarrow> bpf_sys) \<Rightarrow> bool \<Rightarrow> bpf_state \<Rightarrow> bpf_state result option" where
  "main_start_bpf fuel E S dumpfile s =
     (if \<not> dumpfile then Some (Inl ExitFailure)
      else case b_alloc (bd_conf s) of
        (False, _) \<Rightarrow> Some (Inl ExitFailure)
      | (True, b1) \<Rightarrow>
         obind (update_interfaces_bpf fuel E S (b1\<lparr>b_buffer := replicate (unat (b_bufferlen b1)) 0\<rparr>)) (\<lambda>b2.
           Some (run_common E (send_mld_querys E) (s\<lparr>bd_conf := b2\<rparr>))))"

section \<open>The packet path\<close>

text \<open>
  The packet stays where it is when it comes out of a tunnel. For IPv4, \<open>l4_ipv4_proto41\<close> ends the model
  when the buffer with the packet was freed meanwhile.
\<close>

definition l2_ethtype_bpf ::
    "nat \<Rightarrow> env \<Rightarrow> (u32 \<Rightarrow> bpf_sys) \<Rightarrow> nat \<Rightarrow> nat \<Rightarrow> u32 \<Rightarrow> u32 \<Rightarrow> bpf_state \<Rightarrow> bpf_state result option" where
  "l2_ethtype_bpf fuel E S i packet len ether_type s =
     (if ether_type = ucast ETH_P_IP then
        obind (l3_ipv4_bpf fuel E S (b_buffer (bd_conf s)) packet (ucast len) (bd_conf s)) (\<lambda>(inner, b1).
          case inner of
            None \<Rightarrow> Some (Inr (s\<lparr>bd_conf := b1\<rparr>))
          | Some (tun, packet', len') \<Rightarrow>
              Some (run_common E (l2_ethtype E tun packet' (ucast len') (ucast ETH_P_IPV6)) (s\<lparr>bd_conf := b1\<rparr>)))
      else Some (run_common E (l2_ethtype E i packet len ether_type) s))"

definition l2_eth_bpf ::
    "nat \<Rightarrow> env \<Rightarrow> (u32 \<Rightarrow> bpf_sys) \<Rightarrow> nat \<Rightarrow> nat \<times> u32 \<Rightarrow> bpf_state \<Rightarrow> bpf_state result option" where
  "l2_eth_bpf fuel E S i = (\<lambda>(eth, len) s.
     obind (Some (l2_eth (b_buffer (bd_conf s)) eth len)) (\<lambda>(packet, n, type).
       l2_ethtype_bpf fuel E S i packet n (ucast type) s))"

section \<open>The select loop\<close>

datatype sel_res = SelFail bool | SelReady "int list"

text \<open>
  The system while one event is handled: \<open>select\<close> fails, interrupted or not, or tells the ready
  descriptors; \<open>read\<close> of a descriptor fails or gives data; the fields of the \<open>struct bpf_hdr\<close> at an offset
  of the buffer; and \<open>BPF_WORDALIGN\<close>.
\<close>

record bpf_env =
  be_env :: env
  be_sys :: "u32 \<Rightarrow> bpf_sys"
  be_select :: "int list \<Rightarrow> u64 \<Rightarrow> sel_res"
  be_read :: "int \<Rightarrow> bytes option"
  be_caplen :: "bytes \<Rightarrow> nat \<Rightarrow> u32"
  be_hdrlen :: "bytes \<Rightarrow> nat \<Rightarrow> u16"
  be_align :: "nat \<Rightarrow> nat"

fun ofold :: "('a \<Rightarrow> 's \<Rightarrow> 's result option) \<Rightarrow> 'a list \<Rightarrow> 's \<Rightarrow> 's result option" where
  "ofold f [] s = Some (Inr s)"
| "ofold f (x # xs) s = obind (f x s) (ofold f xs)"

text \<open>One device: the read, then the frames that the loop over its packets finds.\<close>

definition read_device :: "nat \<Rightarrow> bpf_env \<Rightarrow> nat \<Rightarrow> bytes \<Rightarrow> bpf_state \<Rightarrow> bpf_state result option" where
  "read_device fuel B i data s =
     (let b = bd_conf s;
          n = min (length data) (unat (bi_bufferlen (b_ints b ! i)));
          buf = take n data @ drop n (b_buffer b)
      in case bpf_read fuel (be_caplen B buf) (be_hdrlen B buf) (be_align B) (b_ints b ! i) of
           None \<Rightarrow> None
         | Some (intn, frames) \<Rightarrow>
             ofold (l2_eth_bpf fuel (be_env B) (be_sys B) i) frames
               (s\<lparr>bd_conf := (upd_bint i (\<lambda>_. intn) b)\<lparr>b_buffer := buf\<rparr>\<rparr>))"

text \<open>The loop over the interfaces, whose number is looked at in every round.\<close>

fun handle_ready :: "nat \<Rightarrow> nat \<Rightarrow> bpf_env \<Rightarrow> int list \<Rightarrow> nat \<Rightarrow> bpf_state \<Rightarrow> (bool \<times> bpf_state) result option" where
  "handle_ready 0 fuel B ready i s = None"
| "handle_ready (Suc rounds) fuel B ready i s =
     (if i \<ge> unat (b_maxinterfaces (bd_conf s)) then Some (Inr (True, s))
      else let intn = b_ints (bd_conf s) ! i in
        if in_mtu intn = 0 then handle_ready rounds fuel B ready (Suc i) s
        else if bi_socket intn = - 1 \<or> bi_socket intn \<notin> set ready then handle_ready rounds fuel B ready (Suc i) s
        else case be_read B (bi_socket intn) of
          None \<Rightarrow> Some (Inr (False, s))
        | Some data \<Rightarrow> obind (read_device fuel B i data s) (handle_ready rounds fuel B ready (Suc i)))"

definition handleinterfaces_bpf :: "nat \<Rightarrow> nat \<Rightarrow> bpf_env \<Rightarrow> bpf_state \<Rightarrow> (bool \<times> bpf_state) result option" where
  "handleinterfaces_bpf rounds fuel B s = (case be_select B (b_selectset (bd_conf s)) (b_hifd (bd_conf s) + 1) of
       SelFail eintr \<Rightarrow> Some (Inr (eintr, s))
     | SelReady [] \<Rightarrow> Some (Inr (True, s))
     | SelReady ready \<Rightarrow> handle_ready rounds fuel B ready 0 s)"

section \<open>The main loop\<close>

definition timeout_bpf :: "nat \<Rightarrow> bpf_env \<Rightarrow> bpf_state \<Rightarrow> bpf_state result option" where
  "timeout_bpf fuel B s =
     obind (update_interfaces_bpf fuel (be_env B) (be_sys B) (bd_conf s)) (\<lambda>b1.
       Some (run_common (be_env B) (\<lambda>w.
         send_mld_querys (be_env B) (w\<lparr>groups := cl_loop2 (timeout_group (gettimes w)) (groups w)\<rparr>)) (s\<lparr>bd_conf := b1\<rparr>)))"

definition run_timeout_bpf :: "nat \<Rightarrow> bpf_env \<Rightarrow> bpf_state \<Rightarrow> bpf_state result option" where
  "run_timeout_bpf fuel B s = (if w_needs_timeout (bd_rest s)
     then obind (timeout_bpf fuel B s) (\<lambda>s1. Some (Inr (s1\<lparr>bd_rest := (bd_rest s1)\<lparr>w_needs_timeout := False\<rparr>\<rparr>)))
     else Some (Inr s))"

datatype bpf_event = BClock u64 | BSigHup | BSigTerm | BSigUsr1 | BSigUsr2 | BSigAlrm | BRound

definition main_round_bpf :: "nat \<Rightarrow> nat \<Rightarrow> bpf_env \<Rightarrow> bpf_state \<times> bool \<Rightarrow> (bpf_state \<times> bool) result option" where
  "main_round_bpf rounds fuel B = (\<lambda>(s, q).
     if quit (bd_rest s) \<or> q then Some (Inr (s, q))
     else obind (run_timeout_bpf fuel B s) (\<lambda>s1.
          obind (handleinterfaces_bpf rounds fuel B s1) (\<lambda>(ok, s2). Some (Inr (s2, \<not> ok)))))"

fun daemon_step_bpf ::
    "nat \<Rightarrow> nat \<Rightarrow> bpf_env \<times> bpf_event \<Rightarrow> bpf_state \<times> bool \<Rightarrow> (bpf_state \<times> bool) result option" where
  "daemon_step_bpf rounds fuel (B, BClock t) (s, q) = Some (Inr (s\<lparr>bd_conf := (bd_conf s)\<lparr>b_now := t\<rparr>\<rparr>, q))"
| "daemon_step_bpf rounds fuel (B, BSigHup) (s, q) = Some (Inr (s, q))"
| "daemon_step_bpf rounds fuel (B, BSigTerm) (s, q) = Some (Inr (s\<lparr>bd_rest := cleanpid (bd_rest s)\<rparr>, q))"
| "daemon_step_bpf rounds fuel (B, BSigUsr1) (s, q) = Some (Inr (s, q))"
| "daemon_step_bpf rounds fuel (B, BSigUsr2) (s, q) =
     Some (rbind (run_common (be_env B) (sigusr2 (be_env B)) s) (\<lambda>s1. Inr (s1, q)))"
| "daemon_step_bpf rounds fuel (B, BSigAlrm) (s, q) = Some (Inr (s\<lparr>bd_rest := timeout_signal (bd_rest s)\<rparr>, q))"
| "daemon_step_bpf rounds fuel (B, BRound) (s, q) = main_round_bpf rounds fuel B (s, q)"

text \<open>From the start of \<open>main\<close> to its loop.\<close>

definition main_boot_bpf ::
    "nat \<Rightarrow> env \<Rightarrow> (u32 \<Rightarrow> bpf_sys) \<Rightarrow> (string \<Rightarrow> drop_ids option) \<Rightarrow> bopt list \<Rightarrow> bool \<Rightarrow> u64 \<Rightarrow> bool list \<Rightarrow>
     (bpf_state \<times> bool) result option" where
  "main_boot_bpf fuel E S getpwnam opts dumpfile now cs =
     obind (Some (init_bpf now cs)) (\<lambda>s.
       case handle_options_bpf getpwnam opts (s, (0, 0)) of
         Inl code \<Rightarrow> Some (Inl ExitFailure)
       | Inr (s1, ids) \<Rightarrow> obind (main_start_bpf fuel E S dumpfile s1) (\<lambda>s2. Some (Inr (s2, False))))"

section \<open>The invariant\<close>

text \<open>
  Every entry satisfies the invariant of the common part, and its IPv4 addresses have four bytes each,
  so that what the copies of IPv4 addresses overwrite keeps its length.
\<close>

definition bint_ok :: "nat \<Rightarrow> bpf_int \<Rightarrow> bool" where
  "bint_ok i n \<longleftrightarrow> int_ok i (intnode.truncate n) \<and> length (bi_ipv4_local n) = INTNODE_MAXIPV4 \<and>
     list_all (\<lambda>a. length a = 4) (bi_ipv4_local n) \<and> length (bi_ipv4_remote n) = 4"

definition bints_ok :: "bpf_conf \<Rightarrow> bool" where
  "bints_ok b \<longleftrightarrow> length (b_ints b) \<le> 2 ^ 32 \<and> (\<forall>i < length (b_ints b). bint_ok i (b_ints b ! i))"

definition bd_inv :: "bpf_state \<Rightarrow> bool" where
  "bd_inv s \<longleftrightarrow> bpf_ok (bd_conf s) \<and> bints_ok (bd_conf s) \<and> groups_ok (groups (bd_rest s))"

lemma truncate_fields [simp]:
  "in_mtu (intnode.truncate n) = in_mtu n" "in_ifindex (intnode.truncate n) = in_ifindex n"
  "in_linklocal (intnode.truncate n) = in_linklocal n" "in_global (intnode.truncate n) = in_global n"
  "in_mld_version (intnode.truncate n) = in_mld_version n" "in_hwaddr (intnode.truncate n) = in_hwaddr n"
  by (simp_all add: intnode.truncate_def)

lemma put_int_fields [simp]:
  "intnode.truncate (put_int n m) = n" "bi_socket (put_int n m) = bi_socket m"
  "bi_bufferlen (put_int n m) = bi_bufferlen m" "bi_master (put_int n m) = bi_master m"
  "bi_ipv4_local (put_int n m) = bi_ipv4_local m" "bi_ipv4_remote (put_int n m) = bi_ipv4_remote m"
  by (cases n; cases m; simp add: put_int_def intnode.truncate_def intnode.extend_def)+

lemma common_fields [simp]:
  "ints (common s) = map intnode.truncate (b_ints (bd_conf s))" "maxinterfaces (common s) = b_maxinterfaces (bd_conf s)"
  "groups (common s) = groups (bd_rest s)" "buffer (common s) = b_buffer (bd_conf s)"
  "bufferlen (common s) = b_bufferlen (bd_conf s)" "w_sent (common s) = w_sent (bd_rest s)"
  "mld1only (common s) = mld1only (bd_rest s)" "mld2only (common s) = mld2only (bd_rest s)"
  "w_now (common s) = b_now (bd_conf s)" "w_calloc (common s) = b_calloc (bd_conf s)"
  by (simp_all add: common_def Let_def)

lemma common_tables: "bd_inv s \<Longrightarrow> tables_ok (common s)"
  by (simp add: bd_inv_def tables_ok_def ints_ok_def bpf_ok_def bints_ok_def bint_ok_def)

text \<open>Writing only closes devices.\<close>

lemma destroy_fields [simp]:
  "length (b_ints (int_destroy_bpf i b)) = length (b_ints b)"
  "bi_ipv4_local (b_ints (int_destroy_bpf i b) ! j) = bi_ipv4_local (b_ints b ! j)"
  "bi_ipv4_remote (b_ints (int_destroy_bpf i b) ! j) = bi_ipv4_remote (b_ints b ! j)"
  "bi_master (b_ints (int_destroy_bpf i b) ! j) = bi_master (b_ints b ! j)"
  "b_tunnelmode (int_destroy_bpf i b) = b_tunnelmode b" "b_bufferlen (int_destroy_bpf i b) = b_bufferlen b"
  by (cases "i < length (b_ints b)"; auto simp: int_destroy_bpf_def Let_def upd_bint_def nth_list_update list_update_beyond)+

lemma writes_keeps:
  "bpf_ok b \<Longrightarrow> bpf_ok (fst (writes E pre ts b)) \<and> length (b_ints (fst (writes E pre ts b))) = length (b_ints b) \<and>
     b_bufferlen (fst (writes E pre ts b)) = b_bufferlen b \<and>
     (\<forall>j. bi_ipv4_local (b_ints (fst (writes E pre ts b)) ! j) = bi_ipv4_local (b_ints b ! j) \<and>
       bi_ipv4_remote (b_ints (fst (writes E pre ts b)) ! j) = bi_ipv4_remote (b_ints b ! j))"
proof (induction E pre ts b rule: writes.induct)
  case (2 E pre sa data ts b)
  have ok: "bpf_ok (int_destroy_bpf i b)" for i by (rule bpf_ok_destroy [OF 2(2)])
  show ?case
    using 2(1) [OF refl refl refl] 2(2) ok by (cases "env_sendto E pre (sa, data)") (auto simp: Let_def split: prod.split)
qed simp

lemma put_common_fields [simp]:
  "b_ints (put_common w b) = map2 put_int (ints w) (b_ints b)" "b_maxinterfaces (put_common w b) = maxinterfaces w"
  "b_buffer (put_common w b) = buffer w" "b_bufferlen (put_common w b) = bufferlen w"
  "b_selectset (put_common w b) = b_selectset b" "b_hifd (put_common w b) = b_hifd b"
  "b_tunnelmode (put_common w b) = b_tunnelmode b" "b_now (put_common w b) = w_now w"
  "b_calloc (put_common w b) = w_calloc w" "b_locals (put_common w b) = b_locals b"
  by (simp_all add: put_common_def)

lemma put_common_bpf_ok:
  assumes "bpf_ok b" and "tables_ok w" and "length (ints w) = length (b_ints b)"
    and "bufferlen w = b_bufferlen b" and "length (buffer w) = length (b_buffer b)"
  shows "bpf_ok (put_common w b)"
  using assms by (simp add: bpf_ok_def tables_ok_def ints_ok_def list_all_length)

lemma write_back_inv:
  assumes "bd_inv s" and "tables_ok w" and "passed (common s) w"
  shows "bd_inv (write_back E w s)"
proof -
  let ?sent = "w_sent (bd_rest s)" and ?b = "bd_conf s"
  obtain b frames where b: "writes E ?sent (drop (length ?sent) (w_sent w)) ?b = (b, frames)" by fastforce
  have ok: "bpf_ok ?b" "bints_ok ?b" using assms(1) by (simp_all add: bd_inv_def)
  note p = passed_fields [OF assms(3), simplified]
  note k = writes_keeps [OF ok(1), of E ?sent "drop (length ?sent) (w_sent w)", unfolded b fst_conv]
  have len: "length (b_buffer b) = unat (b_bufferlen b)" "length (b_buffer ?b) = unat (b_bufferlen ?b)"
    using k ok(1) by (simp_all add: bpf_ok_def)
  have "bpf_ok (put_common w b)"
    by (rule put_common_bpf_ok [OF conjunct1 [OF k] assms(2)]) (use p k len in simp_all)
  moreover have "bints_ok (put_common w b)"
    using ok(2) k assms(2) p by (simp add: bints_ok_def bint_ok_def tables_ok_def ints_ok_def)
  ultimately show ?thesis using assms(2) by (simp add: write_back_def b bd_inv_def tables_ok_def)
qed

lemma run_common_inv:
  assumes "bd_inv s" and "run_common E f s = Inr s'"
    and "\<And>w. f (common s) = Inr w \<Longrightarrow> tables_ok w \<and> passed (common s) w"
  shows "bd_inv s'"
  using assms by (auto simp: run_common_def intro: write_back_inv)

lemma run_common_sends:
  assumes "bd_inv s" and "run_common E f s = Inr s'" and "\<And>w. f (common s) = Inr w \<Longrightarrow> sends (common s) w"
  shows "bd_inv s'"
  using assms(3) inv_sends [OF _ common_tables [OF assms(1)]]
  by (intro run_common_inv [OF assms(1,2)]) (simp add: kept_sends passed_kept)

section \<open>Discovery keeps the invariant\<close>

text \<open>The addresses that the system reports have their lengths.\<close>

definition ipv4_env_ok :: "env \<Rightarrow> (u32 \<Rightarrow> bpf_sys) \<Rightarrow> bool" where
  "ipv4_env_ok E S \<longleftrightarrow> env_ok E \<and> sys_ok S \<and>
     (case env_getifaddrs E of None \<Rightarrow> True | Some ifas \<Rightarrow>
        list_all (\<lambda>ifa. case ifa_addr ifa of Some (SA_INET a) \<Rightarrow> length a = 16 | _ \<Rightarrow> True) ifas) \<and>
     (\<forall>k a d. bs_phyaddr (S k) = Some (a, d) \<longrightarrow> length a = 4 \<and> length d = 4)"

lemma bints_ok_upd:
  assumes "bints_ok b" and "i < length (b_ints b) \<Longrightarrow> bint_ok i (b_ints b ! i) \<Longrightarrow> bint_ok i (f (b_ints b ! i))"
  shows "bints_ok (upd_bint i f b)"
proof (cases "i < length (b_ints b)")
  case True
  with assms show ?thesis by (auto simp: bints_ok_def upd_bint_nth)
next
  case False
  then have "upd_bint i f b = b" by (simp add: upd_bint_def list_update_beyond)
  with assms(1) show ?thesis by simp
qed

lemma bints_ok_cong: "bints_ok b \<Longrightarrow> b_ints b' = b_ints b \<Longrightarrow> bints_ok b'"
  by (simp add: bints_ok_def)

lemma bints_ok_fields [simp]:
  "bints_ok (b\<lparr>b_closed := c\<rparr>) = bints_ok b" "bints_ok (b\<lparr>b_selectset := l\<rparr>) = bints_ok b"
  "bints_ok (b\<lparr>b_hifd := h\<rparr>) = bints_ok b" "bints_ok (b\<lparr>b_upstream_id := u\<rparr>) = bints_ok b"
  "bints_ok (b\<lparr>b_last_update := t\<rparr>) = bints_ok b" "bints_ok (b\<lparr>b_locals := ls\<rparr>) = bints_ok b"
  "bints_ok (b\<lparr>b_calloc := cs\<rparr>) = bints_ok b" "bints_ok (b\<lparr>b_buffer := bs\<rparr>) = bints_ok b"
  "bints_ok (b\<lparr>b_bufferlen := m\<rparr>) = bints_ok b" "bints_ok (b\<lparr>b_now := t\<rparr>) = bints_ok b"
  "bints_ok (b\<lparr>b_tunnelmode := v\<rparr>) = bints_ok b"
  by (simp_all add: bints_ok_def)

lemma bint_ok_updates [simp]:
  "bint_ok i (n\<lparr>bi_socket := k\<rparr>) = bint_ok i n" "bint_ok i (n\<lparr>bi_dlt := d\<rparr>) = bint_ok i n"
  "bint_ok i (n\<lparr>bi_bufferlen := l\<rparr>) = bint_ok i n" "bint_ok i (n\<lparr>bi_master := m\<rparr>) = bint_ok i n"
  "bint_ok i (n\<lparr>in_upstream := u\<rparr>) = bint_ok i n" "bint_ok i (n\<lparr>in_name := s\<rparr>) = bint_ok i n"
  "bint_ok i (n\<lparr>in_packets_received := p\<rparr>) = bint_ok i n" "bint_ok i (n\<lparr>in_bytes_received := c\<rparr>) = bint_ok i n"
  "bint_ok i n \<Longrightarrow> bint_ok i (n\<lparr>in_mtu := 0\<rparr>)"
  "bint_ok i n \<Longrightarrow> addr_wf a \<Longrightarrow> bint_ok i (n\<lparr>in_linklocal := a\<rparr>)"
  "bint_ok i n \<Longrightarrow> addr_wf a \<Longrightarrow> bint_ok i (n\<lparr>in_global := a\<rparr>)"
  by (simp_all add: bint_ok_def int_ok_def)

lemma bints_ok_destroy: "bints_ok b \<Longrightarrow> bints_ok (int_destroy_bpf i b)"
  unfolding int_destroy_bpf_def Let_def by (auto intro!: bints_ok_upd)

lemma bint_zero_bint_ok: "bint_ok i (bint_zero\<lparr>in_ifindex := k, in_mld_version := 0\<rparr>)" "bint_ok i bint_zero"
  by (simp_all add: bint_ok_def int_ok_def bint_zero_def int_zero_def intnode.defs bpf_int.defs ipv4_any_def
      in6addr_any_def addr_wf_def INTNODE_MAXIPV4_def list_all_iff)

lemma bints_ok_resize:
  assumes "bpf_ok b" and "bints_ok b" and "int_resize_bpf moved k b = Inr b'"
  shows "bints_ok b'"
proof (cases "ucast (k + 1) > b_maxinterfaces b")
  case True
  with assms(3) obtain b1 where a: "b_alloc b = (True, b1)" and b': "b' = b1\<lparr>
      b_moves := b_moves b1 + of_bool moved,
      b_ints := b_ints b1 @ replicate (unat (ucast (k + 1) - b_maxinterfaces b1 :: u64)) bint_zero,
      b_maxinterfaces := ucast (k + 1)\<rparr>"
    by (auto simp: int_resize_bpf_def split: prod.splits bool.splits if_splits)
  from b_alloc_fields [OF a] obtain cs where b1: "b1 = b\<lparr>b_calloc := cs\<rparr>" by auto
  have "bpf_ok b'" by (rule bpf_ok_resize [OF assms(1,3)])
  then have "length (b_ints b') = unat (ucast (k + 1) :: u64)" by (simp add: bpf_ok_def b')
  then have len: "length (b_ints b') \<le> 2 ^ 32"
    using unsigned_less [of "k + 1", where ?'a = nat] by (simp only: ucast_u32_le len_of_numeral_defs) simp
  have "bint_ok i (b_ints b' ! i)" if "i < length (b_ints b')" for i
  proof (cases "i < length (b_ints b)")
    case True
    with assms(2) show ?thesis by (simp add: b' b1 nth_append bints_ok_def)
  next
    case False
    with that show ?thesis by (simp add: b' b1 nth_append bint_zero_bint_ok(2))
  qed
  with len show ?thesis by (simp add: bints_ok_def)
next
  case False
  with assms(2,3) show ?thesis by (simp add: int_resize_bpf_def)
qed

text \<open>Setting up a device changes nothing of the common part.\<close>

lemma bpf_buffer_ints: "bpf_buffer len b = Inr b' \<Longrightarrow> b_ints b' = b_ints b"
  by (auto simp: bpf_buffer_def dest!: b_alloc_fields split: if_splits prod.splits bool.splits)

lemma bpf_configure_bints:
  assumes "bints_ok b" and "bpf_configure S i b = Inr (ok, b')"
  shows "bints_ok b'"
  using assms(2)
proof (cases rule: bpf_configure_cases)
  case (3 dlt blen b2)
  have "bints_ok (upd_bint i (\<lambda>n. n\<lparr>bi_bufferlen := blen\<rparr>) (upd_bint i (\<lambda>n. n\<lparr>bi_dlt := dlt\<rparr>) b))"
    using assms(1) by (intro bints_ok_upd) simp_all
  from bints_ok_cong [OF this bpf_buffer_ints [OF 3(2)]] show ?thesis
    by (rule bints_ok_cong) (rule bpf_select_fields(1) [OF 3(3)])
qed (use assms(1) in \<open>auto intro!: bints_ok_upd\<close>)

lemma bpf_tunnel_bints:
  assumes "bints_ok b" and "\<forall>a d. bs_phyaddr S = Some (a, d) \<longrightarrow> length a = 4 \<and> length d = 4"
    and "bpf_tunnel S i b = (ok, b')"
  shows "bints_ok b'"
proof -
  have "bint_ok i (n\<lparr>bi_ipv4_local := (bi_ipv4_local n)[0 := a], bi_ipv4_remote := d\<rparr>)"
    if "bint_ok i n" "length a = 4" "length d = 4" for n a d
    using that by (auto simp: bint_ok_def int_ok_def list_all_iff dest!: set_update_subset_insert [THEN subsetD])
  with assms show ?thesis
    by (auto simp: bpf_tunnel_def Let_def intro!: bints_ok_upd split: if_splits option.splits)
qed

lemma int_create_bpf_cases:
  assumes "int_create_bpf fuel S i tunnel b = Some (Inr (ok, b'))"
  obtains k c where "bpf_configure S i ((upd_bint i (\<lambda>n. n\<lparr>bi_socket := k\<rparr>) b)\<lparr>b_closed := c\<rparr>) = Inr (ok, b')"
    | k c where "b' = (upd_bint i (\<lambda>n. n\<lparr>bi_socket := k\<rparr>) b)\<lparr>b_closed := c\<rparr>" | "bpf_tunnel S i b = (ok, b')"
  using assms by (auto simp: int_create_bpf_def Let_def split: if_splits)

lemma int_create_bpf_bints:
  assumes "bints_ok b" and "\<forall>a d. bs_phyaddr S = Some (a, d) \<longrightarrow> length a = 4 \<and> length d = 4"
    and "int_create_bpf fuel S i tunnel b = Some (Inr (ok, b'))"
  shows "bints_ok b'"
  using assms(3)
proof (cases rule: int_create_bpf_cases)
  case (1 k c)
  show ?thesis by (rule bpf_configure_bints [OF _ 1]) (simp add: bints_ok_upd assms(1))
qed (use assms(1,2) bpf_tunnel_bints in \<open>auto simp: bints_ok_upd\<close>)

lemma int_upstream_bints: "bints_ok b \<Longrightarrow> bints_ok (int_upstream_bpf name i b)"
  by (auto simp: int_upstream_bpf_def intro!: bints_ok_upd split: option.split)

lemma int_setup_bpf_bints:
  assumes "bints_ok b" and "unat k < length (b_ints b)" and "in_ifindex (b_ints b ! unat k) = ucast k"
    and "in_hwaddr (b_ints b ! unat k) = 0" and "ipv4_env_ok E S"
    and "int_setup_bpf fuel E S k tunnel b = Some (Inr (r, b'))"
  shows "bints_ok b'"
proof -
  let ?i = "unat k"
  have phy: "\<forall>a d. bs_phyaddr (S k) = Some (a, d) \<longrightarrow> length a = 4 \<and> length d = 4"
    using assms(5) by (simp add: ipv4_env_ok_def)
  have named: "bints_ok (upd_bint ?i (\<lambda>n. n\<lparr>in_name := name\<rparr>) b)" for name
    using assms(1) by (intro bints_ok_upd) simp_all
  have ready: "bints_ok (upd_bint ?i (\<lambda>n. n\<lparr>in_mtu := scast mtu\<rparr>) (upd_bint ?i (\<lambda>n. n\<lparr>in_name := name\<rparr>) b))"
    if "\<not> sint mtu < 1280" for mtu :: u32 and name
  proof (rule bints_ok_upd [OF named])
    assume "bint_ok ?i (b_ints (upd_bint ?i (\<lambda>n. n\<lparr>in_name := name\<rparr>) b) ! ?i)"
    moreover have "(scast mtu :: u64) = 0 \<or> 1280 \<le> (scast mtu :: u64) \<and> (scast mtu :: u64) < 2 ^ 31"
      using mtu_bounds [of mtu] that by simp
    ultimately show "bint_ok ?i ((b_ints (upd_bint ?i (\<lambda>n. n\<lparr>in_name := name\<rparr>) b) ! ?i)\<lparr>in_mtu := scast mtu\<rparr>)"
      using assms(2-4) by (auto simp: bint_ok_def int_ok_def upd_bint_nth ARPHRD_LOOPBACK_def)
  qed
  show ?thesis
  proof (cases "env_ifname E k")
    case None
    with assms(1,6) show ?thesis by (auto simp: int_setup_bpf_def bints_ok_destroy)
  next
    case name: (Some name)
    show ?thesis
    proof (cases "env_ifmtu E k")
      case None
      with assms(6) name named show ?thesis by (auto simp: int_setup_bpf_def Let_def bints_ok_destroy)
    next
      case mtu: (Some mtu)
      show ?thesis
      proof (cases "sint mtu < 1280")
        case True
        with assms(6) name mtu named show ?thesis by (auto simp: int_setup_bpf_def Let_def bints_ok_destroy)
      next
        case False
        with assms(6) name mtu obtain ok b2 where c: "int_create_bpf fuel (S k) ?i tunnel (upd_bint ?i (\<lambda>n. n\<lparr>in_mtu := scast mtu\<rparr>)
            (upd_bint ?i (\<lambda>n. n\<lparr>in_name := name\<rparr>) b)) = Some (Inr (ok, b2))"
          and b': "b' = (if ok then int_upstream_bpf name ?i b2 else int_destroy_bpf ?i b2)"
          by (auto simp: int_setup_bpf_def Let_def split: if_splits)
        from int_create_bpf_bints [OF ready [OF False] phy c] b' show ?thesis
          by (simp add: bints_ok_destroy int_upstream_bints)
      qed
    qed
  qed
qed

lemma int_create_b_bints:
  assumes "bpf_ok b" and "bints_ok b" and "ipv4_env_ok E S" and "int_create_b fuel E S k tunnel b = Some (Inr (r, b'))"
  shows "bints_ok b'"
proof -
  from assms(4) obtain b1 where b1: "int_resize_bpf (bs_moves (S k)) k b = Inr b1" and r: "(if \<not> env_socket E then Some (Inr (None, b1))
       else if unat k \<ge> length (b_ints b1) then Some (Inl OutOfBounds)
       else int_setup_bpf fuel E S k tunnel (upd_bint (unat k)
              (\<lambda>_. bint_zero\<lparr>in_ifindex := ucast k, in_mld_version := 0, bi_socket := - 1\<rparr>) b1)) = Some (Inr (r, b'))"
    by (auto simp: int_create_b_def)
  have ok1: "bints_ok b1" by (rule bints_ok_resize [OF assms(1,2) b1])
  show ?thesis
  proof (cases "\<not> env_socket E")
    case True
    with r ok1 show ?thesis by simp
  next
    case False
    with r have k: "unat k < length (b_ints b1)" and s: "int_setup_bpf fuel E S k tunnel (upd_bint (unat k)
              (\<lambda>_. bint_zero\<lparr>in_ifindex := ucast k, in_mld_version := 0, bi_socket := - 1\<rparr>) b1) = Some (Inr (r, b'))"
      by (auto split: if_splits)
    have ok2: "bints_ok (upd_bint (unat k) (\<lambda>_. bint_zero\<lparr>in_ifindex := ucast k, in_mld_version := 0, bi_socket := - 1\<rparr>) b1)"
      using ok1 by (intro bints_ok_upd) (simp_all add: bint_zero_bint_ok)
    have "in_hwaddr bint_zero = 0" by (simp add: bint_zero_def int_zero_def intnode.defs bpf_int.defs)
    then show ?thesis using int_setup_bpf_bints [OF ok2 _ _ _ assms(3) s] k by (simp add: upd_bint_nth)
  qed
qed

text \<open>What the copies of an IPv4 address overwrite keeps its length.\<close>

lemma ipv4_slot_length:
  assumes "length m = 36" and "length addr = 16" and "set nums \<subseteq> {..<INTNODE_MAXIPV4}"
  shows "length (snd (ipv4_slot ptp addr nums m)) = 36"
  using assms by (induction nums) (auto simp: INTNODE_MAXIPV4_def)

lemma length_int_mem:
  assumes "bint_ok i n"
  shows "length (int_mem n) = 36"
proof -
  have "length (concat as) = 4 * length as" if "list_all (\<lambda>a. length a = 4) as" for as :: "bytes list"
    using that by (induction as) auto
  with assms show ?thesis by (simp add: bint_ok_def int_ok_def addr_wf_def int_mem_def INTNODE_MAXIPV4_def)
qed

lemma int_of_mem_bint_ok:
  assumes "bint_ok i n" and "length m = 36"
  shows "bint_ok i (int_of_mem m n)"
  using assms by (auto simp: bint_ok_def int_ok_def int_of_mem_def addr_wf_def list_all_iff INTNODE_MAXIPV4_def)

lemma local_update_bints: "bints_ok b \<Longrightarrow> bints_ok (local_update i b)"
  by (rule bints_ok_cong) simp_all

lemma update_addr_bpf_bints:
  assumes "bints_ok b" and "sa_ok sa" and "\<And>a. sa = SA_INET a \<Longrightarrow> length a = 16"
  shows "bints_ok (snd (update_addr_bpf ptp sa i b))"
proof (cases sa)
  case (SA_INET a)
  define m where "m = snd (ipv4_slot ptp a [0..<INTNODE_MAXIPV4] (int_mem (b_ints b ! i)))"
  have "bints_ok (upd_bint i (int_of_mem m) b)"
  proof (rule bints_ok_upd [OF assms(1)])
    assume "bint_ok i (b_ints b ! i)"
    moreover from this have "length m = 36"
      unfolding m_def using assms(3) [OF SA_INET] by (intro ipv4_slot_length length_int_mem) auto
    ultimately show "bint_ok i (int_of_mem m (b_ints b ! i))" by (rule int_of_mem_bint_ok)
  qed
  with SA_INET show ?thesis
    by (auto simp: update_addr_bpf_def update_ipv4_def Let_def m_def local_update_bints split: prod.split)
qed (use assms(1,2) in \<open>auto simp: update_addr_bpf_def sa_ok_def intro!: bints_ok_upd\<close>)

lemma update_any_bpf_bints:
  assumes "bpf_ok b" and "bints_ok b" and "ipv4_env_ok E S" and "sa_ok sa" and "\<And>a. sa = SA_INET a \<Longrightarrow> length a = 16"
    and "update_any_bpf fuel E S ptp sa k b = Some (Inr b')"
  shows "bints_ok b'"
proof -
  obtain b1 where "bints_ok b1"
    and "b' = b1 \<or> (\<exists>i. b' = snd (update_addr_bpf ptp sa i b1)) \<or> (\<exists>i. b' = int_destroy_bpf i (snd (update_addr_bpf ptp sa i b1)))"
    using update_any_bpf_cases [OF assms(6)] int_create_b_bints [OF assms(1-3)] assms(2) by metis
  then show ?thesis by (auto intro: bints_ok_destroy update_addr_bpf_bints [OF _ assms(4,5)])
qed

definition ifa_ok4 :: "ifaddr \<Rightarrow> bool" where
  "ifa_ok4 ifa \<longleftrightarrow> ifa_ok ifa \<and> (case ifa_addr ifa of Some (SA_INET a) \<Rightarrow> length a = 16 | _ \<Rightarrow> True)"

lemma update_loop_bpf_bints:
  assumes "bpf_ok b" and "bints_ok b" and "ipv4_env_ok E S" and "list_all ifa_ok4 ifas"
    and "update_loop_bpf fuel E S ifas b = Some (Inr b')"
  shows "bints_ok b'"
  using assms(1,2,4,5)
proof (induction ifas arbitrary: b)
  case (Cons ifa ifas)
  show ?case
  proof (cases "\<exists>sa. ifa_addr ifa = Some sa \<and> \<not> (ifa_ignored (ifa_flags ifa) sa \<or> ifa_skipped sa)")
    case False
    with Cons show ?thesis by (auto split: option.splits if_splits)
  next
    case True
    then obtain sa where sa: "ifa_addr ifa = Some sa" "\<not> (ifa_ignored (ifa_flags ifa) sa \<or> ifa_skipped sa)" by blast
    with Cons.prems(4) obtain b1 where
      b1: "update_any_bpf fuel E S (ifa_flags ifa AND IFF_POINTOPOINT = IFF_POINTOPOINT) sa (env_nametoindex E (ifa_name ifa)) b = Some (Inr b1)"
      and rest: "update_loop_bpf fuel E S ifas b1 = Some (Inr b')" by (auto split: if_splits)
    have sa_ok: "sa_ok sa" "sa = SA_INET a \<Longrightarrow> length a = 16" for a
      using Cons.prems(3) sa(1) by (auto simp: ifa_ok4_def ifa_ok_def)
    have "bpf_ok b1" using update_any_bpf_ok [OF Cons.prems(1) _ b1] assms(3) by (simp add: ipv4_env_ok_def)
    moreover have "bints_ok b1" by (rule update_any_bpf_bints [OF Cons.prems(1,2) assms(3) sa_ok b1])
    ultimately show ?thesis using Cons.IH Cons.prems(3) rest by simp
  qed
qed simp

lemma update_interfaces_bpf_inv:
  assumes "bd_inv s" and "ipv4_env_ok E S" and "update_interfaces_bpf fuel E S (bd_conf s) = Some (Inr b')"
  shows "bd_inv (s\<lparr>bd_conf := b'\<rparr>)"
proof -
  have ok: "bpf_ok (bd_conf s)" "bints_ok (bd_conf s)" using assms(1) by (simp_all add: bd_inv_def)
  have "bints_ok b'"
  proof (cases "env_getifaddrs E")
    case None
    with assms(3) ok show ?thesis by (auto simp: update_interfaces_bpf_def Let_def split: if_splits)
  next
    case (Some ifas)
    have "list_all ifa_ok4 ifas" using assms(2) Some by (auto simp: ipv4_env_ok_def env_ok_def ifa_ok4_def list_all_iff)
    then have "bints_ok b'" if "update_loop_bpf fuel E S ifas (bd_conf s\<lparr>b_last_update := b_now (bd_conf s)\<rparr>) = Some (Inr b')"
      using that ok assms(2) by (intro update_loop_bpf_bints [OF _ _ assms(2) _ that]) simp_all
    with Some assms(3) ok show ?thesis by (auto simp: update_interfaces_bpf_def Let_def split: if_splits)
  qed
  moreover have "bpf_ok b'"
    using update_interfaces_bpf_run(1) [OF ok(1) _ assms(3)] assms(2) by (simp add: ipv4_env_ok_def)
  ultimately show ?thesis using assms(1) by (simp add: bd_inv_def)
qed

section \<open>Every event keeps the invariant\<close>

text \<open>Where the packet is not IPv4, or comes out of a tunnel, the path of the Linux build is run.\<close>

lemma run_path_inv:
  assumes "bd_inv s" and "i < length (b_ints (bd_conf s))" and "run_common E (l2_ethtype E i p len t) s = Inr s'"
  shows "bd_inv s'"
  using common_tables [OF assms(1)] l2_ethtype_path [of i "common s" E p len t] assms(2)
  by (intro run_common_inv [OF assms(1,3)]) (simp add: path_ok_def)

lemma l4_ipv4_proto41_inv:
  assumes "bd_inv s" and "ipv4_env_ok E S" and "l4_ipv4_proto41 fuel E S src (bd_conf s) = Some (Inr (r, b'))"
  shows "bd_inv (s\<lparr>bd_conf := b'\<rparr>)" and "r = Some tun \<Longrightarrow> tun < length (b_ints b')"
proof -
  show inv: "bd_inv (s\<lparr>bd_conf := b'\<rparr>)"
    using assms(1,3) update_interfaces_bpf_inv [OF assms(1,2)]
    by (auto simp: l4_ipv4_proto41_def split: if_splits option.splits)
  show "tun < length (b_ints b')" if "r = Some tun"
  proof -
    have "int_find_ipv4 False src b' = Some tun"
      using assms(3) that by (auto simp: l4_ipv4_proto41_def split: if_splits option.splits)
    then show ?thesis using int_find_ipv4_remote(1) inv by (fastforce simp: bd_inv_def bpf_ok_def)
  qed
qed

lemma l3_ipv4_bpf_inv:
  assumes "bd_inv s" and "ipv4_env_ok E S" and "l3_ipv4_bpf fuel E S buf iph len (bd_conf s) = Some (Inr (r, b'))"
  shows "bd_inv (s\<lparr>bd_conf := b'\<rparr>)" and "r = Some (tun, p, n) \<Longrightarrow> tun < length (b_ints b')"
proof -
  have "(r = None \<and> b' = bd_conf s) \<or> (\<exists>src q pn. l4_ipv4_proto41 fuel E S src (bd_conf s) = Some (Inr (q, b')) \<and>
      r = map_option (\<lambda>i. (i, pn)) q)"
    using assms(3) unfolding l3_ipv4_bpf_def Let_def by (clarsimp split: if_splits) fastforce+
  then have "bd_inv (s\<lparr>bd_conf := b'\<rparr>) \<and> (r = Some (tun, p, n) \<longrightarrow> tun < length (b_ints b'))"
  proof (elim disjE exE conjE)
    fix src q pn
    assume q: "l4_ipv4_proto41 fuel E S src (bd_conf s) = Some (Inr (q, b'))" and r: "r = map_option (\<lambda>i. (i, pn)) q"
    note inv = l4_ipv4_proto41_inv [OF assms(1,2) q]
    from inv(1) inv(2) [of tun] r show ?thesis by auto
  qed (use assms(1) in simp)
  then show "bd_inv (s\<lparr>bd_conf := b'\<rparr>)" "r = Some (tun, p, n) \<Longrightarrow> tun < length (b_ints b')" by simp_all
qed

lemma l2_ethtype_bpf_inv:
  assumes "bd_inv s" and "ipv4_env_ok E S" and "i < length (b_ints (bd_conf s))"
    and "l2_ethtype_bpf fuel E S i p len t s = Some (Inr s')"
  shows "bd_inv s'"
proof (cases "t = ucast ETH_P_IP")
  case True
  with assms(4) obtain inner b1 where b1: "l3_ipv4_bpf fuel E S (b_buffer (bd_conf s)) p (ucast len) (bd_conf s) = Some (Inr (inner, b1))"
    and r: "case inner of None \<Rightarrow> s' = s\<lparr>bd_conf := b1\<rparr>
      | Some (tun, p', n) \<Rightarrow> run_common E (l2_ethtype E tun p' (ucast n) (ucast ETH_P_IPV6)) (s\<lparr>bd_conf := b1\<rparr>) = Inr s'"
    by (auto simp: l2_ethtype_bpf_def split: if_splits option.splits)
  note inv = l3_ipv4_bpf_inv [OF assms(1,2) b1]
  show ?thesis
  proof (cases inner)
    case (Some x)
    then obtain tun p' n where x: "inner = Some (tun, p', n)" by (cases x) auto
    then have "run_common E (l2_ethtype E tun p' (ucast n) (ucast ETH_P_IPV6)) (s\<lparr>bd_conf := b1\<rparr>) = Inr s'"
      using r by simp
    from run_path_inv [OF inv(1) _ this] inv(2) [OF x] show ?thesis by simp
  qed (use r inv(1) in simp)
qed (use assms run_path_inv in \<open>simp add: l2_ethtype_bpf_def\<close>)

text \<open>The array of interfaces never shrinks.\<close>

lemma int_create_bpf_length:
  assumes "int_create_bpf fuel S i tunnel b = Some (Inr (ok, b'))"
  shows "length (b_ints b') = length (b_ints b)"
  using assms
proof (cases rule: int_create_bpf_cases)
  case (1 k c)
  then show ?thesis by (cases rule: bpf_configure_cases) (auto dest!: bpf_buffer_ints bpf_select_fields(1))
next
  case 3
  then show ?thesis by (auto simp: bpf_tunnel_def Let_def split: if_splits option.splits)
qed simp

lemma int_upstream_length [simp]: "length (b_ints (int_upstream_bpf name i b)) = length (b_ints b)"
  by (simp add: int_upstream_bpf_def split: option.split)

lemma int_setup_bpf_length: "int_setup_bpf fuel E S k tunnel b = Some (Inr (r, b')) \<Longrightarrow> length (b_ints b') = length (b_ints b)"
  by (auto simp: int_setup_bpf_def Let_def dest!: int_create_bpf_length split: option.splits if_splits)

lemma int_create_b_length: "int_create_b fuel E S k tunnel b = Some (Inr (r, b')) \<Longrightarrow> length (b_ints b) \<le> length (b_ints b')"
proof -
  have "length (b_ints b) \<le> length (b_ints b1)" if "int_resize_bpf moved k b = Inr b1" for moved b1
    using that by (auto simp: int_resize_bpf_def dest!: b_alloc_fields split: if_splits prod.splits bool.splits)
  then show "int_create_b fuel E S k tunnel b = Some (Inr (r, b')) \<Longrightarrow> length (b_ints b) \<le> length (b_ints b')"
    by (auto simp: int_create_b_def dest!: int_setup_bpf_length split: if_splits)
qed

lemma update_addr_bpf_length [simp]: "length (b_ints (snd (update_addr_bpf ptp sa i b))) = length (b_ints b)"
  by (simp add: update_addr_bpf_def update_ipv4_def Let_def split: ifaddr_sa.split prod.split)

lemma update_any_bpf_length:
  assumes "update_any_bpf fuel E S ptp sa k b = Some (Inr b')"
  shows "length (b_ints b) \<le> length (b_ints b')"
proof -
  obtain b1 where "length (b_ints b) \<le> length (b_ints b1)"
    and "b' = b1 \<or> (\<exists>i. b' = snd (update_addr_bpf ptp sa i b1)) \<or> (\<exists>i. b' = int_destroy_bpf i (snd (update_addr_bpf ptp sa i b1)))"
    using update_any_bpf_cases [OF assms] int_create_b_length by (metis order_refl)
  then show ?thesis by auto
qed

lemma update_loop_bpf_length: "update_loop_bpf fuel E S ifas b = Some (Inr b') \<Longrightarrow> length (b_ints b) \<le> length (b_ints b')"
proof (induction fuel E S ifas b rule: update_loop_bpf.induct)
  case (2 fuel E S ifa ifas b)
  then show ?case by (fastforce dest: update_any_bpf_length split: option.splits if_splits)
qed simp

lemma update_interfaces_bpf_length:
  "update_interfaces_bpf fuel E S b = Some (Inr b') \<Longrightarrow> length (b_ints b) \<le> length (b_ints b')"
  by (auto simp: update_interfaces_bpf_def Let_def dest!: update_loop_bpf_length split: if_splits option.splits)

text \<open>Frames, devices, rounds.\<close>

lemma write_back_length:
  assumes "bd_inv s" and "passed (common s) w"
  shows "length (b_ints (bd_conf (write_back E w s))) = length (b_ints (bd_conf s))"
proof -
  let ?sent = "w_sent (bd_rest s)" and ?b = "bd_conf s"
  obtain b frames where b: "writes E ?sent (drop (length ?sent) (w_sent w)) ?b = (b, frames)" by fastforce
  have "bpf_ok ?b" using assms(1) by (simp add: bd_inv_def)
  from writes_keeps [OF this, of E ?sent "drop (length ?sent) (w_sent w)"] passed_fields(6) [OF assms(2)] b
  show ?thesis by (simp add: write_back_def)
qed

lemma run_path_length:
  assumes "bd_inv s" and "i < length (b_ints (bd_conf s))" and "run_common E (l2_ethtype E i p len t) s = Inr s'"
  shows "length (b_ints (bd_conf s')) = length (b_ints (bd_conf s))"
proof -
  obtain w where w: "l2_ethtype E i p len t (common s) = Inr w" "s' = write_back E w s"
    using assms(3) by (auto simp: run_common_def)
  have "path_ok (common s) w" using assms(2) by (intro l2_ethtype_path [OF _ w(1)]) simp
  then show ?thesis using write_back_length [OF assms(1)] w(2) by (simp add: path_ok_def)
qed

lemma l3_ipv4_bpf_length:
  assumes "l3_ipv4_bpf fuel E S buf iph len b = Some (Inr (r, b'))"
  shows "length (b_ints b) \<le> length (b_ints b')"
proof -
  have "length (b_ints b) \<le> length (b_ints b')" if "l4_ipv4_proto41 fuel E S src b = Some (Inr (q, b'))" for src q
    using that by (auto simp: l4_ipv4_proto41_def dest!: update_interfaces_bpf_length split: if_splits option.splits)
  moreover have "b' = b \<or> (\<exists>src q. l4_ipv4_proto41 fuel E S src b = Some (Inr (q, b')))"
    using assms unfolding l3_ipv4_bpf_def Let_def by (clarsimp split: if_splits) fastforce+
  ultimately show ?thesis by auto
qed

lemma l2_ethtype_bpf_length:
  assumes "bd_inv s" and "ipv4_env_ok E S" and "i < length (b_ints (bd_conf s))"
    and "l2_ethtype_bpf fuel E S i p len t s = Some (Inr s')"
  shows "length (b_ints (bd_conf s)) \<le> length (b_ints (bd_conf s'))"
proof (cases "t = ucast ETH_P_IP")
  case True
  with assms(4) obtain inner b1 where b1: "l3_ipv4_bpf fuel E S (b_buffer (bd_conf s)) p (ucast len) (bd_conf s) = Some (Inr (inner, b1))"
    and r: "case inner of None \<Rightarrow> s' = s\<lparr>bd_conf := b1\<rparr>
      | Some (tun, p', n) \<Rightarrow> run_common E (l2_ethtype E tun p' (ucast n) (ucast ETH_P_IPV6)) (s\<lparr>bd_conf := b1\<rparr>) = Inr s'"
    by (auto simp: l2_ethtype_bpf_def split: if_splits option.splits)
  note inv = l3_ipv4_bpf_inv [OF assms(1,2) b1]
  show ?thesis
  proof (cases inner)
    case (Some x)
    then obtain tun p' n where x: "inner = Some (tun, p', n)" by (cases x) auto
    then have "run_common E (l2_ethtype E tun p' (ucast n) (ucast ETH_P_IPV6)) (s\<lparr>bd_conf := b1\<rparr>) = Inr s'"
      using r by simp
    from run_path_length [OF inv(1) _ this] inv(2) [OF x] l3_ipv4_bpf_length [OF b1] show ?thesis by simp
  qed (use r l3_ipv4_bpf_length [OF b1] in simp)
qed (use assms run_path_length in \<open>simp add: l2_ethtype_bpf_def\<close>)

lemma ofold_invariant:
  assumes "ofold f xs s = Some (Inr t)" and "P s" and "\<And>x s t. P s \<Longrightarrow> f x s = Some (Inr t) \<Longrightarrow> P t"
  shows "P t"
  using assms(1,2) by (induction xs arbitrary: s) (auto dest: assms(3))

lemma frames_inv:
  assumes "bd_inv s" and "ipv4_env_ok E S" and "i < length (b_ints (bd_conf s))"
    and "ofold (l2_eth_bpf fuel E S i) frames s = Some (Inr s')"
  shows "bd_inv s' \<and> i < length (b_ints (bd_conf s'))"
proof (rule ofold_invariant [OF assms(4), where P = "\<lambda>s. bd_inv s \<and> i < length (b_ints (bd_conf s))"])
  show "bd_inv s \<and> i < length (b_ints (bd_conf s))" using assms(1,3) by simp
  fix frame u v
  assume u: "bd_inv u \<and> i < length (b_ints (bd_conf u))" and "l2_eth_bpf fuel E S i frame u = Some (Inr v)"
  then obtain p n t where "l2_ethtype_bpf fuel E S i p n t u = Some (Inr v)"
    by (cases frame) (auto simp: l2_eth_bpf_def)
  with u assms(2) show "bd_inv v \<and> i < length (b_ints (bd_conf v))"
    by (auto dest: l2_ethtype_bpf_inv l2_ethtype_bpf_length)
qed

text \<open>The loop over the packets of a read only counts.\<close>

lemma bpf_loop_counts:
  "bpf_loop fuel caplen hdrlen align ep bp n = Some (n', fs) \<Longrightarrow>
     \<exists>p c. n' = n\<lparr>in_packets_received := p, in_bytes_received := c\<rparr>"
proof (induction fuel caplen hdrlen align ep bp n arbitrary: n' fs rule: bpf_loop.induct)
  case (2 fuel caplen hdrlen align ep bp n)
  show ?case
  proof (cases "bp < ep")
    case True
    let ?n = "n\<lparr>in_packets_received := in_packets_received n + 1, in_bytes_received := in_bytes_received n + ucast (caplen bp)\<rparr>"
    from 2(2) True obtain fs' where "bpf_loop fuel caplen hdrlen align ep
        (bp + align (unat (caplen bp + ucast (hdrlen bp)))) ?n = Some (n', fs')" by auto
    from 2(1) [OF True this] obtain p c where "n' = ?n\<lparr>in_packets_received := p, in_bytes_received := c\<rparr>" by blast
    then show ?thesis by (intro exI [of _ p] exI [of _ c]) simp
  next
    case False
    with 2(2) show ?thesis by (intro exI [of _ "in_packets_received n"] exI [of _ "in_bytes_received n"]) simp
  qed
qed simp

lemma read_device_inv:
  assumes "bd_inv s" and "ipv4_env_ok (be_env B) (be_sys B)" and "i < length (b_ints (bd_conf s))"
    and "read_device fuel B i data s = Some (Inr s')"
  shows "bd_inv s'"
proof -
  define n where "n = min (length data) (unat (bi_bufferlen (b_ints (bd_conf s) ! i)))"
  define buf where "buf = take n data @ drop n (b_buffer (bd_conf s))"
  obtain intn frames where r: "bpf_read fuel (be_caplen B buf) (be_hdrlen B buf) (be_align B) (b_ints (bd_conf s) ! i) = Some (intn, frames)"
    and o: "ofold (l2_eth_bpf fuel (be_env B) (be_sys B) i) frames
      (s\<lparr>bd_conf := (upd_bint i (\<lambda>_. intn) (bd_conf s))\<lparr>b_buffer := buf\<rparr>\<rparr>) = Some (Inr s')"
    using assms(4) unfolding read_device_def Let_def n_def [symmetric] buf_def [symmetric]
    by (auto split: option.splits)
  obtain p c where "intn = (b_ints (bd_conf s) ! i)\<lparr>in_packets_received := p, in_bytes_received := c\<rparr>"
    using bpf_loop_counts [OF r [unfolded bpf_read_def]] by blast
  then have u: "upd_bint i (\<lambda>_. intn) (bd_conf s) =
      upd_bint i (\<lambda>n. n\<lparr>in_packets_received := p, in_bytes_received := c\<rparr>) (bd_conf s)"
    by (simp add: upd_bint_def)
  have ok: "bpf_ok (bd_conf s)" "bints_ok (bd_conf s)" "groups_ok (groups (bd_rest s))"
    using assms(1) by (simp_all add: bd_inv_def)
  have ok1: "bpf_ok (upd_bint i (\<lambda>_. intn) (bd_conf s))" unfolding u by (rule bpf_ok_upd [OF ok(1)]) simp_all
  have ok2: "bints_ok (upd_bint i (\<lambda>_. intn) (bd_conf s))" unfolding u by (rule bints_ok_upd [OF ok(2)]) simp
  have "bi_bufferlen (b_ints (bd_conf s) ! i) \<le> b_bufferlen (bd_conf s)"
    using ok(1) assms(3) by (simp add: bpf_ok_def list_all_length)
  then have "length buf = unat (b_bufferlen (bd_conf s))"
    using ok(1) by (simp add: buf_def n_def bpf_ok_def word_le_nat_alt)
  with ok1 ok2 ok(3) have "bd_inv (s\<lparr>bd_conf := (upd_bint i (\<lambda>_. intn) (bd_conf s))\<lparr>b_buffer := buf\<rparr>\<rparr>)"
    by (simp add: bd_inv_def bpf_ok_def)
  from frames_inv [OF this assms(2) _ o] assms(3) show ?thesis by simp
qed

lemma handle_ready_inv:
  assumes "bd_inv s" and "ipv4_env_ok (be_env B) (be_sys B)" and "handle_ready rounds fuel B ready i s = Some (Inr (ok, s'))"
  shows "bd_inv s'"
  using assms(1,3)
proof (induction rounds arbitrary: i s)
  case (Suc rounds)
  show ?case
  proof (cases "i < length (b_ints (bd_conf s))")
    case True
    have n: "unat (b_maxinterfaces (bd_conf s)) = length (b_ints (bd_conf s))"
      using Suc.prems(1) by (simp add: bd_inv_def bpf_ok_def)
    from Suc True n consider "s' = s" | "handle_ready rounds fuel B ready (Suc i) s = Some (Inr (ok, s'))"
      | data s1 where "read_device fuel B i data s = Some (Inr s1)" "handle_ready rounds fuel B ready (Suc i) s1 = Some (Inr (ok, s'))"
      by (auto simp: Let_def split: if_splits option.splits)
    then show ?thesis
    proof cases
      case 1 with Suc.prems(1) show ?thesis by simp
    next
      case 2 then show ?thesis by (rule Suc.IH [OF Suc.prems(1)])
    next
      case (3 data s1)
      show ?thesis by (rule Suc.IH [OF read_device_inv [OF Suc.prems(1) assms(2) True 3(1)] 3(2)])
    qed
  next
    case False
    with Suc.prems show ?thesis by (simp add: bd_inv_def bpf_ok_def)
  qed
qed simp

lemma handleinterfaces_bpf_inv:
  assumes "bd_inv s" and "ipv4_env_ok (be_env B) (be_sys B)" and "handleinterfaces_bpf rounds fuel B s = Some (Inr (ok, s'))"
  shows "bd_inv s'"
  using assms handle_ready_inv [OF assms(1,2)]
  by (auto simp: handleinterfaces_bpf_def split: sel_res.splits list.splits)

lemma timeout_bpf_inv:
  assumes "bd_inv s" and "ipv4_env_ok (be_env B) (be_sys B)" and "timeout_bpf fuel B s = Some (Inr s')"
  shows "bd_inv s'"
proof -
  let ?E = "be_env B" and ?g = "\<lambda>w. w\<lparr>groups := cl_loop2 (timeout_group (gettimes w)) (groups w)\<rparr>"
  obtain b1 where b1: "update_interfaces_bpf fuel ?E (be_sys B) (bd_conf s) = Some (Inr b1)"
    and r: "run_common ?E (\<lambda>w. send_mld_querys ?E (?g w)) (s\<lparr>bd_conf := b1\<rparr>) = Inr s'"
    using assms(3) by (auto simp: timeout_bpf_def)
  note inv = update_interfaces_bpf_inv [OF assms(1,2) b1]
  show ?thesis
  proof (rule run_common_inv [OF inv r])
    fix w
    let ?c = "common (s\<lparr>bd_conf := b1\<rparr>)"
    assume "send_mld_querys ?E (?g ?c) = Inr w"
    then have q: "sends (?g ?c) w" by (rule send_mld_querys_sends)
    have "tables_ok (?g ?c)"
      using common_tables [OF inv] by (auto simp: tables_ok_def intro: timeout_groups_ok ints_ok_frame)
    then have "tables_ok w" by (rule inv_sends [OF q])
    moreover have "kept ?c (?g ?c)" by (simp add: kept_def)
    ultimately show "tables_ok w \<and> passed ?c w" using kept_sends [OF q] by (blast intro: kept_trans passed_kept)
  qed
qed

lemma bd_inv_cong:
  "bd_inv s \<Longrightarrow> groups w = groups (bd_rest s) \<Longrightarrow> bd_inv (s\<lparr>bd_rest := w\<rparr>)"
  "bd_inv s \<Longrightarrow> bd_inv (s\<lparr>bd_conf := (bd_conf s)\<lparr>b_now := t\<rparr>\<rparr>)"
  "bd_inv s \<Longrightarrow> bd_inv (s\<lparr>bd_conf := (bd_conf s)\<lparr>b_tunnelmode := v\<rparr>\<rparr>)"
  by (simp_all add: bd_inv_def bpf_ok_def)

lemma main_round_bpf_inv:
  assumes "bd_inv s" and "ipv4_env_ok (be_env B) (be_sys B)" and "main_round_bpf rounds fuel B (s, q) = Some (Inr (s', q'))"
  shows "bd_inv s'"
proof (cases "quit (bd_rest s) \<or> q")
  case False
  with assms(3) obtain s1 ok where s1: "run_timeout_bpf fuel B s = Some (Inr s1)"
    and h: "handleinterfaces_bpf rounds fuel B s1 = Some (Inr (ok, s'))"
    by (auto simp: main_round_bpf_def)
  have "bd_inv s1"
    using s1 assms(1) timeout_bpf_inv [OF assms(1,2)] by (auto simp: run_timeout_bpf_def intro: bd_inv_cong split: if_splits)
  then show ?thesis by (rule handleinterfaces_bpf_inv [OF _ assms(2) h])
qed (use assms in \<open>auto simp: main_round_bpf_def\<close>)

lemma daemon_step_bpf_inv:
  assumes "bd_inv s" and "ipv4_env_ok (be_env (fst e)) (be_sys (fst e))"
    and "daemon_step_bpf rounds fuel e (s, q) = Some (Inr (s', q'))"
  shows "bd_inv s'"
proof -
  obtain B ev where e: "e = (B, ev)" by fastforce
  show ?thesis
  proof (cases ev)
    case BSigUsr2
    with assms(3) e have "run_common (be_env B) (sigusr2 (be_env B)) s = Inr s'" by auto
    then show ?thesis by (rule run_common_sends [OF assms(1)]) (rule sigusr2_sends)
  next
    case BRound
    with assms e show ?thesis by (auto intro: main_round_bpf_inv)
  qed (use assms e in \<open>auto simp: cleanpid_def timeout_signal_def intro: bd_inv_cong\<close>)
qed

section \<open>The first state\<close>

text \<open>Before the discovery there are no interfaces, no descriptors and no groups.\<close>

definition fresh :: "bpf_state \<Rightarrow> bool" where
  "fresh s \<longleftrightarrow> b_ints (bd_conf s) = [] \<and> b_maxinterfaces (bd_conf s) = 0 \<and> b_selectset (bd_conf s) = [] \<and>
     b_locals (bd_conf s) = cl_new \<and> b_bufferlen (bd_conf s) = 32 * 1024 \<and> groups (bd_rest s) = cl_new"

lemma init_bpf_fresh:
  assumes "init_bpf now cs = Inr s"
  shows "fresh s" and "cs = [] \<Longrightarrow> b_calloc (bd_conf s) = []"
proof -
  from assms obtain b1 b2 b3 where "b_alloc (bpf_blank now cs) = (True, b1)"
    "b_alloc (b1\<lparr>b_bufferlen := 32 * 1024, b_selectset := [], b_tunnelmode := True\<rparr>) = (True, b2)"
    and b3: "b_alloc (b2\<lparr>b_locals := cl_new, b_maxinterfaces := 0, b_promisc := True\<rparr>) = (True, b3)"
    and s: "s = \<lparr>bd_conf = b3, bd_rest = (blank now [])\<lparr>maxgroups := 42, daemonize := True,
       groups := cl_new, stat_starttime := b_now b3\<rparr>, bd_frames = []\<rparr>"
    unfolding init_bpf_def by (auto split: prod.splits bool.splits)
  then obtain c1 c2 c3 where "b1 = (bpf_blank now cs)\<lparr>b_calloc := c1\<rparr>"
    "b2 = b1\<lparr>b_bufferlen := 32 * 1024, b_selectset := [], b_tunnelmode := True, b_calloc := c2\<rparr>"
    "b3 = b2\<lparr>b_locals := cl_new, b_maxinterfaces := 0, b_promisc := True, b_calloc := c3\<rparr>"
    by (blast dest: b_alloc_fields)
  with s show "fresh s" by (simp add: fresh_def bpf_blank_def)
  show "b_calloc (bd_conf s) = []" if "cs = []"
    using assms that by (simp add: init_bpf_def b_alloc_def bpf_blank_def) (auto simp: bpf_blank_def)
qed

lemma handle_option_bpf_fresh:
  assumes "fresh s" and "handle_option_bpf getpwnam opt (s, ids) = Inr (s', ids')"
  shows "fresh s'" and "b_calloc (bd_conf s') = b_calloc (bd_conf s)"
proof -
  have "fresh s' \<and> b_calloc (bd_conf s') = b_calloc (bd_conf s)"
  proof (cases opt)
    case (BOpt o1)
    with assms(2) obtain w where w: "handle_option getpwnam o1 (common s, ids) = Inr (w, ids')"
      and s': "s' = s\<lparr>bd_conf := put_common w (bd_conf s), bd_rest := w\<rparr>"
      by (auto simp: handle_option_bpf_def split: sum.splits)
    from handle_option_step [OF w] assms(1) show ?thesis by (simp add: s' fresh_def opt_keeps_def)
  qed (use assms in \<open>auto simp: handle_option_bpf_def fresh_def\<close>)
  then show "fresh s'" "b_calloc (bd_conf s') = b_calloc (bd_conf s)" by simp_all
qed

lemma handle_options_bpf_fresh:
  assumes "fresh s" and "handle_options_bpf getpwnam opts (s, ids) = Inr (s', ids')"
  shows "fresh s' \<and> b_calloc (bd_conf s') = b_calloc (bd_conf s)"
  using assms
proof (induction opts arbitrary: s ids)
  case (Cons opt opts)
  then obtain s1 ids1 where o: "handle_option_bpf getpwnam opt (s, ids) = Inr (s1, ids1)"
    and r: "handle_options_bpf getpwnam opts (s1, ids1) = Inr (s', ids')" by (auto split: sum.splits)
  note f = handle_option_bpf_fresh [OF Cons.prems(1) o]
  from Cons.IH [OF f(1) r] f(2) show ?case by simp
qed simp

lemma fresh_buffer:
  assumes "fresh s" and "b_alloc (bd_conf s) = (True, b1)"
  shows "bd_inv (s\<lparr>bd_conf := b1\<lparr>b_buffer := replicate (unat (b_bufferlen b1)) 0\<rparr>\<rparr>)"
proof -
  obtain cs where "b1 = (bd_conf s)\<lparr>b_calloc := cs\<rparr>" using b_alloc_fields [OF assms(2)] by blast
  with assms(1) show ?thesis
    by (simp add: fresh_def bd_inv_def bpf_ok_def bints_ok_def groups_ok_def cl_exact_ops)
qed

lemma main_boot_bpf_inv:
  assumes "ipv4_env_ok E S" and "main_boot_bpf fuel E S getpwnam opts dumpfile now cs = Some (Inr (s, q))"
  shows "bd_inv s" and "\<not> q"
proof -
  from assms(2) obtain s0 where i: "init_bpf now cs = Inr s0"
    by (auto simp: main_boot_bpf_def obind_def split: option.splits sum.splits)
  with assms(2) obtain s1 ids where o: "handle_options_bpf getpwnam opts (s0, (0, 0)) = Inr (s1, ids)"
    by (auto simp: main_boot_bpf_def split: sum.splits)
  with assms(2) i have m: "main_start_bpf fuel E S dumpfile s1 = Some (Inr s)" and q: "\<not> q"
    by (auto simp: main_boot_bpf_def)
  have f: "fresh s1" using handle_options_bpf_fresh [OF init_bpf_fresh(1) [OF i] o] by simp
  from m obtain b1 b2 where b1: "b_alloc (bd_conf s1) = (True, b1)"
    and b2: "update_interfaces_bpf fuel E S (b1\<lparr>b_buffer := replicate (unat (b_bufferlen b1)) 0\<rparr>) = Some (Inr b2)"
    and r: "run_common E (send_mld_querys E) (s1\<lparr>bd_conf := b2\<rparr>) = Inr s"
    by (auto simp: main_start_bpf_def split: if_splits prod.splits bool.splits)
  have "bd_inv (s1\<lparr>bd_conf := b2\<rparr>)"
    using update_interfaces_bpf_inv [OF fresh_buffer [OF f b1] assms(1), of fuel b2] b2 by simp
  then show "bd_inv s" by (rule run_common_sends [OF _ r]) (rule send_mld_querys_sends)
  show "\<not> q" by (rule q)
qed

end
