(* ===== verification/Bpf_Ends.thy ===== *)
theory Bpf_Ends
  imports Bpf_Daemon
begin

text \<open>
  The BPF build does not hang. Three of its loops take fuel: the search for a free device, the loop over
  the packets of a read, and the loop over the interfaces, whose number can grow meanwhile. Each ends,
  and so does every step of the process.
\<close>

section \<open>Discovery\<close>

lemma obind_None: "obind m f = None \<longleftrightarrow> m = None \<or> (\<exists>x. m = Some (Inr x) \<and> f x = None)"
  by (auto simp: obind_def split: option.splits sum.splits)

lemma int_create_bpf_returns:
  assumes "devices_free fuel S" and "sys_ok S"
  shows "int_create_bpf fuel (S k) i tunnel b \<noteq> None"
proof -
  obtain d where "d < fuel" "bs_open (S k) (of_nat d) \<noteq> Busy" using assms(1) by (auto simp: devices_free_def)
  with int_create_bpf_ends [of "S k" d fuel i tunnel b] assms(2) show ?thesis by (auto simp: sys_ok_def)
qed

lemma int_create_b_ends:
  assumes "devices_free fuel S" and "sys_ok S"
  shows "int_create_b fuel E S k tunnel b \<noteq> None"
  by (simp add: int_create_b_def int_setup_bpf_def Let_def obind_None int_create_bpf_returns [OF assms]
      split_beta del: not_None_eq split: option.split)

lemma update_any_bpf_ends:
  assumes "devices_free fuel S" and "sys_ok S"
  shows "update_any_bpf fuel E S ptp sa k b \<noteq> None"
  by (simp add: update_any_bpf_def obind_None int_create_b_ends [OF assms] split_beta del: not_None_eq split: option.split)

lemma update_interfaces_bpf_ends:
  assumes "devices_free fuel S" and "sys_ok S"
  shows "update_interfaces_bpf fuel E S b \<noteq> None"
proof -
  have "update_loop_bpf fuel E S ifas u \<noteq> None" for ifas u
    by (induction ifas arbitrary: u)
      (simp_all add: obind_None update_any_bpf_ends [OF assms] del: not_None_eq split: option.split)
  then show ?thesis by (simp add: update_interfaces_bpf_def Let_def del: not_None_eq split: option.split)
qed

section \<open>Packets\<close>

lemma l3_ipv4_bpf_ends:
  assumes "devices_free fuel S" and "sys_ok S"
  shows "l3_ipv4_bpf fuel E S buf iph len b \<noteq> None"
proof -
  have "l4_ipv4_proto41 fuel E S src b \<noteq> None" for src
    by (simp add: l4_ipv4_proto41_def obind_None update_interfaces_bpf_ends [OF assms] del: not_None_eq split: option.split)
  then show ?thesis
    by (simp add: l3_ipv4_bpf_def Let_def obind_None split_beta del: not_None_eq)
qed

lemma l2_eth_bpf_ends:
  assumes "devices_free fuel S" and "sys_ok S"
  shows "l2_eth_bpf fuel E S i frame s \<noteq> None"
  by (simp add: l2_eth_bpf_def l2_ethtype_bpf_def obind_None l3_ipv4_bpf_ends [OF assms] split_beta
      del: not_None_eq split: option.split)

lemma ofold_ends: "(\<And>x s. f x s \<noteq> None) \<Longrightarrow> ofold f xs s \<noteq> None"
  by (induction xs arbitrary: s) (simp_all add: obind_None del: not_None_eq)

text \<open>What \<open>struct bpf_hdr\<close> promises: rounding goes up, and lengths do not reach the end of 32 bits.\<close>

definition headers_ok :: "bpf_env \<Rightarrow> bool" where
  "headers_ok B \<longleftrightarrow> (\<forall>n. n \<le> be_align B n) \<and> (\<forall>buf. unat (be_caplen B buf 0) + unat (be_hdrlen B buf 0) < 2 ^ 32)"

lemma read_device_ends:
  assumes "devices_free fuel (be_sys B)" and "sys_ok (be_sys B)" and "headers_ok B" and "2 \<le> fuel"
  shows "read_device fuel B i data s \<noteq> None"
proof -
  have "bpf_read fuel (be_caplen B buf) (be_hdrlen B buf) (be_align B) n \<noteq> None" for buf n
    using bpf_read_once [of "be_align B" "be_caplen B buf" "be_hdrlen B buf" fuel n] assms(3,4)
    by (simp add: headers_ok_def)
  moreover have "ofold (l2_eth_bpf fuel (be_env B) (be_sys B) i) frames u \<noteq> None" for frames u
    by (rule ofold_ends) (rule l2_eth_bpf_ends [OF assms(1,2)])
  ultimately show ?thesis by (simp add: read_device_def Let_def split_beta del: not_None_eq split: option.split)
qed

section \<open>The process\<close>

text \<open>There are at most \<open>2 ^ 32\<close> interfaces, however many appear during the loop.\<close>

lemma handle_ready_ends:
  assumes "bd_inv s" and "ipv4_env_ok (be_env B) (be_sys B)" and "devices_free fuel (be_sys B)" and "headers_ok B"
    and "2 \<le> fuel" and "i \<le> 2 ^ 32" and "2 ^ 32 < i + rounds"
  shows "handle_ready rounds fuel B ready i s \<noteq> None"
  using assms(1,6,7)
proof (induction rounds arbitrary: i s)
  case (Suc rounds)
  have n: "unat (b_maxinterfaces (bd_conf s)) = length (b_ints (bd_conf s))" "length (b_ints (bd_conf s)) \<le> 2 ^ 32"
    using Suc.prems(1) by (simp_all add: bd_inv_def bpf_ok_def bints_ok_def)
  show ?case
  proof (cases "i < length (b_ints (bd_conf s))")
    case True
    with n(2) Suc.prems(3) have i: "Suc i \<le> 2 ^ 32" "2 ^ 32 < Suc i + rounds" by simp_all
    have sys: "sys_ok (be_sys B)" using assms(2) by (simp add: ipv4_env_ok_def)
    have "handle_ready rounds fuel B ready (Suc i) s1 \<noteq> None" if "read_device fuel B i data s = Some (Inr s1)" for data s1
      by (rule Suc.IH [OF read_device_inv [OF Suc.prems(1) assms(2) True that] i])
    moreover have "handle_ready rounds fuel B ready (Suc i) s \<noteq> None" by (rule Suc.IH [OF Suc.prems(1) i])
    ultimately show ?thesis
      by (simp add: Let_def obind_None read_device_ends [OF assms(3) sys assms(4,5)] del: not_None_eq split: option.split)
  next
    case False
    with n(1) show ?thesis by simp
  qed
qed simp

lemma timeout_bpf_ends:
  assumes "devices_free fuel (be_sys B)" and "sys_ok (be_sys B)"
  shows "timeout_bpf fuel B s \<noteq> None"
  by (simp add: timeout_bpf_def obind_None update_interfaces_bpf_ends [OF assms] del: not_None_eq)

end
