(* ===== verification/Report_Fits.thy ===== *)
theory Report_Fits
  imports Daemon
begin

text \<open>
  When a report that reaches the daemon cannot make it fault outside the MLDv1-only mode. A new group
  is reported on the other interfaces, in MLDv2 by \<open>mld2_send_report\<close>, which has limits of its own:
  the subscriptions must not name sources, and the records of one group must fit one packet. The
  conditions are stated on the membership table, so that entering a group for the interface of the
  report keeps them.
\<close>

section \<open>The conditions\<close>

definition any_source_table :: "mtable \<Rightarrow> bool" where
  "any_source_table m \<longleftrightarrow> (\<forall>g k a s. m g k a = Some s \<longrightarrow> sb_mode s = MODE_EXCLUDE \<or> a = in6addr_any)"

text \<open>The interfaces that asked for a group from any source.\<close>

definition askers :: "mtable \<Rightarrow> in6_addr \<Rightarrow> u64 set" where
  "askers m g = {k. m g k in6addr_any \<noteq> None}"

text \<open>The records of any group fit a packet of any interface in use, with one more interface in it.\<close>

definition reports_fit :: "u64 \<Rightarrow> world \<Rightarrow> bool" where
  "reports_fit k w \<longleftrightarrow> any_source_table (membership w) \<and>
     (\<forall>n \<in> set (ints w). in_mtu n \<noteq> 0 \<longrightarrow> unat (in_mtu n) < 65536 \<and>
        (\<forall>g. 56 + 20 * card (insert k (askers (membership w) g)) \<le> unat (in_mtu n)))"

text \<open>A daemon that can take a report from interface \<open>k\<close>.\<close>

definition hears :: "u64 \<Rightarrow> world \<Rightarrow> bool" where
  "hears k w \<longleftrightarrow> tables_ok w \<and> w_calloc w = [] \<and> (mld1only w \<or> reports_fit k w)"

text \<open>The modes and the interfaces' MTUs are those of the other state, or an interface fell out of use.\<close>

definition mtus_kept :: "world \<Rightarrow> world \<Rightarrow> bool" where
  "mtus_kept w w' \<longleftrightarrow> mld1only w' = mld1only w \<and> length (ints w') = length (ints w) \<and>
     (\<forall>i < length (ints w). in_mtu (ints w' ! i) = in_mtu (ints w ! i) \<or> in_mtu (ints w' ! i) = 0)"

lemma mtus_kept_refl [simp]: "mtus_kept w w"
  by (simp add: mtus_kept_def)

lemma mtus_kept_trans: "mtus_kept u v \<Longrightarrow> mtus_kept v w \<Longrightarrow> mtus_kept u w"
  by (simp add: mtus_kept_def) metis

lemma mtus_kept_sends: "sends w w' \<Longrightarrow> mtus_kept w w'"
  using int_sends_fields(9) [OF sends_nth] by (simp add: mtus_kept_def sends_fields)

lemma mtus_kept_groups: "same_but_groups w w' \<Longrightarrow> mtus_kept w w'"
  by (simp add: mtus_kept_def same_but_groups_fields)

lemma mtus_kept_version: "i < length (ints w) \<Longrightarrow> mtus_kept w (int_set_mld_version i v w)"
  by (auto simp: mtus_kept_def int_set_mld_version_eq upd_int_def nth_list_update Let_def case_prod_beta)

lemma any_source_report:
  "any_source_table m \<Longrightarrow> any_source_table (mem_report g k in6addr_any mode t m)"
  by (simp add: any_source_table_def mem_report_def)

lemma askers_report:
  "insert k (askers (mem_report g k in6addr_any mode t m) h) = insert k (askers m h)"
  by (auto simp: askers_def mem_report_def split: if_splits)

lemma reports_fit_kept:
  assumes "reports_fit k w" and "mtus_kept w w'"
    and "membership w' = membership w \<or> membership w' = mem_report g k in6addr_any mode t (membership w)"
  shows "reports_fit k w'"
proof -
  have same: "any_source_table (membership w')" "insert k (askers (membership w') h) = insert k (askers (membership w) h)" for h
    using assms(1,3) by (elim disjE; simp add: reports_fit_def any_source_report askers_report)+
  have "\<exists>n \<in> set (ints w). in_mtu n = in_mtu n'" if "n' \<in> set (ints w')" "in_mtu n' \<noteq> 0" for n'
  proof -
    from that(1) obtain j where j: "j < length (ints w')" "n' = ints w' ! j" by (auto simp: in_set_conv_nth)
    with that(2) assms(2) have "j < length (ints w)" "in_mtu (ints w ! j) = in_mtu n'"
      by (auto simp: mtus_kept_def)
    then show ?thesis by (metis nth_mem)
  qed
  with assms(1) same show ?thesis unfolding reports_fit_def by metis
qed

lemma hears_kept:
  assumes "hears k w" and "tables_ok w'" and "w_calloc w' = []" and "mtus_kept w w'"
    and "membership w' = membership w \<or> membership w' = mem_report g k in6addr_any mode t (membership w)"
  shows "hears k w'"
  using assms(1-3) reports_fit_kept [OF _ assms(4,5)] assms(4) by (auto simp: hears_def mtus_kept_def)

lemma hears_sends: "sends w w' \<Longrightarrow> hears k w \<Longrightarrow> hears k w'"
  by (rule hears_kept [of k w]) (auto simp: hears_def inv_sends sends_fields sends_membership mtus_kept_sends)

section \<open>The records of a group\<close>

lemma membership_node:
  assumes "groups_ok (groups w)" and "g \<in> set (nodes (groups w))" and "gi \<in> set (nodes (gr_interfaces g))"
  shows "membership w (gr_mca g) (gi_ifindex gi) a = subscr_find (gi_subscriptions gi) a"
proof -
  have "distinct (map gr_mca (nodes (groups w)))" "distinct (map gi_ifindex (nodes (gr_interfaces g)))"
    using assms by (auto simp: groups_ok_def group_ok_def grpints_ok_def)
  from grps.tfind_in [OF this(1) assms(2)] gints.tfind_in [OF this(2) assms(3)] show ?thesis
    by (simp add: membership_def grpint_of_def)
qed

lemma subs_in:
  assumes "groups_ok (groups w)" and "g \<in> set (nodes (groups w))" and "gi \<in> set (nodes (gr_interfaces g))"
  shows "distinct (map sb_ipv6 (nodes (gi_subscriptions gi)))"
    and "s \<in> set (nodes (gi_subscriptions gi)) \<Longrightarrow> subscr_find (gi_subscriptions gi) (sb_ipv6 s) = Some s"
proof -
  show d: "distinct (map sb_ipv6 (nodes (gi_subscriptions gi)))"
    using assms by (auto simp: groups_ok_def group_ok_def grpints_ok_def grpint_ok_def subs_ok_def)
  show "s \<in> set (nodes (gi_subscriptions gi)) \<Longrightarrow> subscr_find (gi_subscriptions gi) (sb_ipv6 s) = Some s"
    by (rule subs.tfind_in [OF d])
qed

lemma any_source_nodes:
  assumes "groups_ok (groups w)" and "any_source_table (membership w)"
  shows "any_source (nodes (groups w))"
  unfolding any_source_def
proof (intro ballI conjI)
  fix g assume g: "g \<in> set (nodes (groups w))"
  with assms(1) show "addr_wf (gr_mca g)" "cl_exact (gr_interfaces g)"
    by (auto simp: groups_ok_def group_ok_def grpints_ok_def)
  fix gi s
  assume gi: "gi \<in> set (nodes (gr_interfaces g))" and s: "s \<in> set (nodes (gi_subscriptions gi))"
  have "membership w (gr_mca g) (gi_ifindex gi) (sb_ipv6 s) = Some s"
    using membership_node [OF assms(1) g gi] subs_in(2) [OF assms(1) g gi s] by simp
  with assms(2) show "sb_mode s = MODE_EXCLUDE \<or> sb_ipv6 s = in6addr_any" by (simp add: any_source_table_def)
qed

lemma length_sub_recs:
  assumes "distinct (map sb_ipv6 ss)" and "\<forall>s \<in> set ss. sb_mode s = MODE_EXCLUDE \<or> sb_ipv6 s = a"
  shows "length (concat (map (sub_recs mca) ss)) \<le> (if a \<in> sb_ipv6 ` set ss then 1 else 0)"
  using assms
proof (induction ss)
  case (Cons s ss)
  define n where "n = length (concat (map (sub_recs mca) ss))"
  have "n \<le> (if a \<in> sb_ipv6 ` set ss then 1 else 0)" using Cons by (simp add: n_def)
  moreover have "a \<notin> sb_ipv6 ` set ss" if "sb_ipv6 s = a" using Cons.prems(1) that by auto
  moreover have "length (sub_recs mca s) \<le> (if sb_ipv6 s = a then 1 else 0)"
    using Cons.prems(2) by (auto simp: sub_recs_def)
  moreover define l where "l = length (concat (map (sub_recs mca) (s # ss)))"
  then have "l = length (sub_recs mca s) + n" by (simp add: n_def)
  ultimately have "l \<le> (if a \<in> sb_ipv6 ` set (s # ss) then 1 else 0)" by (cases "sb_ipv6 s = a") simp_all
  then show ?case unfolding l_def .
qed simp

lemma length_gi_recs:
  assumes "\<forall>gi \<in> set gis. distinct (map sb_ipv6 (nodes (gi_subscriptions gi))) \<and>
      (\<forall>s \<in> set (nodes (gi_subscriptions gi)). sb_mode s = MODE_EXCLUDE \<or> sb_ipv6 s = in6addr_any)"
  shows "length (concat (map (gi_recs k mca) gis)) \<le>
    length (filter (\<lambda>gi. subscr_find (gi_subscriptions gi) in6addr_any \<noteq> None) gis)"
  using assms
proof (induction gis)
  case (Cons gi gis)
  have "length (gi_recs k mca gi) \<le> (if subscr_find (gi_subscriptions gi) in6addr_any \<noteq> None then 1 else 0)"
    using Cons.prems length_sub_recs [of "nodes (gi_subscriptions gi)" in6addr_any mca]
    by (auto simp: gi_recs_def subs.tfind_None split: if_splits)
  with Cons show ?case by (auto split: if_splits)
qed simp

lemma report_recs_other:
  assumes "mca \<notin> gr_mca ` set gs"
  shows "report_recs k (Some mca) gs = []"
  using assms by (induction gs) (auto simp: report_recs_def group_recs_def)

lemma report_recs_one:
  assumes "distinct (map gr_mca gs)" and "g \<in> set gs"
  shows "report_recs k (Some (gr_mca g)) gs = group_recs k (Some (gr_mca g)) g"
  using assms
proof (induction gs)
  case (Cons x gs)
  show ?case
  proof (cases "x = g")
    case True
    with Cons.prems report_recs_other [of "gr_mca g" gs k] show ?thesis by (simp add: report_recs_def)
  next
    case False
    with Cons have "gr_mca x \<noteq> gr_mca g" "report_recs k (Some (gr_mca g)) gs = group_recs k (Some (gr_mca g)) g"
      by force+
    then show ?thesis by (simp add: report_recs_def group_recs_def)
  qed
qed simp

lemma finite_askers:
  assumes "groups_ok (groups w)"
  shows "finite (askers (membership w) g)"
proof (cases "group_find (groups w) g")
  case (Some gr)
  then have "askers (membership w) g \<subseteq> gi_ifindex ` set (nodes (gr_interfaces gr))"
    by (auto simp: askers_def membership_def grpint_of_def dest!: gints.tfind_SomeD split: option.splits)
  then show ?thesis by (rule finite_subset) simp
qed (simp add: askers_def membership_def grpint_of_def)

lemma length_report_recs:
  assumes "groups_ok (groups w)" and "any_source_table (membership w)"
  shows "length (report_recs k (Some mca) (nodes (groups w))) \<le> card (askers (membership w) mca)"
proof (cases "mca \<in> gr_mca ` set (nodes (groups w))")
  case False
  then show ?thesis by (simp add: report_recs_other)
next
  case True
  then obtain g where g: "g \<in> set (nodes (groups w))" and mca: "mca = gr_mca g" by blast
  let ?P = "\<lambda>gi. subscr_find (gi_subscriptions gi) in6addr_any \<noteq> None"
  let ?gis = "filter ?P (nodes (gr_interfaces g))"
  have d: "distinct (map gr_mca (nodes (groups w)))" "distinct (map gi_ifindex (nodes (gr_interfaces g)))"
    using g assms(1) by (auto simp: groups_ok_def group_ok_def grpints_ok_def)
  have any: "\<forall>s \<in> set (nodes (gi_subscriptions gi)). sb_mode s = MODE_EXCLUDE \<or> sb_ipv6 s = in6addr_any"
    if "gi \<in> set (nodes (gr_interfaces g))" for gi
    using any_source_nodes [OF assms] g that by (simp add: any_source_def)
  have "length (report_recs k (Some mca) (nodes (groups w))) \<le> length ?gis"
    using length_gi_recs [of "nodes (gr_interfaces g)" k mca] subs_in(1) [OF assms(1) g] any
    by (simp add: mca report_recs_one [OF d(1) g] group_recs_def)
  also have "\<dots> = card (gi_ifindex ` set ?gis)"
    using distinct_card [OF distinct_map_filter [OF d(2)], of ?P] by simp
  also have "\<dots> \<le> card (askers (membership w) mca)"
    using membership_node [OF assms(1) g] by (intro card_mono finite_askers [OF assms(1)]) (auto simp: askers_def mca)
  finally show ?thesis .
qed

section \<open>The senders\<close>

lemma in_use:
  assumes "tables_ok w" and "i < length (ints w)"
  shows "addr_wf (in_linklocal (ints w ! i))" and "in_mtu (ints w ! i) \<noteq> 0 \<Longrightarrow> 1280 \<le> unat (in_mtu (ints w ! i))"
  using assms int_ok_nth [of w i] by (auto simp: tables_ok_def int_ok_def word_le_nat_alt)

lemma either_Inr: "if c then x = Inr a else \<exists>w. x = Inr w \<and> P w \<Longrightarrow> \<exists>w. x = Inr w"
  by (auto split: if_splits)

lemma mld2_send_report_fits:
  assumes "tables_ok w" and "w_calloc w = []" and "reports_fit k w" and "i < length (ints w)"
    and "in_mtu (ints w ! i) \<noteq> 0"
  shows "\<exists>w'. mld2_send_report E i (Some mca) w = Inr w'"
proof -
  let ?recs = "report_recs (in_ifindex (ints w ! i)) (Some mca) (nodes (groups w))"
  have gs: "groups_ok (groups w)" and any: "any_source_table (membership w)"
    using assms(1,3) by (simp_all add: tables_ok_def reports_fit_def)
  have mtu: "unat (in_mtu (ints w ! i)) < 65536"
    "56 + 20 * card (insert k (askers (membership w) mca)) \<le> unat (in_mtu (ints w ! i))"
    using assms(3-5) by (simp_all add: reports_fit_def)
  have "length ?recs \<le> card (insert k (askers (membership w) mca))"
    by (rule order_trans [OF length_report_recs [OF gs any] card_insert_le])
  moreover have "\<forall>a \<in> set ?recs. addr_wf a"
    using gs by (auto simp: report_recs_def group_recs_def gi_recs_def sub_recs_def groups_ok_def group_ok_def
        split: if_splits)
  ultimately have fit: "fits (unat (in_mtu (ints w ! i))) ?recs" using mtu(2) by (simp add: fits_def)
  have le: "unat (in_mtu (ints w ! i)) \<le> 65535" using mtu(1) by simp
  have "if ?recs = [] then mld2_send_report E i (Some mca) w = Inr w
      else \<exists>w'. mld2_send_report E i (Some mca) w = Inr w' \<and> sent_one w i all_routers
        (mld_packet (in_linklocal (ints w ! i)) all_routers ICMP6_V2_MEMBERSHIP_REPORT (report_msg ?recs)) w'"
    by (rule mld2_send_report_content [OF in_use(1) [OF assms(1,4)] any_source_nodes [OF gs any]
        in_use(2) [OF assms(1,4,5)] le refl fit calloc_Nil [OF assms(2)]])
  then show ?thesis by (rule either_Inr)
qed

lemma mld_send_report_hears:
  assumes "hears k w" and "i < length (ints w)" and "in_mtu (ints w ! i) \<noteq> 0" and "addr_wf mca"
  shows "\<exists>w'. mld_send_report E i mca w = Inr w'"
proof -
  have ok: "tables_ok w" "w_calloc w = []" using assms(1) by (simp_all add: hears_def)
  obtain w1 where m1: "mld1_send_report E i mca w = Inr w1"
    using mld1_send_report_spec [OF in_use(1) [OF ok(1) assms(2)] assms(4)] by blast
  note s = mld1_send_report_sends [OF m1]
  have m2: "\<exists>v. mld2_send_report E i (Some mca) u = Inr v" if "sends w u" "\<not> mld1only u" for u
  proof (cases "in_mtu (ints u ! i) = 0")
    case True
    then show ?thesis by (simp add: mld2_send_report_def sizeof_report_packet_def)
  next
    case False
    have "hears k u" by (rule hears_sends [OF that(1) assms(1)])
    with that False assms(2) show ?thesis
      by (intro mld2_send_report_fits [of u k]) (auto simp: hears_def sends_fields)
  qed
  have "sends w w" by (rule sends_refl)
  from m1 m2 [OF s] m2 [OF this] show ?thesis by (simp add: mld_send_report_def Let_def)
qed

lemma mld_send_report_all_hears:
  assumes "hears k w" and "addr_wf mca"
  shows "\<exists>w'. mld_send_report_all E i mca w = Inr w'"
proof -
  let ?skip = "\<lambda>j u. in_mtu (ints u ! j) = 0 \<or> in_ifindex (ints u ! i) = in_ifindex (ints u ! j)"
  have "\<exists>w'. foldM (\<lambda>j u. if ?skip j u then Inr u else mld_send_report E j mca u) [0..<unat (maxinterfaces w)] w = Inr w' \<and>
      sends w w'"
  proof (rule reports.loop_total [OF sends_refl])
    fix j u
    assume j: "j \<in> set [0..<unat (maxinterfaces w)]" and s: "sends w u" and ns: "\<not> ?skip j u"
    have "unat (maxinterfaces w) = length (ints w)" using assms(1) by (simp add: hears_def tables_ok_def ints_ok_def)
    then have "j < length (ints u)" using j sends_fields(11) [OF s] by simp
    then show "\<exists>v. mld_send_report E j mca u = Inr v"
      using ns by (intro mld_send_report_hears [OF hears_sends [OF s assms(1)] _ _ assms(2)]) simp_all
  qed
  then show ?thesis unfolding mld_send_report_all_def by (elim exE conjE) (rule exI)
qed

section \<open>The handlers\<close>

lemma hears_version:
  assumes "hears k w" and "i < length (ints w)" and "v \<in> {1, 2}"
  shows "hears k (int_set_mld_version i v w)"
  by (rule hears_kept [OF assms(1) _ _ mtus_kept_version [OF assms(2)]])
    (use assms in \<open>auto simp: hears_def inv_set_version\<close>)

lemma mld1_report_hears:
  assumes "hears (in_ifindex (ints w ! i)) w" and "i < length (ints w)" and "m + 24 \<le> length (buffer w)"
  shows "\<exists>w'. l4_ipv6_icmpv6_mld1_report E i m w = Inr w'"
proof (rule mld1_report_runs)
  fix mca u
  assume u: "group_addr mca" "tables_ok u" "w_calloc u = []" "same_but_groups (int_set_mld_version i 1 w) u"
    "membership u = mem_report mca (in_ifindex (ints w ! i)) in6addr_any MODE_INCLUDE (w_now w) (membership w)"
  have "mtus_kept w u" by (rule mtus_kept_trans [OF mtus_kept_version [OF assms(2)] mtus_kept_groups [OF u(4)]])
  from hears_kept [OF assms(1) u(2,3) this] u(1,5) show "\<exists>w'. mld_send_report_all E i mca u = Inr w'"
    by (intro mld_send_report_all_hears [of "in_ifindex (ints w ! i)"]) (auto simp: group_addr_def)
qed (use assms in \<open>simp_all add: hears_def\<close>)

end
