(* ===== verification/Roundtrip.thy ===== *)
theory Roundtrip
  imports Report_Fits
begin

text \<open>
  What the daemon sends, the daemon understands: a report that one instance writes on the wire
  takes, in the buffer of another, the whole way down to the membership table and enters there
  what it says.
\<close>

section \<open>An MLD packet in the receive buffer\<close>

definition mld_type :: "u8 \<Rightarrow> bool" where
  "mld_type t \<longleftrightarrow> icmpv6_interesting t \<and> t \<noteq> ICMP6_ECHO_REQUEST"

definition count_icmp_received :: "nat \<Rightarrow> world \<Rightarrow> world" where
  "count_icmp_received i w = upd_int i (\<lambda>n. n\<lparr>in_icmp_received := in_icmp_received n + 1\<rparr>)
     (w\<lparr>stat_icmp_received := stat_icmp_received w + 1\<rparr>)"

lemma count_icmp_received_simps [simp]:
  "buffer (count_icmp_received i w) = buffer w" "w_calloc (count_icmp_received i w) = w_calloc w"
  "w_now (count_icmp_received i w) = w_now w" "membership (count_icmp_received i w) = membership w"
  "length (ints (count_icmp_received i w)) = length (ints w)"
  "i < length (ints w) \<Longrightarrow> in_ifindex (ints (count_icmp_received i w) ! j) = in_ifindex (ints w ! j)"
  by (auto simp: count_icmp_received_def upd_int_def nth_list_update membership_def grpint_of_def fun_eq_iff)

lemma skip_headers_behind:
  assumes "length pre = n" and "skip_headers b stop ipe t plen = Inr (Some (t', ipe', plen'))"
  shows "skip_headers (pre @ b) (n + stop) (n + ipe) t plen = Inr (Some (t', n + ipe', plen'))"
  using assms(2)
proof (induction b stop ipe t plen rule: skip_headers.induct)
  case (1 b stop ipe t plen)
  note shift = rd_behind [OF assms(1)]
  show ?case
  proof (cases "ext_header t")
    case False
    with 1(2) have "t = t' \<and> ipe = ipe' \<and> plen = plen'" by (simp add: skip_headers.simps [of b stop ipe t])
    with False show ?thesis by (subst skip_headers.simps) simp
  next
    case True
    with 1(2) obtain nxt l8 where b: "rd8 b ipe = Inr nxt" "rd8 b (ipe + 1) = Inr l8"
      and stop: "\<not> ipe + (unat l8 * 8 + 8) > stop"
      and rest: "skip_headers b stop (ipe + (unat l8 * 8 + 8)) nxt (plen - of_nat (unat l8 * 8 + 8)) = Inr (Some (t', ipe', plen'))"
      unfolding skip_headers.simps [of b stop ipe t] by (auto simp: Let_def split: if_splits)
    have "rd8 (pre @ b) (n + ipe) = Inr nxt" "rd8 (pre @ b) (n + ipe + 1) = Inr l8"
      using b shift(2) [of b ipe] shift(2) [of b "ipe + 1"] by (simp_all add: add.assoc)
    moreover have "n + ipe + (unat l8 * 8 + 8) = n + (ipe + (unat l8 * 8 + 8))" by simp
    ultimately show ?thesis
      using "1.IH" [OF _ b refl stop rest] True stop
      unfolding skip_headers.simps [of "pre @ b" "n + stop" "n + ipe" t] by (simp add: Let_def add.assoc)
  qed
qed

text \<open>The fields of the packet, with anything behind it.\<close>

lemma mld_packet_image:
  "mld_packet src dst t rest @ Z = ip6_hdr (of_nat (length rest + 12)) IPPROTO_HOPOPTS 1 src dst @
     hbh_routeralert @ ([t, 0] @ le16_bytes (ipv6_checksum src dst IPPROTO_ICMPV6 ([t, 0] @ [0, 0] @ rest)) @ rest) @ Z"
  by (simp add: mld_packet_def)

lemma mld_packet_rechecksum:
  assumes "addr_wf src" and "addr_wf dst" and "unat plen = length rest + 4" and "length pre = n"
    and "buffer w = pre @ mld_packet src dst t rest @ Z"
  shows "icmpv6_rechecksum n (n + 48) plen w = Inr w"
proof -
  define H where "H = ip6_hdr (of_nat (length rest + 12)) IPPROTO_HOPOPTS 1 src dst @ hbh_routeralert @ [t, 0]"
  define c where "c = ipv6_checksum src dst IPPROTO_ICMPV6 ([t, 0] @ [0, 0] @ rest)"
  have b: "buffer w = (pre @ H) @ le16_bytes c @ rest @ Z" using assms(5) by (simp add: mld_packet_image H_def c_def)
  have H: "length (pre @ H) = n + 48 + 2" using assms(1,2,4) by (simp add: H_def)
  have "rd16 (buffer w) (n + 48 + 2) = Inr c" unfolding b by (rule rd16_mid_le16 [OF H])
  moreover have "wr16 (buffer w) (n + 48 + 2) 0 = Inr ((pre @ H) @ le16_bytes 0 @ rest @ Z)" unfolding b by (rule wr16_mid_le16 [OF H])
  moreover have "ipv6_checksum_at ((pre @ H) @ le16_bytes 0 @ rest @ Z) n IPPROTO_ICMPV6 (n + 48) plen = Inr c"
    using checksum_prefix [OF assms(1,2), of hbh_routeralert plen "[t, 0] @ [0, 0] @ rest"] assms(3)
      rd_behind(1) [OF assms(4)] rd_behind(1) [OF assms(4), of _ 48]
    by (simp add: H_def c_def ipv6_checksum_at_def)
  moreover have "wr16 ((pre @ H) @ le16_bytes 0 @ rest @ Z) (n + 48 + 2) c = Inr (buffer w)" unfolding b by (rule wr16_mid_le16 [OF H])
  ultimately show ?thesis by (simp only: icmpv6_rechecksum_def rbind_simps) simp
qed

lemma mld_packet_fields:
  assumes "addr_wf src" and "addr_wf dst" and "length rest + 12 < 65536" and "b = mld_packet src dst t rest @ Z"
  shows "rd b 8 16 = Inr src" "rd b 24 16 = Inr dst" "rd8 b 6 = Inr IPPROTO_HOPOPTS"
    "rd16 b 4 = Inr (htons (of_nat (length rest + 12)))" "b ! 40 = IPPROTO_ICMPV6" "b ! 41 = 0" "b ! 48 = t"
    "52 + length rest \<le> length b"
proof -
  define P :: u16 where "P = of_nat (length rest + 12)"
  define Y where "Y = hbh_routeralert @ ([t, 0] @ le16_bytes (ipv6_checksum src dst IPPROTO_ICMPV6 ([t, 0] @ [0, 0] @ rest)) @ rest) @ Z"
  have b: "b = ip6_hdr P IPPROTO_HOPOPTS 1 src dst @ Y" unfolding assms(4) mld_packet_image P_def Y_def ..
  have "length Y = 12 + length rest + length Z" by (simp add: Y_def)
  then have len: "52 + length rest \<le> length b" using assms(1,2) by (simp add: b)
  then show "52 + length rest \<le> length b" .
  note f = ip6_hdr_fields [OF assms(1,2), where plen = P and nxt = IPPROTO_HOPOPTS and hlim = 1 and y = Y, folded b]
  show "rd b 8 16 = Inr src" "rd b 24 16 = Inr dst" using len f(5,6) by (simp_all add: rd_Inr)
  show "rd8 b 6 = Inr IPPROTO_HOPOPTS" using len f(3) by (simp add: rd8_Inr)
  have "htons P = le16 (b ! 4) (b ! 5)" using f(2) htons_htons by metis
  moreover have "rd16 b 4 = Inr (le16 (b ! 4) (b ! 5))" using len by (intro rd16_at) simp_all
  ultimately show "rd16 b 4 = Inr (htons (of_nat (length rest + 12)))" by (simp add: P_def)
  show "b ! 40 = IPPROTO_ICMPV6" "b ! 41 = 0" "b ! 48 = t"
    using f(9) [of 0] f(9) [of 1] f(9) [of 8] by (simp_all add: Y_def hbh_routeralert_def)
qed

lemma unat_of_nat16: "n < 65536 \<Longrightarrow> unat (of_nat n :: u16) = n"
  by (simp only: unsigned_of_nat) (simp add: take_bit_nat_eq_self)

text \<open>Such a packet reaches its handler, with nothing else changed than the counters.\<close>

lemma mld_packet_reaches:
  assumes "addr_wf src" and "addr_wf dst" and "length rest + 52 < 65536"
    and "length pre = n" and "buffer w = pre @ mld_packet src dst t rest @ Z"
    and "IN6_IS_ADDR_MULTICAST dst" and "IN6_IS_ADDR_LINKLOCAL src" and "mld_type t"
    and "src \<noteq> in_linklocal (ints w ! i)" and "src \<noteq> in_global (ints w ! i)"
    and "len = of_nat (52 + length rest)" and "plen = of_nat (length rest + 4)"
  shows "l3_ipv6 E i n len w = icmpv6_mld E i n (n + 48) plen t (count_icmp_received i w)"
proof -
  define b where "b = mld_packet src dst t rest @ Z"
  have buf: "buffer w = pre @ b" using assms(5) by (simp add: b_def)
  have small: "length rest + 12 < 65536" using assms(3) by simp
  note f = mld_packet_fields [OF assms(1,2) small b_def]
  note shift = rd_behind [OF assms(4), of b]
  have l: "unat len = 52 + length rest" "unat plen = length rest + 4"
    unfolding assms(11,12) using assms(3) by (simp_all only: unat_of_nat16)
  have "skip_headers b (unat len) 40 IPPROTO_HOPOPTS (of_nat (length rest + 12)) =
      skip_headers b (unat len) 48 IPPROTO_ICMPV6 (of_nat (length rest + 12) - 8)"
    using l f by (subst skip_headers.simps) (simp add: ext_header_def rd8_Inr)
  also have "\<dots> = Inr (Some (IPPROTO_ICMPV6, 48, plen))"
    using assms(12) by (subst skip_headers.simps) (simp add: ext_header_def layout)
  finally have skip: "skip_headers (pre @ b) (n + unat len) (n + 40) IPPROTO_HOPOPTS (of_nat (length rest + 12)) =
      Inr (Some (IPPROTO_ICMPV6, n + 48, plen))" by (rule skip_headers_behind [OF assms(4)])
  have "l3_ipv6 E i n len w = l4_ipv6_icmpv6 E i n len (n + 48) plen w"
    using assms(6,9,10) f skip shift by (simp add: l3_ipv6_def sizeof_ip6_hdr_def buf)
  also have "\<dots> = icmpv6_mld E i n (n + 48) plen t (count_icmp_received i w)"
    using mld_packet_rechecksum [OF assms(1,2) l(2) assms(4), of "count_icmp_received i w"] assms(5,8) f shift(2) [of 48]
    by (simp add: l4_ipv6_icmpv6_def count_icmp_received_def [symmetric] Let_def mld_type_def rd8_Inr buf)
  finally show ?thesis .
qed

lemma icmpv6_mld_linklocal:
  assumes "rd (buffer w) (iph + 8) 16 = Inr src" and "IN6_IS_ADDR_LINKLOCAL src"
  shows "icmpv6_mld E i iph m plen ICMP6_MEMBERSHIP_REPORT w = l4_ipv6_icmpv6_mld1_report E i m w"
    and "icmpv6_mld E i iph m plen ICMP6_V2_MEMBERSHIP_REPORT w = l4_ipv6_icmpv6_mld2_report E i m plen w"
  using assms by (simp_all add: icmpv6_mld_def layout)

lemma hears_count:
  assumes "hears k w"
  shows "hears k (count_icmp_received i w)"
proof -
  have "path_ok w (count_icmp_received i w)"
    using path_ok_counters(1) [of w i "in_icmp_received (ints w ! i) + 1"]
    by (simp add: count_icmp_received_def upd_int_def)
  then have ok: "tables_ok (count_icmp_received i w)" using assms by (auto simp: path_ok_def hears_def)
  have kept: "mtus_kept w (count_icmp_received i w)"
    by (cases "i < length (ints w)") (auto simp: mtus_kept_def count_icmp_received_def upd_int_def nth_list_update)
  show ?thesis by (rule hears_kept [OF assms ok _ kept]) (use assms in \<open>simp_all add: hears_def\<close>)
qed

section \<open>MLDv1\<close>

lemma mld1_roundtrip:
  assumes "w_calloc w = []" and "i < length (ints w)" and "addr_wf src" and "addr_wf mca" and "length pre = n"
    and "buffer w = pre @ mld_packet src mca ICMP6_MEMBERSHIP_REPORT (le16_bytes 0 @ [0, 0] @ mca) @ Z"
    and "\<not> mld1_ignored mca" and "IN6_IS_ADDR_LINKLOCAL src"
    and "src \<noteq> in_linklocal (ints w ! i)" and "src \<noteq> in_global (ints w ! i)"
  shows "l3_ipv6 E i n 72 w = Inr w' \<Longrightarrow>
      membership w' = mem_report mca (in_ifindex (ints w ! i)) in6addr_any MODE_INCLUDE (w_now w) (membership w)"
    and "hears (in_ifindex (ints w ! i)) w \<Longrightarrow> \<exists>w'. l3_ipv6 E i n 72 w = Inr w'"
proof -
  define rest where "rest = le16_bytes 0 @ [0, 0] @ mca"
  define w0 where "w0 = count_icmp_received i w"
  define b where "b = mld_packet src mca ICMP6_MEMBERSHIP_REPORT rest @ Z"
  have rest: "length rest = 20" using assms(4) by (simp add: rest_def)
  have mc: "IN6_IS_ADDR_MULTICAST mca" using assms(7) by (simp add: mld1_ignored_def)
  have small: "length rest + 12 < 65536" by (simp add: rest)
  have buf: "buffer w0 = pre @ b" using assms(6) by (simp add: w0_def rest_def b_def)
  note shift = rd_behind [OF assms(5), of b]
  note f = mld_packet_fields [OF assms(3,4) small b_def]
  have "l3_ipv6 E i n 72 w = icmpv6_mld E i n (n + 48) 24 ICMP6_MEMBERSHIP_REPORT w0"
    unfolding w0_def
    by (rule mld_packet_reaches [OF assms(3,4) _ assms(5) assms(6) [folded rest_def] mc assms(8) _ assms(9,10)])
      (simp_all add: rest mld_type_def icmpv6_interesting_def layout)
  also have "\<dots> = l4_ipv6_icmpv6_mld1_report E i (n + 48) w0"
    using f(1) shift(1) [of 8] assms(8) by (intro icmpv6_mld_linklocal) (simp_all add: buf)
  finally have run: "l3_ipv6 E i n 72 w = l4_ipv6_icmpv6_mld1_report E i (n + 48) w0" .
  have len: "72 \<le> length b" using f(8) rest by simp
  have "drop 52 b = rest @ Z"
    using mld_packet_ok(2,4) [OF assms(3,4) small, of ICMP6_MEMBERSHIP_REPORT] by (simp add: b_def)
  then have "drop 4 (drop 52 b) = mca @ Z" by (simp add: rest_def)
  then have "rd b 56 16 = Inr mca" using len assms(4) by (simp add: rd_Inr)
  then have rd: "rd (buffer w0) (n + 48 + 8) 16 = Inr mca" using shift(1) [of 56 16] by (simp add: buf add.assoc)
  have w0: "w_calloc w0 = []" "i < length (ints w0)" "in_ifindex (ints w0 ! i) = in_ifindex (ints w ! i)"
    using assms(1,2) by (simp_all add: w0_def)
  show "membership w' = mem_report mca (in_ifindex (ints w ! i)) in6addr_any MODE_INCLUDE (w_now w) (membership w)"
    if "l3_ipv6 E i n 72 w = Inr w'"
    using mld1_report_membership [OF w0(1,2) rd assms(7) that [unfolded run]] w0(3) by (simp add: w0_def)
  show "\<exists>w'. l3_ipv6 E i n 72 w = Inr w'" if "hears (in_ifindex (ints w ! i)) w"
    unfolding run using hears_count [OF that, of i, folded w0_def] w0 assms(5) len buf
    by (intro mld1_report_hears) simp_all
qed

section \<open>MLDv2\<close>

lemma grec_bytes_nth: "(grec_bytes a @ Y) ! 0 = MLD2_MODE_IS_EXCLUDE" "(grec_bytes a @ Y) ! 1 = 0"
    "(grec_bytes a @ Y) ! 2 = 0" "(grec_bytes a @ Y) ! 3 = 0"
    "addr_wf a \<Longrightarrow> take 16 (drop 4 (grec_bytes a @ Y)) = a" "addr_wf a \<Longrightarrow> drop 20 (grec_bytes a @ Y) = Y"
  by (simp_all add: grec_bytes_def numeral_eq_Suc addr_wf_def)

lemma grecs_at_report:
  assumes "\<forall>a \<in> set recs. addr_wf a" and "drop g b = concat (map grec_bytes recs) @ Z"
    and "g + 20 * length recs \<le> stop"
  shows "grecs_at b stop (length recs) g = map (\<lambda>a. (MLD2_MODE_IS_EXCLUDE, a, [])) recs"
  using assms
proof (induction recs arbitrary: g)
  case (Cons a recs)
  define Y where "Y = concat (map grec_bytes recs) @ Z"
  have d: "drop g b = grec_bytes a @ Y" using Cons.prems(2) by (simp add: Y_def)
  have a: "addr_wf a" using Cons.prems(1) by simp
  have "length (grec_bytes a @ Y) \<ge> 20" using a by simp
  then have g: "g \<le> length b" using d by (metis drop_all length_0_conv list.size(3) nat_le_linear not_numeral_le_zero)
  have nth: "b ! (g + k) = (grec_bytes a @ Y) ! k" for k using g nth_drop [of g b k] by (simp add: d)
  have fields: "b ! g = MLD2_MODE_IS_EXCLUDE" "b ! (g + 1) = 0" "b ! (g + 2) = 0" "b ! (g + 3) = 0"
    using nth [of 0] nth [of 1] nth [of 2] nth [of 3] by (simp_all only: grec_bytes_nth add_0_right)
  have addr: "take 16 (drop (g + 4) b) = a"
    using grec_bytes_nth(5) [OF a, of Y] by (simp add: d [symmetric] add.commute)
  have "drop (g + 20) b = Y" using grec_bytes_nth(6) [OF a, of Y] by (simp add: d [symmetric] add.commute)
  then have ih: "grecs_at b stop (length recs) (g + 20) = map (\<lambda>a. (MLD2_MODE_IS_EXCLUDE, a, [])) recs"
    using Cons.prems by (intro Cons.IH) (simp_all add: Y_def)
  have zero: "ntohs (le16 0 0) = 0" by (simp add: le16_def htons_def)
  have known: "grec_type_known MLD2_MODE_IS_EXCLUDE" by (simp add: grec_type_known_def)
  show ?case
    unfolding list.size grecs_at.simps Let_def plus_1_eq_Suc [symmetric] add.commute [of "length recs"]
    using Cons.prems(3) by (simp add: fields [simplified] addr ih zero known)
qed simp

lemma grec_effect_exclude:
  assumes "group_addr a"
  shows "grec_effect k now (MLD2_MODE_IS_EXCLUDE, a, []) = mem_report a k in6addr_any MODE_INCLUDE now"
  using assms by (auto simp: grec_effect_def group_addr_def grec_excludes_def fun_eq_iff)

lemma fold_grec_effect:
  assumes "\<forall>a \<in> set recs. group_addr a"
  shows "fold (grec_effect k now) (map (\<lambda>a. (MLD2_MODE_IS_EXCLUDE, a, [])) recs) m =
    fold (\<lambda>a. mem_report a k in6addr_any MODE_INCLUDE now) recs m"
  using assms by (induction recs arbitrary: m) (simp_all add: grec_effect_exclude)

text \<open>A report of groups without sources runs through on a daemon that can take it.\<close>

lemma mld2_grec_hears:
  assumes "hears k w" and "k = in_ifindex (ints w ! i)" and "i < length (ints w)" and "group_addr a"
  obtains p isnew' w1 w2 w3 where "mld2_grec_group i a isnew w = Inr (p, isnew', w1)"
    and "mld2_grec_subscribe m plen g MLD2_MODE_IS_EXCLUDE 0 p w1 = Inr (False, w2)"
    and "(if isnew' then mld_send_report_all E i a w2 else Inr w2) = Inr w3"
    and "hears k w3" and "keeps i w w3"
proof -
  have ok: "tables_ok w" "w_calloc w = []" using assms(1) by (simp_all add: hears_def)
  obtain isnew' w1 where g: "groupint_get a (ints w ! i) w = Inr (Some (Linked a k), isnew', w1)"
    using groupint_get_mem [OF ok(2)] assms(2) by blast
  note l = get_linked [OF ok(2) g]
  have ok1: "tables_ok w1" by (rule groupint_get_inv(1) [OF ok(1) assms(4) g])
  obtain r p' w2 where r: "grpint_refresh_at (Linked a k) in6addr_any MODE_INCLUDE w1 = Inr (r, p', w2)"
    using grpint_refresh_at_valid [OF groupint_get_valid [OF g], of in6addr_any MODE_INCLUDE] by auto
  note f = refresh_linked [OF l(3) r]
  have same: "same_but_groups w w2" by (rule same_but_groups_trans [OF l(4) f(5)])
  have ok2: "tables_ok w2" by (rule refresh_inv(1) [OF ok1 _ _ r]) simp_all
  have "membership w2 = mem_report a k in6addr_any MODE_INCLUDE (w_now w1) (membership w)" using f(1) l(2) by simp
  then have h2: "hears k w2" by (intro hears_kept [OF assms(1) ok2 f(4) mtus_kept_groups [OF same]] disjI2)
  have "addr_wf a" using assms(4) by (simp add: group_addr_def)
  from mld_send_report_all_hears [OF h2 this] obtain w3 where
    w3: "(if isnew' then mld_send_report_all E i a w2 else Inr w2) = Inr w3" by (cases isnew') auto
  then have s: "sends w2 w3" by (auto dest: mld_send_report_all_sends split: if_splits)
  have i2: "i < length (ints w2)" using assms(3) by (simp add: same_but_groups_fields [OF same])
  show thesis
  proof (rule that [OF _ _ w3 hears_sends [OF s h2]])
    show "mld2_grec_group i a isnew w = Inr (Some (Linked a k), isnew', w1)"
      using g assms(4) by (simp add: mld2_grec_group_def group_addr_def)
    show "mld2_grec_subscribe m plen g MLD2_MODE_IS_EXCLUDE 0 (Some (Linked a k)) w1 = Inr (False, w2)"
      using r f(2) by (simp add: mld2_grec_subscribe_def grec_excludes_def)
    show "keeps i w w3" by (rule keeps_trans [OF keeps_groups [OF same ok(2)] keeps_sends [OF s f(4) i2]])
  qed
qed

lemma mld2_grecs_hears:
  assumes "hears k w" and "k = in_ifindex (ints w ! i)" and "i < length (ints w)" and "\<forall>a \<in> set recs. group_addr a"
    and "drop g (buffer w) = concat (map grec_bytes recs) @ Z" and "g + 20 * length recs \<le> m + plen"
  shows "\<exists>w'. mld2_grecs E i m plen (length recs) g isnew w = Inr w'"
  using assms
proof (induction recs arbitrary: g isnew w)
  case (Cons a recs)
  define Y where "Y = concat (map grec_bytes recs) @ Z"
  have a: "group_addr a" "addr_wf a" using Cons.prems(4) by (simp_all add: group_addr_def)
  have d: "drop g (buffer w) = grec_bytes a @ Y" using Cons.prems(5) by (simp add: Y_def)
  have len: "g + 20 \<le> length (buffer w)" using arg_cong [OF d, of length] a(2) by simp
  have nth: "buffer w ! (g + j) = (grec_bytes a @ Y) ! j" for j using len nth_drop [of g "buffer w" j] by (simp add: d)
  have fields: "buffer w ! g = MLD2_MODE_IS_EXCLUDE" "buffer w ! (g + 1) = 0" "buffer w ! (g + 2) = 0" "buffer w ! (g + 3) = 0"
    using nth [of 0] nth [of 1] nth [of 2] nth [of 3] by (simp_all only: grec_bytes_nth add_0_right)
  have rds: "rd8 (buffer w) g = Inr MLD2_MODE_IS_EXCLUDE" "rd8 (buffer w) (g + 1) = Inr 0"
    "rd (buffer w) (g + 4) 16 = Inr a"
    using len fields grec_bytes_nth(5) [OF a(2), of Y] by (simp_all add: rd8_Inr rd_Inr d [symmetric] add.commute)
  have n: "rd16 (buffer w) (g + 2) = Inr (le16 0 0)" using rd16_at [of "g + 3" "buffer w" "g + 2"] len fields by simp
  have zero: "unat (ntohs (le16 0 0)) = 0" by (simp add: le16_def htons_def)
  have known: "grec_type_known MLD2_MODE_IS_EXCLUDE" by (simp add: grec_type_known_def)
  obtain p isnew' w1 w2 w3 where gg: "mld2_grec_group i a isnew w = Inr (p, isnew', w1)"
    and gs: "mld2_grec_subscribe m plen g MLD2_MODE_IS_EXCLUDE 0 p w1 = Inr (False, w2)"
    and gr: "(if isnew' then mld_send_report_all E i a w2 else Inr w2) = Inr w3" and h: "hears k w3" and kp: "keeps i w w3"
    using mld2_grec_hears [OF Cons.prems(1-3) a(1)] by blast
  have b3: "buffer w3 = buffer w" "i < length (ints w3)" "k = in_ifindex (ints w3 ! i)"
    using kp Cons.prems(2,3) by (simp_all add: keeps_def)
  have "drop (g + 20) (buffer w3) = Y" using grec_bytes_nth(6) [OF a(2), of Y] by (simp add: b3 d [symmetric] add.commute)
  then obtain w' where "mld2_grecs E i m plen (length recs) (g + 20) isnew' w3 = Inr w'"
    using Cons.IH [OF h b3(3,2), of "g + 20" isnew'] Cons.prems(4,6) by (auto simp: Y_def)
  then show ?case
    using Cons.prems(6) rds n gg gs gr b3(1) known zero by (simp add: sizes)
qed simp

lemma mld2_roundtrip:
  assumes "w_calloc w = []" and "i < length (ints w)" and "addr_wf src" and "\<forall>a \<in> set recs. group_addr a"
    and "56 + 20 * length recs < 65536"
    and "buffer w = mld_packet src all_routers ICMP6_V2_MEMBERSHIP_REPORT (report_msg recs) @ Z"
    and "IN6_IS_ADDR_LINKLOCAL src" and "src \<noteq> in_linklocal (ints w ! i)" and "src \<noteq> in_global (ints w ! i)"
  shows "l3_ipv6 E i 0 (of_nat (56 + 20 * length recs)) w = Inr w' \<Longrightarrow>
      membership w' = fold (\<lambda>a. mem_report a (in_ifindex (ints w ! i)) in6addr_any MODE_INCLUDE (w_now w)) recs (membership w)"
    and "hears (in_ifindex (ints w ! i)) w \<Longrightarrow> \<exists>w'. l3_ipv6 E i 0 (of_nat (56 + 20 * length recs)) w = Inr w'"
proof -
  define rest where "rest = report_msg recs"
  define n where "n = length recs"
  define plen :: u16 where "plen = of_nat (length rest + 4)"
  define w0 where "w0 = count_icmp_received i w"
  have wf: "\<forall>a \<in> set recs. addr_wf a" using assms(4) by (simp add: group_addr_def)
  have rest: "length rest = 4 + 20 * n" using wf by (simp add: rest_def report_msg_def n_def)
  have small: "length rest + 12 < 65536" "length rest + 52 < 65536" using assms(5) by (simp_all add: rest n_def)
  have plen: "unat plen = 8 + 20 * n" unfolding plen_def using small rest by (subst unat_of_nat16) simp_all
  have buf: "buffer w0 = mld_packet src all_routers ICMP6_V2_MEMBERSHIP_REPORT rest @ Z"
    using assms(6) by (simp add: w0_def rest_def)
  have "IN6_IS_ADDR_MULTICAST all_routers" by (simp add: IN6_IS_ADDR_MULTICAST_def all_routers_def)
  then have "l3_ipv6 E i 0 (of_nat (56 + 20 * n)) w = icmpv6_mld E i 0 48 plen ICMP6_V2_MEMBERSHIP_REPORT w0"
    unfolding w0_def plen_def
    using mld_packet_reaches [OF assms(3) addr_wf_all_routers small(2), of "[]" 0 w ICMP6_V2_MEMBERSHIP_REPORT Z i] assms(6-9)
    by (simp add: rest rest_def [symmetric] mld_type_def icmpv6_interesting_def layout)
  also have "\<dots> = l4_ipv6_icmpv6_mld2_report E i 48 plen w0"
    using mld_packet_fields(1) [OF assms(3) addr_wf_all_routers small(1) buf] assms(7)
    by (intro icmpv6_mld_linklocal) simp_all
  finally have run: "l3_ipv6 E i 0 (of_nat (56 + 20 * n)) w = l4_ipv6_icmpv6_mld2_report E i 48 plen w0" .
  have len: "length (buffer w0) = 56 + 20 * n + length Z"
    using mld_packet_ok(2) [OF assms(3) addr_wf_all_routers small(1), of ICMP6_V2_MEMBERSHIP_REPORT] rest by (simp add: buf)
  have d52: "drop 52 (buffer w0) = [0, 0] @ le16_bytes (htons (of_nat n)) @ concat (map grec_bytes recs) @ Z"
    using mld_packet_ok(2,4) [OF assms(3) addr_wf_all_routers small(1), of ICMP6_V2_MEMBERSHIP_REPORT]
    by (simp add: buf rest_def report_msg_def n_def)
  have d56: "drop 56 (buffer w0) = concat (map grec_bytes recs) @ Z"
    using arg_cong [OF d52, of "drop 4"] by (simp add: le16_bytes_def)
  have b: "buffer w0 ! 54 = le16_bytes (htons (of_nat n)) ! 0" "buffer w0 ! 55 = le16_bytes (htons (of_nat n)) ! 1"
    using arg_cong [OF d52, of "\<lambda>xs. xs ! 2"] arg_cong [OF d52, of "\<lambda>xs. xs ! 3"] len by (simp_all add: le16_bytes_def)
  have ngrec: "unat (ntohs (le16 (buffer w0 ! 54) (buffer w0 ! 55))) = n"
    unfolding b le16_le16_bytes htons_htons using assms(5) by (intro unat_of_nat16) (simp add: n_def)
  have recs: "grecs_at (buffer w0) (48 + unat plen) n 56 = map (\<lambda>a. (MLD2_MODE_IS_EXCLUDE, a, [])) recs"
    unfolding n_def by (rule grecs_at_report [OF wf d56]) (simp add: plen n_def)
  have w0: "w_calloc w0 = []" "i < length (ints w0)" "in_ifindex (ints w0 ! i) = in_ifindex (ints w ! i)"
    using assms(1,2) by (simp_all add: w0_def)
  show "membership w' = fold (\<lambda>a. mem_report a (in_ifindex (ints w ! i)) in6addr_any MODE_INCLUDE (w_now w)) recs (membership w)"
    if "l3_ipv6 E i 0 (of_nat (56 + 20 * length recs)) w = Inr w'"
  proof -
    have "membership w' = fold (grec_effect (in_ifindex (ints w0 ! i)) (w_now w0)) (grecs_at (buffer w0) (48 + unat plen) n 56) (membership w0)"
      using mld2_report_membership [OF w0(1,2) that [folded n_def, unfolded run]] by (simp add: Let_def ngrec plen)
    then show ?thesis using recs fold_grec_effect [OF assms(4)] w0(3) by (simp add: w0_def)
  qed
  define w1 where "w1 = int_set_mld_version i 2 w0"
  have w1: "i < length (ints w1)" "in_ifindex (ints w1 ! i) = in_ifindex (ints w ! i)" "buffer w1 = buffer w0"
    using w0 by (simp_all add: w1_def int_set_mld_version_eq upd_int_nth Let_def case_prod_beta)
  show "\<exists>w'. l3_ipv6 E i 0 (of_nat (56 + 20 * length recs)) w = Inr w'" if h: "hears (in_ifindex (ints w ! i)) w"
  proof -
    have "hears (in_ifindex (ints w ! i)) w1"
      unfolding w1_def by (rule hears_version [OF hears_count [OF h, of i, folded w0_def] w0(2)]) simp
    from mld2_grecs_hears [OF this w1(2) [symmetric] w1(1) assms(4) d56 [folded w1(3)], of 48 "unat plen" E False] plen
    have "\<exists>w'. mld2_grecs E i 48 (unat plen) n 56 False w1 = Inr w'" by (simp add: n_def)
    moreover have "rd16 (buffer w0) 54 = Inr (le16 (buffer w0 ! 54) (buffer w0 ! 55))" using len by (intro rd16_at) simp_all
    ultimately show ?thesis
      unfolding n_def [symmetric] run using ngrec plen by (simp add: l4_ipv6_icmpv6_mld2_report_def Let_def w1_def sizes)
  qed
qed

end
