(* ===== verification/Examples.thy ===== *)
theory Examples
  imports Roundtrip
begin

text \<open>
  Concrete states on which the properties are instantiated: a router with two interfaces, one
  group that the hosts behind the second interface listen to, and a packet for it in the
  receive buffer.
\<close>

definition ex_addr :: "u8 \<Rightarrow> u8 \<Rightarrow> u8 \<Rightarrow> in6_addr" where
  "ex_addr a b z = [a, b] @ replicate 13 0 @ [z]"

abbreviation ex_ll :: "u8 \<Rightarrow> in6_addr" where "ex_ll \<equiv> ex_addr 0xfe 0x80"
abbreviation ex_global :: "u8 \<Rightarrow> in6_addr" where "ex_global \<equiv> ex_addr 0x20 0x01"
abbreviation ex_group :: "u8 \<Rightarrow> in6_addr" where "ex_group \<equiv> ex_addr 0xff 0x0e"

definition ex_int :: "u64 \<Rightarrow> intnode" where
  "ex_int k = int_zero\<lparr>in_ifindex := k, in_name := ''eth'', in_mtu := 1500, in_hwaddr := 1,
     in_linklocal := ex_ll (ucast k), in_global := ex_global (ucast k)\<rparr>"

definition ex_sub :: subscrnode where
  "ex_sub = \<lparr>sb_ipv6 = in6addr_any, sb_mode = MODE_INCLUDE, sb_refreshtime = 700\<rparr>"

definition ex_gi :: grpintnode where
  "ex_gi = \<lparr>gi_ifindex = 2, gi_subscriptions = \<lparr>nodes = [ex_sub], count = 1\<rparr>\<rparr>"

definition ex_gr :: groupnode where
  "ex_gr = \<lparr>gr_mca = ex_group 1, gr_interfaces = \<lparr>nodes = [ex_gi], count = 1\<rparr>, gr_lastforward = 0,
     gr_bytes = 0, gr_packets = 0\<rparr>"

definition ex_env :: env where
  "ex_env = \<lparr>env_sendto = (\<lambda>_ _. Sent), env_socket = True, env_ifname = (\<lambda>k. Some ''eth''),
     env_ifmtu = (\<lambda>k. Some 1500), env_ifhwaddr = (\<lambda>k. Some 1), env_nametoindex = (\<lambda>_. 1),
     env_getifaddrs = Some [\<lparr>ifa_name = ''eth'', ifa_flags = 0x41, ifa_addr = Some (SA_INET6 (ex_ll 9))\<rparr>], env_behind = False\<rparr>"

text \<open>A datagram of two bytes for the group, and the state that has a given packet in its buffer.\<close>

definition ex_data :: bytes where
  "ex_data = ip6_hdr 2 17 64 (ex_global 7) (ex_group 1) @ [1, 2]"

definition ex_world :: "bytes \<Rightarrow> world" where
  "ex_world pkt = (blank 1000 [])\<lparr>ints := [int_zero, ex_int 1, ex_int 2], maxinterfaces := 3,
     groups := \<lparr>nodes = [ex_gr], count = 1\<rparr>, mld1only := True, bufferlen := 32768,
     buffer := pkt @ replicate 2000 0\<rparr>"

named_theorems ex \<open>the concrete states\<close>

lemmas [ex] = ex_addr_def ex_int_def ex_sub_def ex_gi_def ex_gr_def ex_env_def ex_data_def ex_world_def
  blank_def int_zero_def in6addr_any_def

lemma ex_world_fields [simp]:
  "ints (ex_world p) = [int_zero, ex_int 1, ex_int 2]" "maxinterfaces (ex_world p) = 3"
  "groups (ex_world p) = \<lparr>nodes = [ex_gr], count = 1\<rparr>" "mld1only (ex_world p)"
  "buffer (ex_world p) = p @ replicate 2000 0" "bufferlen (ex_world p) = 32768"
  "w_calloc (ex_world p) = []" "w_now (ex_world p) = 1000" "w_sent (ex_world p) = []"
  "mld2only (ex_world p) = False" "w_last_update (ex_world p) = 0"
  by (simp_all add: ex_world_def blank_def)

lemma ex_addr_wf [simp]: "addr_wf (ex_addr a b z)"
  by (simp add: addr_wf_def ex_addr_def)

lemma ex_int_ok: "int_ok 0 int_zero" "int_ok 1 (ex_int 1)" "int_ok 2 (ex_int 2)"
  by (simp_all add: int_ok_def int_zero_def ex_int_def layout)

lemma ex_ints_ok [simp]: "ints_ok (ex_world p)"
proof -
  have "int_ok i ([int_zero, ex_int 1, ex_int 2] ! i)" if "i < 3" for i
  proof -
    have "i = 0 \<or> i = 1 \<or> i = 2" using that by linarith
    with ex_int_ok show ?thesis by (elim disjE) simp_all
  qed
  then show ?thesis by (simp add: ints_ok_def)
qed

lemma ex_groups_ok [simp]: "groups_ok \<lparr>nodes = [ex_gr], count = 1\<rparr>"
  by (simp add: groups_ok_def group_ok_def grpints_ok_def grpint_ok_def subs_ok_def sub_ok_def cl_exact_def
      cl_marked_def ex_gr_def ex_gi_def ex_sub_def IN6_IS_ADDR_MC_NODELOCAL_def IN6_IS_ADDR_MC_LINKLOCAL_def
      IN6_IS_ADDR_MULTICAST_def ex_addr_def addr_wf_def in6addr_any_def)

lemma ex_tables_ok [simp]: "tables_ok (ex_world p)"
  by (simp add: tables_ok_def)

lemma ex_calm_mld1 [simp]: "calm_mld1 (ex_world p)"
  by (simp add: calm_mld1_def)

text \<open>The same daemon in the default mode. Its one subscription leaves room in every report.\<close>

definition ex_default :: "bytes \<Rightarrow> world" where
  "ex_default p = (ex_world p)\<lparr>mld1only := False\<rparr>"

lemma ex_default_fields [simp]:
  "ints (ex_default p) = [int_zero, ex_int 1, ex_int 2]" "groups (ex_default p) = \<lparr>nodes = [ex_gr], count = 1\<rparr>"
  "buffer (ex_default p) = p @ replicate 2000 0" "w_calloc (ex_default p) = []" "w_now (ex_default p) = 1000"
  "\<not> mld1only (ex_default p)" "\<not> mld2only (ex_default p)"
  by (simp_all add: ex_default_def)

lemma ex_default_ok [simp]: "tables_ok (ex_default p)"
  by (rule tables_ok_cong [OF ex_tables_ok [of p]]) (simp_all add: ex_default_def)

lemma ex_membership:
  "membership (ex_default p) g k a = (if g = ex_group 1 \<and> k = 2 \<and> a = in6addr_any then Some ex_sub else None)"
  by (auto simp: membership_def grpint_of_def group_find_def grpint_find_def subscr_find_def
      IN6_ARE_ADDR_EQUAL_def ex_gr_def ex_gi_def ex_sub_def)

lemma ex_fits: "reports_fit k (ex_default p)"
proof -
  have "askers (membership (ex_default p)) g \<subseteq> {2}" for g by (auto simp: askers_def ex_membership split: if_splits)
  then have "insert k (askers (membership (ex_default p)) g) \<subseteq> {k, 2}" for g by blast
  then have "card (insert k (askers (membership (ex_default p)) g)) \<le> card {k, 2}" for g by (intro card_mono) simp_all
  moreover have "card {k, 2} \<le> 2" by (simp add: card_insert_if)
  ultimately have c: "card (insert k (askers (membership (ex_default p)) g)) \<le> 2" for g using order_trans by blast
  have "any_source_table (membership (ex_default p))" by (simp add: any_source_table_def ex_membership)
  moreover have "56 + 20 * card (insert k (askers (membership (ex_default p)) g)) \<le> 1500" for g using c [of g] by simp
  ultimately show ?thesis by (auto simp: reports_fit_def ex_int_def int_zero_def)
qed

lemma ex_env_ok [simp]: "env_ok ex_env" "discovery_ok ex_env"
  by (simp_all add: env_ok_def discovery_ok_def ifa_ok_def ifa_copied_def ifa_overreads_def sa_ok_def ex_env_def)

end
