(* ===== verification/Table_Props.thy ===== *)
theory Table_Props
  imports Examples
begin

text \<open>
  The properties of the tables: subscriptions, groups, interfaces, and what the MLD messages and
  the timeout make of them.
\<close>

section \<open>Subscriptions and groups\<close>

text \<open>
  \<open>grpint_refresh\<close> is an insertion into a map. While there is memory it succeeds, a lookup of the
  refreshed source then finds it with the new mode and the current time, and every other lookup is
  unchanged. The exclusion of the unspecified address is passed over.
\<close>

theorem grpint_refresh_inserts:
  assumes "w_calloc w = []" and "grpint_refresh g ipv6 mode w = (r, g', w')"
  shows "r \<and> w' = w \<and> gi_ifindex g' = gi_ifindex g \<and>
    (\<forall>a. subscr_find (gi_subscriptions g') a =
       (if a = ipv6 \<and> \<not> (mode = MODE_EXCLUDE \<and> ipv6 = in6addr_any)
        then Some \<lparr>sb_ipv6 = ipv6, sb_mode = mode, sb_refreshtime = w_now w\<rparr>
        else subscr_find (gi_subscriptions g) a))"
proof (cases "mode = MODE_EXCLUDE \<and> ipv6 = in6addr_any")
  case True
  with assms(2) have "g' = g \<and> r \<and> w' = w" using grpint_refresh_skip [of g w] by simp
  with True show ?thesis by simp
next
  case False
  have "subscr_find (gi_subscriptions g') a =
      (if a = ipv6 then Some \<lparr>sb_ipv6 = ipv6, sb_mode = mode, sb_refreshtime = w_now w\<rparr>
       else subscr_find (gi_subscriptions g) a)" for a
    using grpint_refresh_lookup [OF assms(2) False, of a] assms(1) by simp
  with False grpint_refresh_True [OF assms] grpint_refresh_same(2) [OF assms(2)] show ?thesis by simp
qed

theorem grpint_refresh_inserts_witness:
  "\<exists>r g' w'. grpint_refresh ex_gi (ex_global 5) MODE_INCLUDE (ex_world []) = (r, g', w') \<and>
     subscr_find (gi_subscriptions g') (ex_global 5) =
       Some \<lparr>sb_ipv6 = ex_global 5, sb_mode = MODE_INCLUDE, sb_refreshtime = 1000\<rparr>"
proof -
  obtain r g' w' where r: "grpint_refresh ex_gi (ex_global 5) MODE_INCLUDE (ex_world []) = (r, g', w')"
    using prod_cases3 by blast
  with grpint_refresh_inserts [OF _ r] show ?thesis by auto
qed

text \<open>
  C28: \<open>groupint_get\<close> enters what is missing and subscribes nobody. While there is memory it returns a
  pointer to the interface of the group, both of which are in the tables afterwards; the membership
  table is unchanged, and the tables stay well-formed.
\<close>

theorem groupint_get_enters:
  assumes "w_calloc w = []" and "groups_ok (groups w)" and "group_addr mca"
  shows "\<exists>isnew w'. groupint_get mca interface w = Inr (Some (Linked mca (in_ifindex interface)), isnew, w') \<and>
    grpint_of w' mca (in_ifindex interface) \<noteq> None \<and> membership w' = membership w \<and> groups_ok (groups w')"
proof -
  obtain isnew w' where g: "groupint_get mca interface w = Inr (Some (Linked mca (in_ifindex interface)), isnew, w')"
    using groupint_get_mem [OF assms(1)] by blast
  with groupint_get_ptr [OF g] groupint_get_membership [OF g] groupint_get_ok [OF g assms(2,3)]
  show ?thesis by simp
qed

lemma ex_group_addr: "group_addr (ex_group k)"
  by (simp add: group_addr_def IN6_IS_ADDR_MC_NODELOCAL_def IN6_IS_ADDR_MC_LINKLOCAL_def ex_addr_def addr_wf_def)

theorem groupint_get_enters_witness:
  "\<exists>isnew w'. groupint_get (ex_group 9) (ex_int 1) (ex_world []) =
       Inr (Some (Linked (ex_group 9) (in_ifindex (ex_int 1))), isnew, w') \<and>
     grpint_of w' (ex_group 9) (in_ifindex (ex_int 1)) \<noteq> None"
  using groupint_get_enters [of "ex_world []" "ex_group 9" "ex_int 1"] ex_group_addr by auto

text \<open>
  The result of \<open>list_new\<close> is used unchecked: when memory runs out between the two allocations of
  a new group, the first report for the group makes the daemon follow a null pointer.
\<close>

theorem group_create_unchecked:
  assumes "group_find (groups w) mca = None" and "w_calloc w = True # False # cs"
  shows "groupint_get mca interface w = Inl NullDeref"
  using assms by (simp add: groupint_get_def groupint_get_group_def group_create_def calloc_def)

theorem group_create_unchecked_witness:
  "groupint_get (ex_group 9) (ex_int 1) ((ex_world [])\<lparr>w_calloc := [True, False]\<rparr>) = Inl NullDeref"
  by (rule group_create_unchecked [where cs = "[]"])
    (simp_all add: group_find_def ex_gr_def ex_addr_def IN6_ARE_ADDR_EQUAL_def)

section \<open>Interfaces\<close>

lemma int_create_others:
  assumes "int_create E k w = Inr (r, w')" and "j < length (ints w)" and "j \<noteq> unat k"
  shows "ints w' ! j = ints w ! j"
proof -
  have entry: "ints v ! j = ints u ! j" if "int_setup E k u = (s, v)" for s u v
    using that assms(3) by (auto simp: int_setup_def int_destroy_def Let_def upd_int_def split: option.splits if_splits)
  from assms(1) obtain w1 f where w1: "int_resize k w = Inr w1" "w' = w1 \<or> int_setup E k (upd_int (unat k) f w1) = (r, w')"
    by (auto simp: int_create_def split: if_splits)
  have "ints w1 ! j = ints w ! j"
    using w1(1) assms(2) by (auto simp: int_resize_def nth_append calloc_def split: if_splits list.splits bool.splits)
  moreover have "ints (upd_int (unat k) f w1) ! j = ints w1 ! j" using assms(3) by (simp add: upd_int_def)
  ultimately show ?thesis using w1(2) entry by auto
qed

text \<open>
  C29: Creating an interface keeps the array well-formed: every entry in use stands at the position
  of its index, with an MTU of at least 1280 and not a loopback. When the creation succeeds, a
  lookup of the index finds the entry inside of the array. The entries of other indices and the groups
  are unchanged.
\<close>

theorem int_create_finds:
  assumes "ints_ok w" and "int_create E k w = Inr (r, w')"
  shows "ints_ok w' \<and> groups w' = groups w \<and>
    (\<forall>j. j < length (ints w) \<and> j \<noteq> unat k \<longrightarrow> ints w' ! j = ints w ! j) \<and>
    (case r of None \<Rightarrow> True | Some i \<Rightarrow> i = unat k \<and> int_find k w' = Some i \<and> i < length (ints w') \<and>
       in_ifindex (ints w' ! i) = ucast k \<and> 1280 \<le> in_mtu (ints w' ! i))"
proof -
  note ok = int_create_ok(1) [OF assms]
  have "groups w' = groups w" using int_create_same [OF assms(2)] by (simp add: same_but_ints_def)
  moreover have "i = unat k \<and> int_find k w' = Some i" if "r = Some i" for i
    using int_create_ok(2) [OF assms that] .
  ultimately show ?thesis
    using ok int_find_Some(2,4,5) [OF ok, of k] int_create_others [OF assms(2)] by (cases r) auto
qed

theorem int_create_finds_witness:
  "\<exists>r w'. int_create ex_env 7 (ex_world []) = Inr (r, w') \<and> ints_ok w'"
proof -
  obtain r w' where r: "int_create ex_env 7 (ex_world []) = Inr (r, w')"
    using int_create_total [of "ex_world []" 7 ex_env] by auto
  with int_create_finds [OF ex_ints_ok r] show ?thesis by blast
qed

text \<open>
  C33: The array of interfaces is never overrun. With memory, the creation of an interface returns
  without a fault for every index below the largest; for the largest the size computation wraps to
  zero, the array does not grow, and the entry behind it is written.
\<close>

theorem int_create_bounds:
  assumes "ints_ok w" and "w_calloc w = []" and "env_socket E" and "length (ints w) < 2 ^ 32"
  shows "(\<exists>r w'. int_create E k w = Inr (r, w')) \<longleftrightarrow> k \<noteq> - 1"
proof
  show "\<exists>r w'. int_create E k w = Inr (r, w')" if "k \<noteq> - 1" using int_create_total [OF assms(1,2) that] .
  assume run: "\<exists>r w'. int_create E k w = Inr (r, w')"
  have "int_create E (- 1) w = Inl OutOfBounds"
    using assms by (simp add: int_create_def int_resize_def unsigned_minus_1_eq_mask mask_eq_exp_minus_1)
  with run show "k \<noteq> - 1" by auto
qed

theorem int_create_bounds_witness: "\<not> (\<exists>r w'. int_create ex_env (- 1) (ex_world []) = Inr (r, w'))"
  using int_create_bounds [of "ex_world []" ex_env "- 1"] by (simp add: ex_env_def)

text \<open>
  \<open>int_set_mld_version\<close> is a step of the version automaton \<open>mld_step\<close> on the version and the time
  of the last MLDv1 message of this interface, and touches nothing else.
\<close>

theorem int_set_mld_version_automaton:
  assumes "i < length (ints w)"
  shows "int_set_mld_version i new w = upd_int i (\<lambda>n.
    let (v, l) = mld_step (mld1only w) (mld2only w) (w_now w) new (in_mld_version n, in_mld_last_v1 n)
    in n\<lparr>in_mld_version := v, in_mld_last_v1 := l\<rparr>) w"
  by (rule int_set_mld_version_eq [OF assms])

theorem int_set_mld_version_automaton_witness:
  "in_mld_version (ints (int_set_mld_version 1 1 (ex_world [])) ! 1) = 1"
  using int_set_mld_version_automaton [of 1 "ex_world []" 1]
  by (simp add: upd_int_def mld_step_def ex_int_def int_zero_def)

text \<open>
  An interface that runs MLDv2 never goes back to MLDv1: a message of version one leaves it at
  version two, so MLDv1 routers and listeners on such a link go unnoticed.
\<close>

theorem mld2_not_downgraded:
  assumes "i < length (ints w)" and "in_mld_version (ints w ! i) = 2"
  shows "int_set_mld_version i 1 w = w"
  using assms by (simp add: int_set_mld_version_def Let_def)

theorem mld2_not_downgraded_witness:
  "int_set_mld_version 1 1 ((ex_world [])\<lparr>ints := [int_zero, (ex_int 1)\<lparr>in_mld_version := 2\<rparr>]\<rparr>) =
     (ex_world [])\<lparr>ints := [int_zero, (ex_int 1)\<lparr>in_mld_version := 2\<rparr>]\<rparr>"
  by (rule mld2_not_downgraded) simp_all

text \<open>
  C30: \<open>update_interfaces\<close> keeps the tables well-formed, never shrinks the array, leaves the groups
  alone, and ends while there is memory, no interface has the index that wraps around, and no IPv4
  address makes it read behind a struct where the platform forbids it; within five minutes of the last
  update it does nothing.
\<close>

theorem update_interfaces_safe:
  assumes "tables_ok w" and "w_calloc w = []" and "env_ok E" and "discovery_ok E"
  shows "\<exists>w'. update_interfaces E intn w = Inr w' \<and> tables_ok w' \<and> membership w' = membership w \<and>
    length (ints w) \<le> length (ints w') \<and> (w_last_update w + 300 > w_now w \<longrightarrow> w' = w)"
proof -
  have "ints_ok w" using assms(1) by (simp add: tables_ok_def)
  then obtain w' where u: "update_interfaces E intn w = Inr w'"
    using update_interfaces_total [OF _ assms(2-4)] by blast
  with update_interfaces_inv(1-3) [OF assms(1,3) u] update_interfaces_limited [of w E intn] show ?thesis by auto
qed

theorem update_interfaces_safe_witness:
  "\<exists>w'. update_interfaces ex_env None (ex_world []) = Inr w' \<and> tables_ok w'"
  using update_interfaces_safe [of "ex_world []" ex_env None] by auto




text \<open>
  The update for one interface passes over the addresses of that very interface: when the system
  lists only addresses of it, none of them is noted.
\<close>

theorem update_specific_skips_own:
  assumes "env_getifaddrs E = Some ifas"
    and "\<forall>ifa \<in> set ifas. ucast (env_nametoindex E (ifa_name ifa)) = in_ifindex (ints w ! i)"
    and "update_interfaces E (Some i) w = Inr w'"
  shows "ints w' = ints w"
proof -
  define u where "u = w\<lparr>w_last_update := gettimes w\<rparr>"
  have "w' = w \<or> update_loop E (Some i) ifas (False, False, u) = Inr w'"
    using assms(1,3) by (auto simp: update_interfaces_def Let_def u_def split: if_splits)
  then show ?thesis using update_loop_specific [of ifas E u i False False w'] assms(2) by (auto simp: u_def)
qed

theorem update_specific_skips_own_witness:
  "\<exists>w'. update_interfaces ex_env (Some 1) (ex_world []) = Inr w' \<and> in_linklocal (ints w' ! 1) = ex_ll 1"
proof -
  obtain w' where u: "update_interfaces ex_env (Some 1) (ex_world []) = Inr w'"
    using update_interfaces_total [of "ex_world []" ex_env "Some 1"] by auto
  have "ints w' = ints (ex_world [])"
    by (rule update_specific_skips_own [OF _ _ u, where ifas = "the (env_getifaddrs ex_env)"])
      (simp_all add: ex_env_def ex_int_def)
  with u show ?thesis by (simp add: ex_int_def)
qed

end
