(* ===== verification/Mld_Props.thy ===== *)
theory Mld_Props
  imports Table_Props
begin

text \<open>
  The properties of the MLD messages that the daemon receives, of the timeout, and of the
  messages that it sends.
\<close>

section \<open>Received messages\<close>

text \<open>
  C5: An MLDv1 report for a routable group is one report of any source on the incoming interface: the
  membership table afterwards holds that subscription with the current time and is otherwise
  unchanged. A report for another address changes nothing of it. In the MLDv1-only mode the handler
  always returns. The MLDv2-only mode is left out: there the documentation asks for something else
  (\<open>mld2only_hears_mld1\<close>).
\<close>

theorem mld1_report_subscribes:
  assumes "tables_ok w" and "w_calloc w = []" and "\<not> mld2only w" and "i < length (ints w)"
    and "m + 24 \<le> length (buffer w)" and "mca = take 16 (drop (m + 8) (buffer w))"
  shows "(\<forall>w'. l4_ipv6_icmpv6_mld1_report E i m w = Inr w' \<longrightarrow> tables_ok w' \<and>
      membership w' = (if mld1_ignored mca then membership w
        else mem_report mca (in_ifindex (ints w ! i)) in6addr_any MODE_INCLUDE (w_now w) (membership w))) \<and>
    (mld1only w \<longrightarrow> (\<exists>w'. l4_ipv6_icmpv6_mld1_report E i m w = Inr w'))"
proof (intro conjI allI impI)
  have rd: "rd (buffer w) (m + 8) 16 = Inr mca" using assms(5,6) by (simp add: rd_Inr)
  fix w' assume run: "l4_ipv6_icmpv6_mld1_report E i m w = Inr w'"
  show "tables_ok w'" by (rule mld1_report_inv [OF assms(1,4) run])
  show "membership w' = (if mld1_ignored mca then membership w
        else mem_report mca (in_ifindex (ints w ! i)) in6addr_any MODE_INCLUDE (w_now w) (membership w))"
  proof (cases "mld1_ignored mca")
    case True
    with rd run have "w' = int_set_mld_version i 1 w" by (simp add: l4_ipv6_icmpv6_mld1_report_def Let_def)
    with True show ?thesis by simp
  qed (use mld1_report_membership [OF assms(2,4) rd _ run] in simp)
next
  assume "mld1only w"
  then show "\<exists>w'. l4_ipv6_icmpv6_mld1_report E i m w = Inr w'"
    using assms by (intro mld1_report_total) (simp_all add: calm_mld1_def)
qed

definition ex_mld1 :: "u8 \<Rightarrow> bytes" where
  "ex_mld1 t = mld1_bytes t 0 0 (ex_group 1)"

lemma ex_mld1_addr: "ex_group 1 = take 16 (drop (0 + 8) (buffer (ex_world (ex_mld1 t))))"
    "0 + 24 \<le> length (buffer (ex_world (ex_mld1 t)))"
  by (simp_all add: ex_mld1_def mld1_bytes_def)

lemma ex_not_ignored: "\<not> mld1_ignored (ex_group 1)"
  by (simp add: mld1_ignored_def IN6_IS_ADDR_MULTICAST_def IN6_IS_ADDR_MC_NODELOCAL_def
      IN6_IS_ADDR_MC_LINKLOCAL_def ex_addr_def)

theorem mld1_report_subscribes_witness:
  "\<exists>w'. l4_ipv6_icmpv6_mld1_report ex_env 1 0 (ex_world (ex_mld1 131)) = Inr w' \<and>
     membership w' (ex_group 1) 1 in6addr_any =
       Some \<lparr>sb_ipv6 = in6addr_any, sb_mode = MODE_INCLUDE, sb_refreshtime = 1000\<rparr>"
  using mld1_report_subscribes [of "ex_world (ex_mld1 131)" 1 0 "ex_group 1" ex_env,
      OF ex_tables_ok _ _ _ ex_mld1_addr(2) ex_mld1_addr(1)] ex_not_ignored
  by (auto simp: mem_report_def ex_int_def)

text \<open>
  The option \<open>-2\<close> is documented to ignore MLDv1 reports completely. It does not: in the MLDv2-only mode
  the handler of MLDv1 reports enters the group as well.
\<close>

theorem mld2only_hears_mld1:
  assumes "tables_ok w" and "w_calloc w = []" and "mld2only w" and "i < length (ints w)"
    and "m + 24 \<le> length (buffer w)" and "mca = take 16 (drop (m + 8) (buffer w))" and "\<not> mld1_ignored mca"
    and "reports_fit (in_ifindex (ints w ! i)) w"
  shows "\<exists>w'. l4_ipv6_icmpv6_mld1_report E i m w = Inr w' \<and>
    membership w' mca (in_ifindex (ints w ! i)) in6addr_any =
      Some \<lparr>sb_ipv6 = in6addr_any, sb_mode = MODE_INCLUDE, sb_refreshtime = w_now w\<rparr>"
proof -
  have rd: "rd (buffer w) (m + 8) 16 = Inr mca" using assms(5,6) by (simp add: rd_Inr)
  have "hears (in_ifindex (ints w ! i)) w" using assms(1,2,8) by (simp add: hears_def)
  then obtain w' where w': "l4_ipv6_icmpv6_mld1_report E i m w = Inr w'"
    using mld1_report_hears assms(4,5) by blast
  with mld1_report_membership [OF assms(2,4) rd assms(7) w'] show ?thesis by (simp add: mem_report_def)
qed

text \<open>
  C6: An MLDv1 reduction takes the any-source subscription of the incoming interface out of the
  membership table and leaves every other subscription alone, also those of the same interface to
  single sources. In the MLDv1-only mode the handler always returns.
\<close>

theorem mld1_reduction_unsubscribes:
  assumes "tables_ok w" and "w_calloc w = []" and "i < length (ints w)"
    and "m + 24 \<le> length (buffer w)" and "mca = take 16 (drop (m + 8) (buffer w))"
  shows "(\<forall>w'. l4_ipv6_icmpv6_mld1_reduction E i m w = Inr w' \<longrightarrow> tables_ok w' \<and>
      membership w' = (if mld1_ignored mca then membership w
        else mem_reduce mca (in_ifindex (ints w ! i)) (membership w))) \<and>
    (mld1only w \<longrightarrow> (\<exists>w'. l4_ipv6_icmpv6_mld1_reduction E i m w = Inr w'))"
proof (intro conjI allI impI)
  have rd: "rd (buffer w) (m + 8) 16 = Inr mca" using assms(4,5) by (simp add: rd_Inr)
  fix w' assume run: "l4_ipv6_icmpv6_mld1_reduction E i m w = Inr w'"
  show "tables_ok w'" "membership w' = (if mld1_ignored mca then membership w
        else mem_reduce mca (in_ifindex (ints w ! i)) (membership w))"
    using mld1_reduction_spec [OF assms(1,3) run rd] by simp_all
next
  assume "mld1only w"
  then show "\<exists>w'. l4_ipv6_icmpv6_mld1_reduction E i m w = Inr w'"
    using assms by (intro mld1_reduction_total) (simp_all add: calm_mld1_def)
qed

theorem mld1_reduction_unsubscribes_witness:
  "\<exists>w'. l4_ipv6_icmpv6_mld1_reduction ex_env 2 0 (ex_world (ex_mld1 132)) = Inr w' \<and>
     membership w' (ex_group 1) 2 in6addr_any = None"
  using mld1_reduction_unsubscribes [of "ex_world (ex_mld1 132)" 2 0 "ex_group 1" ex_env,
      OF ex_tables_ok _ _ ex_mld1_addr(2) ex_mld1_addr(1)] ex_not_ignored
  by (auto simp: mem_reduce_def ex_int_def)

text \<open>
  C4: An MLDv2 report refines its specification: the membership table afterwards is the table before
  with the effect of each record of the message in turn, where a record is a report of each of its
  sources, an exclusion without sources is a report of any source, and the message ends at the first
  record that is unknown or longer than it. In the MLDv1-only mode the handler always returns.
\<close>

theorem mld2_report_refines:
  assumes "tables_ok w" and "w_calloc w = []" and "i < length (ints w)"
    and "m + unat plen + 20 \<le> length (buffer w)"
    and "n = unat (ntohs (le16 (buffer w ! (m + 6)) (buffer w ! (m + 7))))"
  shows "(\<forall>w'. l4_ipv6_icmpv6_mld2_report E i m plen w = Inr w' \<longrightarrow> tables_ok w' \<and>
      membership w' = fold (grec_effect (in_ifindex (ints w ! i)) (w_now w))
        (if 8 + n * 20 > unat plen then [] else grecs_at (buffer w) (m + unat plen) n (m + 8)) (membership w)) \<and>
    (mld1only w \<longrightarrow> (\<exists>w'. l4_ipv6_icmpv6_mld2_report E i m plen w = Inr w'))"
proof (intro conjI allI impI)
  fix w' assume run: "l4_ipv6_icmpv6_mld2_report E i m plen w = Inr w'"
  show "tables_ok w'" by (rule mld2_report_inv [OF assms(1,3) run])
  show "membership w' = fold (grec_effect (in_ifindex (ints w ! i)) (w_now w))
        (if 8 + n * 20 > unat plen then [] else grecs_at (buffer w) (m + unat plen) n (m + 8)) (membership w)"
    using mld2_report_membership [OF assms(2,3) run] unfolding assms(5) Let_def .
next
  assume "mld1only w"
  then show "\<exists>w'. l4_ipv6_icmpv6_mld2_report E i m plen w = Inr w'"
    using assms by (intro mld2_report_total) (simp_all add: calm_mld1_def)
qed

text \<open>A report that includes one source of the group.\<close>

definition ex_mld2 :: bytes where
  "ex_mld2 = [143, 0, 0, 0, 0, 0, 0, 1, MLD2_MODE_IS_INCLUDE, 0, 0, 1] @ ex_group 1 @ ex_global 5"

lemma ex_mld2_recs: "grecs_at (ex_mld2 @ Z) 44 (Suc 0) 8 = [(MLD2_MODE_IS_INCLUDE, ex_group 1, [ex_global 5])]"
  by (simp add: ex_mld2_def ex_addr_def le16_def htons_def grec_type_known_def numeral_2_eq_2 [symmetric])

lemma ex_mld2_count: "ntohs (le16 ((ex_mld2 @ Z) ! 6) ((ex_mld2 @ Z) ! 7)) = 1" "length ex_mld2 = 44"
  by (simp_all add: ex_mld2_def ex_addr_def le16_def htons_def)

theorem mld2_report_refines_witness:
  "\<exists>w'. l4_ipv6_icmpv6_mld2_report ex_env 1 0 44 (ex_world ex_mld2) = Inr w' \<and>
     membership w' (ex_group 1) 1 (ex_global 5) =
       Some \<lparr>sb_ipv6 = ex_global 5, sb_mode = MODE_INCLUDE, sb_refreshtime = 1000\<rparr>"
  using mld2_report_refines [of "ex_world ex_mld2" 1 0 44 1 ex_env] ex_mld2_recs ex_mld2_count ex_not_ignored
  by (auto simp: grec_effect_def mem_report_def ex_int_def grec_excludes_def mld1_ignored_def layout)

text \<open>The checksum field lies behind the IPv6 header, so writing it leaves the addresses alone.\<close>

lemma rechecksum_src:
  assumes "icmpv6_rechecksum iph m plen w = Inr w'" and "iph + 40 \<le> m"
  shows "rd (buffer w') (iph + 8) 16 = rd (buffer w) (iph + 8) 16"
proof -
  obtain b0 c where b: "wr16 (buffer w) (m + 2) 0 = Inr b0" "wr16 b0 (m + 2) c = Inr (buffer w')"
    using assms(1) by (auto simp: icmpv6_rechecksum_def)
  then have "rd (buffer w') (iph + 8) 16 = rd b0 (iph + 8) 16"
    using assms(2) unfolding wr16_def by (intro rd_wr_other) auto
  also have "\<dots> = rd (buffer w) (iph + 8) 16"
    using b(1) assms(2) unfolding wr16_def by (intro rd_wr_other) auto
  finally show ?thesis .
qed

lemma echo_membership:
  assumes "icmpv6_echo E i iph len m plen w = Inr w'"
  shows "membership w' = membership w"
proof -
  obtain h w1 where d: "dec_hlim iph w = Inr (h, w1)" using assms by (auto simp: icmpv6_echo_def)
  then have g: "membership w1 = membership w" using dec_hlim_path membership_cong by blast
  show ?thesis
  proof (cases "h = 0")
    case True
    with assms d have "\<exists>src n. icmp6_send E i src ICMP6_ECHO_REPLY ICMP6_TIME_EXCEED_TRANSIT (buffer w1) (m + 4) n
        (w1\<lparr>stat_hlim_exceeded := stat_hlim_exceeded w1 + 1\<rparr>) = Inr w'"
      by (auto simp: icmpv6_echo_def)
    then have "membership w' = membership (w1\<lparr>stat_hlim_exceeded := stat_hlim_exceeded w1 + 1\<rparr>)"
      using icmp6_send_sends sends_membership by blast
    then show ?thesis using g by (simp add: membership_cong [of "w1\<lparr>stat_hlim_exceeded := stat_hlim_exceeded w1 + 1\<rparr>" w1])
  next
    case False
    with assms d have "l4_ipv6_multicast E i iph len w1 = Inr w'" by (auto simp: icmpv6_echo_def)
    then show ?thesis using g multicast_inv(2) by simp
  qed
qed

lemma icmpv6_offlink:
  assumes "iph + 40 \<le> m" and "iph + 40 \<le> length (buffer w)"
    and "\<not> IN6_IS_ADDR_LINKLOCAL (take 16 (drop (iph + 8) (buffer w)))"
    and "l4_ipv6_icmpv6 E i iph len m plen w = Inr w'"
  shows "membership w' = membership w"
proof -
  define w0 where "w0 = upd_int i (\<lambda>n. n\<lparr>in_icmp_received := in_icmp_received n + 1\<rparr>)
                 (w\<lparr>stat_icmp_received := stat_icmp_received w + 1\<rparr>)"
  have "groups w0 = groups w" and w0b: "buffer w0 = buffer w" by (simp_all add: w0_def upd_int_def)
  then have w0: "membership w0 = membership w" "buffer w0 = buffer w" by (blast intro: membership_cong)+
  obtain t where t: "rd8 (buffer w0) m = Inr t"
    using assms(4) by (auto simp: l4_ipv6_icmpv6_def w0_def [symmetric])
  show ?thesis
  proof (cases "icmpv6_interesting t")
    case False
    with assms(4) t have "w' = w0" by (simp add: l4_ipv6_icmpv6_def w0_def [symmetric])
    then show ?thesis using w0 by simp
  next
    case True
    with assms(4) t obtain w1 where c: "icmpv6_rechecksum iph m plen w0 = Inr w1"
      and r: "(if t = ICMP6_ECHO_REQUEST then icmpv6_echo E i iph len m plen w1
          else icmpv6_mld E i iph m plen t w1) = Inr w'"
      by (auto simp: l4_ipv6_icmpv6_def w0_def [symmetric])
    have m1: "membership w1 = membership w" using rechecksum_path [OF c] w0(1) membership_cong by metis
    have src: "rd (buffer w1) (iph + 8) 16 = Inr (take 16 (drop (iph + 8) (buffer w)))"
      using rechecksum_src [OF c assms(1)] assms(2) w0(2) by (simp add: rd_Inr)
    have "w' = w1" if "t \<noteq> ICMP6_ECHO_REQUEST"
      using that r src assms(3) by (simp add: icmpv6_mld_def)
    with r m1 echo_membership show ?thesis by (cases "t = ICMP6_ECHO_REQUEST") auto
  qed
qed

subsection \<open>A packet only refreshes\<close>

text \<open>
  Whatever a packet holds, what is in the table after it was there before, or was refreshed at this
  moment.
\<close>

definition only_refreshed :: "u64 \<Rightarrow> mtable \<Rightarrow> mtable \<Rightarrow> bool" where
  "only_refreshed t m m' \<longleftrightarrow> (\<forall>g k a s. m' g k a = Some s \<longrightarrow> m g k a = Some s \<or> sb_refreshtime s = t)"

lemma only_refreshed_refl [simp]: "only_refreshed t m m"
  by (simp add: only_refreshed_def)

lemma only_refreshed_trans: "only_refreshed t m1 m2 \<Longrightarrow> only_refreshed t m2 m3 \<Longrightarrow> only_refreshed t m1 m3"
  unfolding only_refreshed_def by blast

lemma only_refreshed_report: "only_refreshed t m (mem_report g k a mode t m)"
  by (auto simp: only_refreshed_def mem_report_def)

lemma only_refreshed_fold:
  assumes "\<And>x m. only_refreshed t m (f x m)"
  shows "only_refreshed t m (fold f xs m)"
proof (induction xs arbitrary: m)
  case (Cons x xs)
  from only_refreshed_trans [OF assms Cons.IH] show ?case by simp
qed simp

lemma only_refreshed_grec: "only_refreshed t m (grec_effect k t r m)"
  by (cases r) (auto simp: grec_effect_def intro: only_refreshed_report only_refreshed_fold)

lemma mld_refreshed:
  assumes "tables_ok w" and "w_calloc w = []" and "i < length (ints w)" and "icmpv6_mld E i iph m plen t w = Inr w'"
  shows "only_refreshed (w_now w) (membership w) (membership w')"
proof -
  consider "w' = w" | "l4_ipv6_icmpv6_mld1_report E i m w = Inr w'" | "l4_ipv6_icmpv6_mld1_reduction E i m w = Inr w'"
    | "l4_ipv6_icmpv6_mld2_report E i m plen w = Inr w'" | "l4_ipv6_icmpv6_mld_query E i plen w = Inr w'"
    using assms(4) by (auto simp: icmpv6_mld_def split: if_splits)
  then show ?thesis
  proof cases
    case 2
    then obtain mca where rd: "rd (buffer w) (m + 8) 16 = Inr mca"
      by (auto simp: l4_ipv6_icmpv6_mld1_report_def Let_def)
    show ?thesis
    proof (cases "mld1_ignored mca")
      case True
      with rd 2 have "w' = int_set_mld_version i 1 w" by (simp add: l4_ipv6_icmpv6_mld1_report_def Let_def)
      then show ?thesis by simp
    qed (use mld1_report_membership [OF assms(2,3) rd _ 2] only_refreshed_report in simp)
  next
    case 3
    then obtain mca where rd: "rd (buffer w) (m + 8) 16 = Inr mca"
      by (auto simp: l4_ipv6_icmpv6_mld1_reduction_def Let_def)
    from mld1_reduction_spec(2) [OF assms(1,3) 3 rd] show ?thesis by (simp add: only_refreshed_def mem_reduce_def)
  next
    case 4
    from mld2_report_membership [OF assms(2,3) 4] show ?thesis
      by (simp only:) (rule only_refreshed_fold [OF only_refreshed_grec])
  qed (use mld_query_inv(2) [OF assms(1,3)] in simp_all)
qed

lemma icmpv6_refreshed:
  assumes "tables_ok w" and "w_calloc w = []" and "i < length (ints w)" and "l4_ipv6_icmpv6 E i iph len m plen w = Inr w'"
  shows "only_refreshed (w_now w) (membership w) (membership w')"
proof -
  define w0 where "w0 = upd_int i (\<lambda>n. n\<lparr>in_icmp_received := in_icmp_received n + 1\<rparr>)
                 (w\<lparr>stat_icmp_received := stat_icmp_received w + 1\<rparr>)"
  have "groups w0 = groups w" by (simp add: w0_def upd_int_def)
  then have m0: "membership w0 = membership w" by (rule membership_cong)
  have p0: "path_ok w w0"
    using path_ok_counters(1) [of w i "in_icmp_received (ints w ! i) + 1"] by (simp add: w0_def upd_int_def)
  obtain t where t: "rd8 (buffer w0) m = Inr t" using assms(4) by (auto simp: l4_ipv6_icmpv6_def w0_def [symmetric])
  show ?thesis
  proof (cases "icmpv6_interesting t")
    case False
    with assms(4) t have "w' = w0" by (simp add: l4_ipv6_icmpv6_def w0_def [symmetric])
    then show ?thesis using m0 by simp
  next
    case True
    with assms(4) t obtain w1 where c: "icmpv6_rechecksum iph m plen w0 = Inr w1"
      and r: "(if t = ICMP6_ECHO_REQUEST then icmpv6_echo E i iph len m plen w1
          else icmpv6_mld E i iph m plen t w1) = Inr w'"
      by (auto simp: l4_ipv6_icmpv6_def w0_def [symmetric])
    have m1: "membership w1 = membership w" using rechecksum_path [OF c] m0 membership_cong by metis
    have p1: "path_ok w w1" using rechecksum_path [OF c] path_ok_trans [OF p0] by blast
    then have w1: "tables_ok w1" "w_calloc w1 = []" "i < length (ints w1)" "w_now w1 = w_now w"
      using assms(1-3) by (auto simp: path_ok_def passed_fields)
    show ?thesis
    proof (cases "t = ICMP6_ECHO_REQUEST")
      case True
      with r m1 echo_membership show ?thesis by fastforce
    next
      case False
      with r have "icmpv6_mld E i iph m plen t w1 = Inr w'" by simp
      from mld_refreshed [OF w1(1-3) this] show ?thesis by (simp add: w1(4) m1)
    qed
  qed
qed

lemma l3_ipv6_refreshed:
  assumes "tables_ok w" and "w_calloc w = []" and "i < length (ints w)" and "l3_ipv6 E i iph len w = Inr w'"
  shows "only_refreshed (w_now w) (membership w) (membership w')"
  using assms(4)
proof (cases rule: l3_ipv6_cases)
  case 2
  with assms(1-3) show ?thesis by (blast intro: icmpv6_refreshed)
next
  case (3 h w1)
  then have "membership w' = membership w" using dec_hlim_path [OF 3(1)] by (intro membership_cong) simp
  then show ?thesis by simp
next
  case (4 h w1)
  then have "membership w' = membership w"
    using dec_hlim_path [OF 4(1)] multicast_inv(2) [OF 4(2)] membership_cong [of w1 w] by simp
  then show ?thesis by simp
qed simp

lemma l2_ethtype_refreshed:
  assumes "tables_ok w" and "w_calloc w = []" and "i < length (ints w)" and "l2_ethtype E i p len t w = Inr w'"
  shows "only_refreshed (w_now w) (membership w) (membership w')"
proof (cases "t = ucast ETH_P_IP")
  case True
  with assms(4) have "w' = w" by (auto simp: l2_ethtype_def l3_ipv4_def split: if_splits)
  then show ?thesis by simp
next
  case False
  with assms show ?thesis by (auto simp: l2_ethtype_def dest: l3_ipv6_refreshed split: if_splits)
qed

lemma handleinterfaces_refreshed:
  assumes "tables_ok w" and "w_calloc w = []" and "env_ok E" and "handleinterfaces E r w = Inr (b, w')"
  shows "only_refreshed (w_now w) (membership w) (membership w')"
proof (cases r)
  case RecvError
  with assms(4) show ?thesis by (simp add: handleinterfaces_def)
next
  case (Recv data ht pt k proto)
  define len where "len = min (length data) (unat (bufferlen w))"
  define w0 where "w0 = w\<lparr>buffer := take len data @ drop len (buffer w)\<rparr>"
  define w1 where "w1 = w0\<lparr>stat_packets_received := stat_packets_received w0 + 1,
             stat_bytes_received := stat_bytes_received w0 + of_nat len\<rparr>"
  have g: "groups w0 = groups w" "groups w1 = groups w" by (simp_all add: w0_def w1_def)
  have ok1: "tables_ok w1" "w_calloc w1 = []" "w_now w1 = w_now w"
    using assms(1,2) by (auto simp: w0_def w1_def intro: tables_ok_cong)
  note run = assms(4) [unfolded handleinterfaces_def Recv recv.case Let_def, folded len_def, folded w0_def, folded w1_def]
  show ?thesis
  proof (cases "ht = ARPHRD_LOOPBACK \<or> pt = PACKET_OUTGOING")
    case True
    with run have "w' = w0" by simp
    then show ?thesis by (simp add: membership_cong [OF g(1)])
  next
    case False
    with run obtain intn w2 where f: "find_or_create E k w1 = Inr (intn, w2)" by auto
    note foc = find_or_create_inv [OF ok1(1) assms(3) f]
    then have same: "groups w2 = groups w" "w_now w2 = w_now w" "w_calloc w2 = []"
      using ok1 g(2) by (simp_all add: same_traffic_def)
    show ?thesis
    proof (cases intn)
      case None
      with run False f have "w' = w2" by simp
      then show ?thesis by (simp add: membership_cong [OF same(1)])
    next
      case (Some i)
      define w3 where "w3 = upd_int i (\<lambda>n. n\<lparr>in_packets_received := in_packets_received n + 1,
                                    in_bytes_received := in_bytes_received n + of_nat len\<rparr>) w2"
      have l2: "l2_ethtype E i 0 (of_nat len) (ucast (ntohs proto)) w3 = Inr w'"
        using run False f Some by (auto simp: w3_def)
      have w3: "w_calloc w3 = []" "i < length (ints w3)" "w_now w3 = w_now w" "groups w3 = groups w"
        using same foc Some by (simp_all add: w3_def upd_int_def)
      have "tables_ok w3" unfolding w3_def using foc by (intro tables_ok_upd_int) (simp_all add: int_ok_def)
      from l2_ethtype_refreshed [OF this w3(1,2) l2] show ?thesis
        using membership_cong [OF w3(4)] w3(3) by simp
    qed
  qed
qed

text \<open>
  C9: Nobody off the link can subscribe or unsubscribe. Whatever a packet holds, when its source
  is not a link-local address, the membership table is the same after \<open>l3_ipv6\<close> has handled it.
\<close>

theorem mld_from_link_only:
  assumes "iph + 40 \<le> length (buffer w)" and "\<not> IN6_IS_ADDR_LINKLOCAL (take 16 (drop (iph + 8) (buffer w)))"
    and "l3_ipv6 E i iph len w = Inr w'"
  shows "membership w' = membership w"
  using assms(3)
proof (cases rule: l3_ipv6_cases)
  case 2
  with assms(1,2) show ?thesis by (blast intro: icmpv6_offlink)
next
  case (3 h w1)
  with dec_hlim_path [OF 3(1)] show ?thesis by (intro membership_cong) simp
next
  case (4 h w1)
  then show ?thesis using dec_hlim_path [OF 4(1)] multicast_inv(2) [OF 4(2)] membership_cong [of w1 w] by simp
qed simp

theorem mld_from_link_only_witness:
  "\<exists>w'. l3_ipv6 ex_env 1 0 42 (ex_world ex_data) = Inr w' \<and> membership w' = membership (ex_world ex_data)"
proof -
  have l: "length (buffer (ex_world ex_data)) = 2042"
    by (simp add: ex_data_def ip6_hdr_def ex_addr_def le16_bytes_def)
  have "honest (ex_world ex_data) 0 42"
    using l by (simp add: honest_def ex_data_def ip6_hdr_def ex_addr_def le16_bytes_def, simp add: le16_def htons_def)
  from l3_ipv6_total [OF ex_calm_mld1 _ this] obtain w' where r: "l3_ipv6 ex_env 1 0 42 (ex_world ex_data) = Inr w'" by fastforce
  have "\<not> IN6_IS_ADDR_LINKLOCAL (take 16 (drop (0 + 8) (buffer (ex_world ex_data))))"
    by (simp add: ex_data_def ip6_hdr_def IN6_IS_ADDR_LINKLOCAL_def ex_addr_def le16_bytes_def)
  with mld_from_link_only [OF _ _ r] l r show ?thesis by simp
qed

lemma rechecksum_repairs:
  assumes "length A = m + 2"
  shows "icmpv6_rechecksum iph m plen (w\<lparr>buffer := A @ [x, y] @ B\<rparr>) =
    icmpv6_rechecksum iph m plen (w\<lparr>buffer := A @ [x', y'] @ B\<rparr>)"
  using rd16_mid [OF assms] wr16_mid [OF assms, where v = 0]
  by (simp add: icmpv6_rechecksum_def)

text \<open>
  C35: A wrong ICMPv6 checksum has no consequence: for the types of message that the daemon looks at,
  what \<open>l4_ipv6_icmpv6\<close> does, and the state it leaves, do not depend on the checksum that was
  received. The check overwrites the field with the right value and goes on.
\<close>

theorem bad_checksum_repaired:
  assumes "length A = m + 2" and "icmpv6_interesting (A ! m)"
  shows "l4_ipv6_icmpv6 E i iph len m plen (w\<lparr>buffer := A @ [x, y] @ B\<rparr>) =
    l4_ipv6_icmpv6 E i iph len m plen (w\<lparr>buffer := A @ [x', y'] @ B\<rparr>)"
proof -
  define u where "u = upd_int i (\<lambda>n. n\<lparr>in_icmp_received := in_icmp_received n + 1\<rparr>)
      (w\<lparr>stat_icmp_received := stat_icmp_received w + 1\<rparr>)"
  have u: "upd_int i (\<lambda>n. n\<lparr>in_icmp_received := in_icmp_received n + 1\<rparr>)
      ((w\<lparr>buffer := c\<rparr>)\<lparr>stat_icmp_received := stat_icmp_received (w\<lparr>buffer := c\<rparr>) + 1\<rparr>) = u\<lparr>buffer := c\<rparr>" for c
    by (rule world.equality) (simp_all add: u_def upd_int_def)
  have "l4_ipv6_icmpv6 E i iph len m plen (w\<lparr>buffer := A @ [a, b] @ B\<rparr>) =
      rbind (icmpv6_rechecksum iph m plen (u\<lparr>buffer := A @ [a, b] @ B\<rparr>)) (\<lambda>w1.
        if A ! m = ICMP6_ECHO_REQUEST then icmpv6_echo E i iph len m plen w1
        else icmpv6_mld E i iph m plen (A ! m) w1)" for a b
    using assms unfolding l4_ipv6_icmpv6_def Let_def u by (simp add: rd8_Inr nth_append)
  then show ?thesis using rechecksum_repairs [OF assms(1), where w = u and iph = iph and plen = plen and B = B and x = x and y = y and x' = x' and y' = y']
    by (simp only:)
qed

theorem bad_checksum_repaired_witness:
  "l4_ipv6_icmpv6 ex_env 1 0 64 40 24 ((ex_world [])\<lparr>buffer := (replicate 40 0 @ [ICMP6_MEMBERSHIP_REPORT, 0]) @ [3, 4] @ replicate 40 0\<rparr>) =
   l4_ipv6_icmpv6 ex_env 1 0 64 40 24 ((ex_world [])\<lparr>buffer := (replicate 40 0 @ [ICMP6_MEMBERSHIP_REPORT, 0]) @ [5, 6] @ replicate 40 0\<rparr>)"
  by (rule bad_checksum_repaired) (simp_all add: icmpv6_interesting_def nth_append)

section \<open>The timeout\<close>

text \<open>
  C7: The timeout removes exactly the dead subscriptions. With memory it always ends, when the discovery
  of interfaces that it starts with does (\<open>discovery_ok\<close>: no interface has the index that wraps around, and
  the platform lets the bytes behind an IPv4 address be read); the membership table afterwards is the
  table before without the subscriptions that were last refreshed more than 250 seconds away from the
  clock, and the tables stay well-formed.
\<close>

theorem timeout_expires:
  assumes "tables_ok w" and "w_calloc w = []" and "env_ok E" and "discovery_ok E"
  shows "\<exists>w'. timeout E w = Inr w' \<and> tables_ok w' \<and>
    (\<forall>mca k a. membership w' mca k a = (case membership w mca k a of None \<Rightarrow> None
       | Some s \<Rightarrow> if subscr_dead (w_now w) s then None else Some s))"
proof -
  obtain w' where t: "timeout E w = Inr w'" using timeout_total [OF assms] by blast
  with timeout_spec(1,2) [OF assms(1,3) t] show ?thesis by (simp add: mem_purge_def)
qed

theorem timeout_expires_witness:
  "\<exists>w'. timeout ex_env (ex_world []) = Inr w' \<and> membership w' (ex_group 1) 2 in6addr_any = None"
proof -
  have "membership (ex_world []) (ex_group 1) 2 in6addr_any = Some ex_sub"
    by (simp add: membership_def grpint_of_def group_find_def grpint_find_def subscr_find_def IN6_ARE_ADDR_EQUAL_def
        ex_gr_def ex_gi_def ex_sub_def)
  moreover have "subscr_dead 1000 ex_sub" by (simp add: subscr_dead_def ex_sub_def layout)
  ultimately show ?thesis using timeout_expires [of "ex_world []" ex_env] by auto
qed

text \<open>
  The test for a dead subscription, which subtracts unsigned times and reads the result as a
  signed number, is the distance of the two times in seconds for all times that fit 62 bits.
\<close>

theorem subscr_dead_distance:
  assumes "unat t < 2 ^ 62" and "unat (sb_refreshtime s) < 2 ^ 62"
  shows "subscr_dead t s \<longleftrightarrow> \<bar>int (unat t) - int (unat (sb_refreshtime s))\<bar> > 250"
  by (rule subscr_dead_iff [OF assms])

theorem subscr_dead_distance_witness: "subscr_dead 951 ex_sub \<and> \<not> subscr_dead 950 ex_sub"
  using subscr_dead_distance [of 951 ex_sub] subscr_dead_distance [of 950 ex_sub] by (simp add: ex_sub_def)

text \<open>
  C34: An interface leaves a group at a timeout exactly when its list of subscriptions was marked by a
  reduction. When its subscriptions merely expire, the interface stays in the group with an empty
  list, and so does the group.
\<close>

theorem timeout_keeps_unmarked:
  assumes "tables_ok w" and "env_ok E" and "timeout E w = Inr w'" and "grpint_of w mca k = Some gi"
  shows "grpint_of w' mca k = (if marked gi then None
    else Some (gi\<lparr>gi_subscriptions := cl_loop2_delete (subscr_dead (w_now w)) (gi_subscriptions gi)\<rparr>))"
proof -
  have "grpint_ok gi" using grpint_of_ok [OF assms(1,4)] by (simp add: grpint_ok_def)
  with timeout_spec(3) [OF assms(1-3), of mca k] assms(4) timeout_grpint_ok show ?thesis by simp
qed

theorem timeout_keeps_unmarked_witness:
  "\<exists>w' gi. timeout ex_env (ex_world []) = Inr w' \<and> grpint_of w' (ex_group 1) 2 = Some gi \<and>
     nodes (gi_subscriptions gi) = []"
proof -
  obtain w' where t: "timeout ex_env (ex_world []) = Inr w'" using timeout_total [of "ex_world []" ex_env] by auto
  have "grpint_of (ex_world []) (ex_group 1) 2 = Some ex_gi"
    by (simp add: grpint_of_def group_find_def grpint_find_def IN6_ARE_ADDR_EQUAL_def ex_gr_def ex_gi_def)
  moreover have "\<not> marked ex_gi" "filter (\<lambda>s. \<not> subscr_dead 1000 s) (nodes (gi_subscriptions ex_gi)) = []"
    by (simp_all add: marked_def ex_gi_def subscr_dead_def ex_sub_def layout)
  ultimately show ?thesis
    using t timeout_keeps_unmarked [OF ex_tables_ok ex_env_ok(1) t, of "ex_group 1" 2 ex_gi] by simp
qed

end
