(* ===== verification/Wire_Props.thy ===== *)
theory Wire_Props
  imports Mld_Props
begin

text \<open>
  The properties of what goes over the wire: the MLD messages that are sent, the packets that are
  forwarded, and the way of a message from one instance of the daemon into the tables of another.
\<close>

section \<open>Messages that are sent\<close>

text \<open>
  C16: \<open>mld_send_query\<close> hands exactly one packet to the system, on its interface and to the Ethernet
  address of the all-nodes group: an IPv6 packet from the link-local address of the interface with
  hop limit one, a payload length that is the length of the rest, the router alert option and a
  query for the given group, of 24 bytes in the MLDv1-only mode and of 28 otherwise, whose checksum
  verifies. On an upstream interface nothing is sent.
\<close>

theorem mld_send_query_wire:
  assumes "addr_wf (in_linklocal (ints w ! i))" and "addr_wf mca"
  shows "if in_upstream (ints w ! i) then mld_send_query E i mca w = Inr w
    else \<exists>pkt w'. mld_send_query E i mca w = Inr w' \<and> sent_one w i all_nodes pkt w' \<and>
      mld_packet_ok (in_linklocal (ints w ! i)) all_nodes pkt \<and>
      length pkt = (if mld1only w then 72 else 76) \<and>
      pkt ! 48 = ICMP6_MEMBERSHIP_QUERY \<and> take 16 (drop 56 pkt) = mca"
  using mld_send_query_spec [OF assms] by (auto simp: mld_send_query_def Let_def)

theorem mld_send_query_wire_witness:
  "\<exists>pkt w'. mld_send_query ex_env 1 (ex_group 1) (ex_world []) = Inr w' \<and> length pkt = 72 \<and>
     mld_packet_ok (ex_ll 1) all_nodes pkt \<and> map snd (w_sent w') = [pkt]"
  using mld_send_query_wire [of "ex_world []" 1 "ex_group 1" ex_env]
  by (auto simp: sent_one_def ex_int_def int_zero_def)

text \<open>
  \<open>mld1_send_report\<close> hands exactly one packet to the system: an MLDv1 report for the group, sent to
  the group itself with hop limit one and the router alert option, with lengths that agree and a
  checksum that verifies.
\<close>

theorem mld1_send_report_wire:
  assumes "addr_wf (in_linklocal (ints w ! i))" and "addr_wf mca"
  shows "\<exists>pkt w'. mld1_send_report E i mca w = Inr w' \<and> sent_one w i mca pkt w' \<and>
    mld_packet_ok (in_linklocal (ints w ! i)) mca pkt \<and> length pkt = 72 \<and>
    pkt ! 48 = ICMP6_MEMBERSHIP_REPORT \<and> drop 56 pkt = mca"
  using mld1_send_report_spec [OF assms] by blast

theorem mld1_send_report_wire_witness:
  "\<exists>pkt w'. mld1_send_report ex_env 1 (ex_group 1) (ex_world []) = Inr w' \<and> length pkt = 72 \<and>
     map snd (w_sent w') = [pkt]"
  using mld1_send_report_wire [of "ex_world []" 1 "ex_group 1" ex_env]
  by (auto simp: sent_one_def ex_int_def)

text \<open>
  C13: When every subscription is for any source and the records fit the MTU, \<open>mld2_send_report\<close> never
  leaves its buffer and sends exactly one packet, if there is anything to report: a well-formed
  MLDv2 report with one exclude record without sources for every interface, other than the one it is
  sent on, that listens to a group (to the given group, if one is given), in the order of the tables.
\<close>

theorem mld2_send_report_packs:
  assumes "addr_wf (in_linklocal (ints w ! i))" and "any_source (nodes (groups w))"
    and "1280 \<le> unat (in_mtu (ints w ! i))" and "unat (in_mtu (ints w ! i)) \<le> 65535"
    and "recs = report_recs (in_ifindex (ints w ! i)) mca (nodes (groups w))"
    and "fits (unat (in_mtu (ints w ! i))) recs" and "w_calloc w = []"
  shows "if recs = [] then mld2_send_report E i mca w = Inr w
    else \<exists>w' pkt. mld2_send_report E i mca w = Inr w' \<and> sent_one w i all_routers pkt w' \<and>
      mld_packet_ok (in_linklocal (ints w ! i)) all_routers pkt \<and> length pkt = 56 + 20 * length recs \<and>
      pkt ! 48 = ICMP6_V2_MEMBERSHIP_REPORT \<and> drop 52 pkt = report_msg recs"
proof (cases "recs = []")
  case True
  with mld2_send_report_content [OF assms(1-6) calloc_Nil [OF assms(7)], of E] show ?thesis by simp
next
  case False
  define pkt where "pkt = mld_packet (in_linklocal (ints w ! i)) all_routers ICMP6_V2_MEMBERSHIP_REPORT (report_msg recs)"
  have wf: "\<forall>a \<in> set recs. addr_wf a" using assms(6) by (simp add: fits_def)
  have len: "length (report_msg recs) = 4 + 20 * length recs" using wf by (simp add: report_msg_def)
  have small: "length (report_msg recs) + 12 < 65536" using assms(4,6) by (simp add: len fits_def)
  note ok = mld_packet_ok [OF assms(1) addr_wf_all_routers small, of ICMP6_V2_MEMBERSHIP_REPORT]
  obtain w' where "mld2_send_report E i mca w = Inr w'" "sent_one w i all_routers pkt w'"
    using mld2_send_report_content [OF assms(1-6) calloc_Nil [OF assms(7)], of E] False by (auto simp: pkt_def)
  with False ok len show ?thesis by (auto simp: pkt_def)
qed

lemma ex_recs: "report_recs 1 None [ex_gr] = [ex_group 1]"
  by (simp add: report_recs_def group_recs_def gi_recs_def sub_recs_def ex_gr_def ex_gi_def ex_sub_def)

lemma ex_any_source: "any_source [ex_gr]"
  by (simp add: any_source_def ex_gr_def ex_gi_def ex_sub_def cl_exact_def)

theorem mld2_send_report_packs_witness:
  "\<exists>w' pkt. mld2_send_report ex_env 1 None (ex_world []) = Inr w' \<and> length pkt = 76 \<and>
     drop 52 pkt = report_msg [ex_group 1] \<and> map snd (w_sent w') = [pkt]"
proof -
  have i: "ints (ex_world []) ! 1 = ex_int 1" "nodes (groups (ex_world [])) = [ex_gr]" by simp_all
  have f: "addr_wf (in_linklocal (ex_int 1))" "in_mtu (ex_int 1) = 1500" "in_ifindex (ex_int 1) = 1"
    by (simp_all add: ex_int_def)
  from mld2_send_report_packs [of "ex_world []" 1 "[ex_group 1]" None ex_env, unfolded i f] ex_recs ex_any_source f(1)
  show ?thesis by (auto simp: fits_def sent_one_def)
qed

section \<open>Round trips\<close>

text \<open>
  C12: What one instance sends, another understands. When the packet that \<open>mld1_send_report\<close> puts on
  the wire lies in the buffer of a receiver on the same link, in any mode but MLDv2-only, the receiver's
  \<open>l3_ipv6\<close> takes it through the hop-by-hop header and the checksum to its handler and enters the
  reported group for the incoming interface, and nothing else, in the membership table. It does
  return when the receiver is in the MLDv1-only mode, or when its own reports fit their packets.
\<close>

theorem mld1_report_roundtrip:
  assumes "addr_wf (in_linklocal (ints w ! i))" and "addr_wf mca" and "\<not> mld1_ignored mca"
    and "mld1_send_report E i mca w = Inr w'" and "last (w_sent w') = (to, pkt)"
    and "IN6_IS_ADDR_LINKLOCAL (in_linklocal (ints w ! i))"
    and "tables_ok v" and "w_calloc v = []" and "\<not> mld2only v" and "j < length (ints v)" and "buffer v = pkt @ Z"
    and "in_linklocal (ints w ! i) \<noteq> in_linklocal (ints v ! j)" and "in_linklocal (ints w ! i) \<noteq> in_global (ints v ! j)"
  shows "(\<forall>v'. l3_ipv6 E' j 0 (of_nat (length pkt)) v = Inr v' \<longrightarrow>
      membership v' = mem_report mca (in_ifindex (ints v ! j)) in6addr_any MODE_INCLUDE (w_now v) (membership v)) \<and>
    (mld1only v \<or> reports_fit (in_ifindex (ints v ! j)) v \<longrightarrow> (\<exists>v'. l3_ipv6 E' j 0 (of_nat (length pkt)) v = Inr v'))"
proof -
  define p where "p = mld_packet (in_linklocal (ints w ! i)) mca ICMP6_MEMBERSHIP_REPORT (le16_bytes 0 @ [0, 0] @ mca)"
  have len: "length p = 72"
    using mld_packet_ok(2) [OF assms(1,2), of "le16_bytes 0 @ [0, 0] @ mca" ICMP6_MEMBERSHIP_REPORT] assms(2)
    by (simp add: p_def)
  obtain u where u: "sendpacket6 E i p 0 72 w = Inr u" "w' = count_icmp_sent i u"
    using assms(4) unfolding mld1_send_report_eq [OF assms(1,2)] p_def by auto
  have "snd (last (w_sent u)) = p" using sendpacket6_sends(2) [OF u(1)] len by simp
  then have "pkt = p" using assms(5) u(2) by (simp add: count_icmp_sent_def)
  then have b: "buffer v = [] @ mld_packet (in_linklocal (ints w ! i)) mca ICMP6_MEMBERSHIP_REPORT (le16_bytes 0 @ [0, 0] @ mca) @ Z"
    using assms(11) by (simp add: p_def)
  have l: "of_nat (length pkt) = (72 :: u16)" using len \<open>pkt = p\<close> by simp
  note r = mld1_roundtrip [OF assms(8,10,1,2) list.size(3) b assms(3,6,12,13), where E = E']
  show ?thesis unfolding l using r assms(7,8) by (auto simp: hears_def)
qed

theorem mld1_report_roundtrip_witness:
  "\<exists>pkt to w' v'. mld1_send_report ex_env 1 (ex_group 1) (ex_world []) = Inr w' \<and> last (w_sent w') = (to, pkt) \<and>
     l3_ipv6 ex_env 2 0 (of_nat (length pkt)) (ex_default pkt) = Inr v' \<and>
     membership v' (ex_group 1) 2 in6addr_any =
       Some \<lparr>sb_ipv6 = in6addr_any, sb_mode = MODE_INCLUDE, sb_refreshtime = 1000\<rparr>"
proof -
  have l: "in_linklocal (ints (ex_world []) ! 1) = ex_ll 1" by (simp add: ex_int_def)
  obtain w' where w': "mld1_send_report ex_env 1 (ex_group 1) (ex_world []) = Inr w'"
    using mld1_send_report_spec [of "ex_world []" 1 "ex_group 1" ex_env] by (auto simp: ex_int_def)
  obtain to pkt where pkt: "last (w_sent w') = (to, pkt)" by (cases "last (w_sent w')")
  have "in_linklocal (ints (ex_world []) ! 1) \<noteq> in_linklocal (ints (ex_default pkt) ! 2)"
    "in_linklocal (ints (ex_world []) ! 1) \<noteq> in_global (ints (ex_default pkt) ! 2)"
    "IN6_IS_ADDR_LINKLOCAL (in_linklocal (ints (ex_world []) ! 1))" and wf: "addr_wf (in_linklocal (ints (ex_world []) ! 1))"
    by (simp_all add: ex_int_def, simp_all add: ex_addr_def IN6_IS_ADDR_LINKLOCAL_def)
  from mld1_report_roundtrip [OF wf _ ex_not_ignored w' pkt this(3) ex_default_ok _ _ _ ex_default_fields(3) this(1,2), of ex_env] ex_fits
  obtain v' where "l3_ipv6 ex_env 2 0 (of_nat (length pkt)) (ex_default pkt) = Inr v'"
    "membership v' = mem_report (ex_group 1) (in_ifindex (ints (ex_default pkt) ! 2)) in6addr_any MODE_INCLUDE
        (w_now (ex_default pkt)) (membership (ex_default pkt))"
    by (auto simp: l)
  with w' pkt show ?thesis by (fastforce simp: mem_report_def ex_int_def)
qed

lemma report_recs_addr:
  assumes "groups_ok (groups w)"
  shows "\<forall>a \<in> set (report_recs k mca (nodes (groups w))). group_addr a"
  using assms
  by (auto simp: report_recs_def group_recs_def gi_recs_def sub_recs_def groups_ok_def group_ok_def group_addr_def
      split: if_splits)

lemma in_use_mtu:
  assumes "tables_ok w" and "i < length (ints w)" and "in_mtu (ints w ! i) \<noteq> 0"
  shows "1280 \<le> unat (in_mtu (ints w ! i))" and "addr_wf (in_linklocal (ints w ! i))"
  using assms int_ok_nth [of w i] by (simp_all add: tables_ok_def int_ok_def word_le_nat_alt)

text \<open>
  C11: The same for MLDv2: when all subscriptions of the sender are for any source and fit one packet,
  the packet that \<open>mld2_send_report\<close> puts on the wire makes a receiver in the default or the MLDv2-only
  mode enter every group of the sender's records for the incoming interface, and nothing else. It does
  return when the receiver's own reports fit their packets.
\<close>

theorem mld2_report_roundtrip:
  assumes "tables_ok w" and "w_calloc w = []" and "i < length (ints w)" and "in_mtu (ints w ! i) \<noteq> 0"
    and "unat (in_mtu (ints w ! i)) < 65536" and "any_source (nodes (groups w))"
    and "recs = report_recs (in_ifindex (ints w ! i)) mca (nodes (groups w))" and "recs \<noteq> []"
    and "56 + 20 * length recs \<le> unat (in_mtu (ints w ! i))"
    and "mld2_send_report E i mca w = Inr w'" and "last (w_sent w') = (to, pkt)"
    and "IN6_IS_ADDR_LINKLOCAL (in_linklocal (ints w ! i))"
    and "tables_ok v" and "w_calloc v = []" and "\<not> mld1only v" and "j < length (ints v)" and "buffer v = pkt @ Z"
    and "in_linklocal (ints w ! i) \<noteq> in_linklocal (ints v ! j)" and "in_linklocal (ints w ! i) \<noteq> in_global (ints v ! j)"
  shows "(\<forall>v'. l3_ipv6 E' j 0 (of_nat (length pkt)) v = Inr v' \<longrightarrow> membership v' =
      fold (\<lambda>a. mem_report a (in_ifindex (ints v ! j)) in6addr_any MODE_INCLUDE (w_now v)) recs (membership v)) \<and>
    (reports_fit (in_ifindex (ints v ! j)) v \<longrightarrow> (\<exists>v'. l3_ipv6 E' j 0 (of_nat (length pkt)) v = Inr v'))"
proof -
  note use = in_use_mtu [OF assms(1,3,4)]
  have addr: "\<forall>a \<in> set recs. group_addr a"
    unfolding assms(7) by (rule report_recs_addr) (use assms(1) in \<open>simp add: tables_ok_def\<close>)
  have fit: "fits (unat (in_mtu (ints w ! i))) recs" using addr assms(9) by (simp add: fits_def group_addr_def)
  have small: "56 + 20 * length recs < 65536" using assms(5,9) by simp
  define p where "p = mld_packet (in_linklocal (ints w ! i)) all_routers ICMP6_V2_MEMBERSHIP_REPORT (report_msg recs)"
  have len: "length p = 56 + 20 * length recs"
    using mld_packet_ok(2) [OF use(2) addr_wf_all_routers, of "report_msg recs" ICMP6_V2_MEMBERSHIP_REPORT] small fit
    by (simp add: p_def report_msg_def fits_def)
  have "sent_one w i all_routers p w'"
    using mld2_send_report_content [OF use(2) assms(6) use(1) _ assms(7) fit calloc_Nil [OF assms(2)], of E]
      assms(5,8,10) by (auto simp: p_def)
  then have pkt: "pkt = p" using assms(11) by (simp add: sent_one_def)
  then have b: "buffer v = mld_packet (in_linklocal (ints w ! i)) all_routers ICMP6_V2_MEMBERSHIP_REPORT (report_msg recs) @ Z"
    using assms(17) by (simp add: p_def)
  note r = mld2_roundtrip [OF assms(14,16) use(2) addr small b assms(12,18,19), where E = E']
  have l: "length pkt = 56 + 20 * length recs" by (simp only: pkt len)
  show ?thesis unfolding l using r assms(13,14) by (auto simp: hears_def)
qed

theorem mld2_report_roundtrip_witness:
  "\<exists>pkt to w' v'. mld2_send_report ex_env 1 None (ex_world []) = Inr w' \<and> last (w_sent w') = (to, pkt) \<and>
     l3_ipv6 ex_env 2 0 (of_nat (length pkt)) (ex_default pkt) = Inr v' \<and>
     membership v' (ex_group 1) 2 in6addr_any =
       Some \<lparr>sb_ipv6 = in6addr_any, sb_mode = MODE_INCLUDE, sb_refreshtime = 1000\<rparr>"
proof -
  define n where "n = ex_int 1"
  have i: "ints (ex_world []) ! 1 = n" "nodes (groups (ex_world [])) = [ex_gr]" by (simp_all add: n_def)
  have f: "addr_wf (in_linklocal n)" "in_mtu n = 1500" "in_ifindex n = 1" "in_linklocal n = ex_ll 1"
    by (simp_all add: n_def ex_int_def)
  obtain w' where w': "mld2_send_report ex_env 1 None (ex_world []) = Inr w'"
    using mld2_send_report_content [of "ex_world []" 1 "[ex_group 1]" None "ex_world []" ex_env, unfolded i]
      ex_recs ex_any_source f by (auto simp: fits_def calloc_Nil)
  obtain to pkt where pkt: "last (w_sent w') = (to, pkt)" by (cases "last (w_sent w')")
  have ne: "ex_ll 1 \<noteq> in_linklocal (ex_int 2)" "ex_ll 1 \<noteq> in_global (ex_int 2)" "IN6_IS_ADDR_LINKLOCAL (ex_ll 1)"
    by (simp_all add: ex_int_def, simp_all add: ex_addr_def IN6_IS_ADDR_LINKLOCAL_def)
  have "(\<forall>v'. l3_ipv6 ex_env 2 0 (of_nat (length pkt)) (ex_default pkt) = Inr v' \<longrightarrow> membership v' =
      fold (\<lambda>a. mem_report a (in_ifindex (ints (ex_default pkt) ! 2)) in6addr_any MODE_INCLUDE (w_now (ex_default pkt)))
        [ex_group 1] (membership (ex_default pkt))) \<and>
    (reports_fit (in_ifindex (ints (ex_default pkt) ! 2)) (ex_default pkt) \<longrightarrow>
      (\<exists>v'. l3_ipv6 ex_env 2 0 (of_nat (length pkt)) (ex_default pkt) = Inr v'))"
    by (rule mld2_report_roundtrip [OF ex_tables_ok _ _ _ _ _ _ _ _ w' pkt _ ex_default_ok _ _ _ ex_default_fields(3)], unfold i)
      (simp_all add: f ex_recs ex_any_source ne)
  then obtain v' where "l3_ipv6 ex_env 2 0 (of_nat (length pkt)) (ex_default pkt) = Inr v'"
    "membership v' = fold (\<lambda>a. mem_report a (in_ifindex (ints (ex_default pkt) ! 2)) in6addr_any MODE_INCLUDE (w_now (ex_default pkt)))
        [ex_group 1] (membership (ex_default pkt))" using ex_fits by blast
  with w' pkt show ?thesis by (fastforce simp: mem_report_def ex_int_def)
qed

section \<open>Forwarding\<close>

text \<open>
  C3: \<open>l4_ipv6_multicast\<close> forwards a packet to exactly those who asked for it. For a packet that is
  routed at all, one unchanged copy goes to every interface of the packet's group, other than the
  incoming one, that is in use and has an including subscription for any source or for the source of
  the packet, in the order of the group's list, each to the Ethernet multicast address of the group;
  nothing else is sent, and the membership table is unchanged.
\<close>

theorem multicast_forwards_exactly:
  assumes "tables_ok w" and "indices_fit w" and "i < length (ints w)"
    and "iph + 40 \<le> length (buffer w)" and "iph + unat len \<le> length (buffer w)"
  shows "\<exists>w'. l4_ipv6_multicast E i iph len w = Inr w' \<and> tables_ok w' \<and> membership w' = membership w \<and>
    w_sent w' = w_sent w @ map (copy_for w iph len) (receivers w i iph)"
  by (rule multicast_spec [OF assms])

lemma ex_data_fields:
  "take 16 (drop (0 + 8) (buffer (ex_world ex_data))) = ex_global 7"
  "take 16 (drop (0 + 24) (buffer (ex_world ex_data))) = ex_group 1"
  "take 42 (buffer (ex_world ex_data)) = ex_data"
  by (simp_all add: ex_data_def ip6_hdr_def le16_bytes_def ex_addr_def)

lemma ex_routed: "\<not> not_routed (ex_global 7) (ex_group 1)"
  by code_simp

lemma ex_receivers: "receivers (ex_world ex_data) 1 0 = [ex_gi]"
  unfolding receivers_def ex_data_fields Let_def
  by (simp add: ex_routed group_find_def receives_def wants_def int_find_def IN6_ARE_ADDR_EQUAL_def ex_gr_def
      ex_gi_def ex_sub_def ex_int_def)

theorem multicast_forwards_exactly_witness:
  "\<exists>w'. l4_ipv6_multicast ex_env 1 0 42 (ex_world ex_data) = Inr w' \<and> map snd (w_sent w') = [ex_data]"
proof -
  have "indices_fit (ex_world ex_data)" by (simp add: indices_fit_def ex_gr_def ex_gi_def)
  with multicast_forwards_exactly [of "ex_world ex_data" 1 0 42 ex_env] ex_receivers ex_data_fields(3)
  show ?thesis by (auto simp: copy_for_def)
qed






section \<open>Limits\<close>

text \<open>
  C37: The payload length of the IPv6 header is believed: an interesting ICMPv6 message whose claimed
  length reaches behind the receive buffer makes the checksum read out of bounds.
\<close>

theorem payload_length_believed:
  assumes "iph + 40 \<le> length (buffer w)" and "m + 4 \<le> length (buffer w)" and "icmpv6_interesting (buffer w ! m)"
    and "length (buffer w) < m + unat plen"
  shows "l4_ipv6_icmpv6 E i iph len m plen w = Inl OutOfBounds"
proof -
  define w0 where "w0 = upd_int i (\<lambda>n. n\<lparr>in_icmp_received := in_icmp_received n + 1\<rparr>)
                 (w\<lparr>stat_icmp_received := stat_icmp_received w + 1\<rparr>)"
  have b: "buffer w0 = buffer w" by (simp add: w0_def)
  obtain c where c: "rd16 (buffer w) (m + 2) = Inr c" using rd16_Inr [of "m + 2" "buffer w"] assms(2) by auto
  obtain b0 where b0: "wr16 (buffer w) (m + 2) 0 = Inr b0" using assms(2) by (auto simp: wr16_def wr_def)
  then have "length b0 = length (buffer w)" by (simp add: wr16_def wr_length)
  then have "ipv6_checksum_at b0 iph IPPROTO_ICMPV6 m plen = Inl OutOfBounds"
    using assms(1,4) by (simp add: ipv6_checksum_at_def rd_def)
  then have "icmpv6_rechecksum iph m plen w0 = Inl OutOfBounds"
    using c b0 by (simp add: icmpv6_rechecksum_def b)
  moreover have "rd8 (buffer w0) m = Inr (buffer w ! m)" using assms(2) by (simp add: b rd8_Inr)
  ultimately show ?thesis using assms(3) by (simp add: l4_ipv6_icmpv6_def w0_def [symmetric] Let_def)
qed

theorem payload_length_believed_witness:
  "l4_ipv6_icmpv6 ex_env 1 0 80 40 65000 (ex_world (replicate 40 0 @ [131])) = Inl OutOfBounds"
  by (rule payload_length_believed) (simp_all add: nth_append icmpv6_interesting_def layout)

text \<open>A well-formed state in which a host asks for one source of a group, and another group follows.\<close>

definition ex_ssm :: world where
  "ex_ssm = (ex_world [])\<lparr>groups := \<lparr>nodes =
     [ex_gr\<lparr>gr_interfaces := \<lparr>nodes = [ex_gi\<lparr>gi_subscriptions :=
        \<lparr>nodes = [ex_sub\<lparr>sb_ipv6 := ex_global 5\<rparr>], count = 1\<rparr>\<rparr>], count = 1\<rparr>\<rparr>,
      ex_gr\<lparr>gr_mca := ex_group 2\<rparr>], count = 2\<rparr>\<rparr>"

text \<open>
  \<open>mld2_send_report\<close> writes behind its packet buffer in a well-formed state: the number of sources
  of a finished record is brought to network byte order before it is used to find the place of
  the next record, so that a source-specific subscription followed by another group puts the next
  record 4080 bytes too far.
\<close>

theorem mld2_send_report_overruns:
  "tables_ok ex_ssm \<and> mld2_send_report ex_env 1 None ex_ssm = Inl OutOfBounds"
proof
  have "ints_ok ex_ssm" using ex_ints_ok [of "[]"] by (rule ints_ok_frame) (simp_all add: ex_ssm_def)
  moreover have "groups_ok (groups ex_ssm)" by code_simp
  ultimately show "tables_ok ex_ssm" by (simp add: tables_ok_def)
  show "mld2_send_report ex_env 1 None ex_ssm = Inl OutOfBounds" by code_simp
qed

end
