(* ===== verification/Bpf_Props.thy ===== *)
theory Bpf_Props
  imports Bpf_Ends Wire_Props
begin

text \<open>
  Properties of the BPF build as a whole: its process keeps its invariant, a packet leaves on the devices
  of exactly the interfaces that want it, natively or in a tunnel, a report that one router sends into a
  tunnel subscribes the tunnel at the other end, and an interface that disappears ends the daemon.
\<close>

section \<open>The frames of a step\<close>

lemma writes_alive:
  assumes "\<And>pre t. env_sendto E pre t \<noteq> SendENXIO"
  shows "writes E pre ts b = (b, map (\<lambda>(sa, data). bpf_frame b (unat (sll_ifindex sa)) (take 4 (drop 2 (sll_addr sa)))
    (of_nat (length data)) data) ts)"
proof (induction ts arbitrary: pre)
  case (Cons t ts)
  obtain sa data where t: "t = (sa, data)" by fastforce
  have "(case env_sendto E pre t of SendENXIO \<Rightarrow> int_destroy_bpf i b | _ \<Rightarrow> b) = b" for i
    using assms [of pre t] by (cases "env_sendto E pre t") simp_all
  with Cons show ?case by (simp add: t Let_def)
qed simp

text \<open>An interface in use is found again by its index.\<close>

lemma in_use_index:
  assumes "bd_inv s" and "j < length (b_ints (bd_conf s))" and "in_mtu (b_ints (bd_conf s) ! j) \<noteq> 0"
  shows "unat (sll_ifindex (link_addr (ints (common s) ! j) last4)) = j"
proof -
  have ok: "bint_ok j (b_ints (bd_conf s) ! j)" and n: "length (b_ints (bd_conf s)) \<le> 2 ^ 32"
    using assms(1,2) by (simp_all add: bd_inv_def bints_ok_def)
  then have "in_ifindex (b_ints (bd_conf s) ! j) = of_nat j" using assms(3) by (simp add: bint_ok_def int_ok_def)
  moreover have "j < 2 ^ 32" using assms(2) n by simp
  ultimately show ?thesis
    using assms(2) by (simp add: link_addr_def unsigned_ucast_eq unsigned_of_nat take_bit_nat_eq_self take_bit_take_bit)
qed

lemma mcast_mac_end [simp]: "length last4 = 4 \<Longrightarrow> take 4 (drop 2 (sll_addr (link_addr n last4))) = last4"
  by (simp add: link_addr_def mcast_mac_def)

text \<open>A step that sends one packet writes one frame, whatever the system answers.\<close>

lemma run_common_one:
  assumes "bd_inv s" and "j < length (b_ints (bd_conf s))" and "in_mtu (b_ints (bd_conf s) ! j) \<noteq> 0"
    and "f (common s) = Inr w" and "w_sent w = w_sent (common s) @ [(link_addr (ints (common s) ! j) last4, pkt)]"
    and "length last4 = 4"
  shows "\<exists>s'. run_common E f s = Inr s' \<and>
    bd_frames s' = bd_frames s @ [bpf_frame (bd_conf s) j last4 (of_nat (length pkt)) pkt] \<and>
    (env_sendto E (w_sent (common s)) (link_addr (ints (common s) ! j) last4, pkt) = SendENXIO \<longrightarrow>
      b_closed (bd_conf s') = b_closed (int_destroy_bpf j (bd_conf s)) \<and> b_selectset (bd_conf s') = b_selectset (bd_conf s))"
proof -
  have "b_selectset (int_destroy_bpf j (bd_conf s)) = b_selectset (bd_conf s)" by (simp add: int_destroy_bpf_def Let_def)
  with assms in_use_index [OF assms(1-3), of last4] show ?thesis
    by (simp add: run_common_def write_back_def Let_def put_common_def split: prod.split)
qed

section \<open>The process\<close>

text \<open>
  While there is memory, a device is free and the system answers nothing that does not fit, the start does
  not fail.
\<close>

lemma run_common_total: "\<exists>w. f (common s) = Inr w \<Longrightarrow> \<exists>s'. run_common E f s = Inr s'"
  by (auto simp: run_common_def)

lemma querys_bpf_total:
  assumes "bd_inv s"
  shows "\<exists>s'. run_common E (send_mld_querys E) s = Inr s'"
  using common_tables [OF assms] send_mld_querys_total [of "common s" E]
  by (intro run_common_total) (simp add: tables_ok_def)

lemma main_start_bpf_total:
  assumes "fresh s" and "b_calloc (bd_conf s) = []" and "ipv4_env_ok E S" and "discovery_ok E" and "devices_free fuel S"
    and "sys_fits S"
  shows "\<exists>s'. main_start_bpf fuel E S True s = Some (Inr s')"
proof -
  let ?b = "(bd_conf s)\<lparr>b_buffer := replicate (unat (b_bufferlen (bd_conf s))) 0\<rparr>"
  have a: "b_alloc (bd_conf s) = (True, bd_conf s)" using assms(2) by simp
  have inv: "bd_inv (s\<lparr>bd_conf := ?b\<rparr>)" by (rule fresh_buffer [OF assms(1) a])
  then have "\<exists>b'. update_interfaces_bpf fuel E S ?b = Some (Inr b')"
    using assms(2-6) by (intro update_interfaces_bpf_run(2)) (simp_all add: bd_inv_def ipv4_env_ok_def)
  then obtain b' where b': "update_interfaces_bpf fuel E S ?b = Some (Inr b')" by blast
  have "bd_inv (s\<lparr>bd_conf := b'\<rparr>)" using update_interfaces_bpf_inv [OF inv assms(3), of fuel b'] b' by simp
  from querys_bpf_total [OF this, of E] b' a show ?thesis by (auto simp: main_start_bpf_def)
qed

lemma main_boot_bpf_total:
  assumes "init_bpf now [] = Inr s0" and "handle_options_bpf getpwnam opts (s0, (0, 0)) = Inr (s1, ids)"
    and "ipv4_env_ok E S" and "discovery_ok E" and "devices_free fuel S" and "sys_fits S"
  shows "\<exists>s. main_boot_bpf fuel E S getpwnam opts True now [] = Some (Inr s)"
proof -
  have "fresh s1 \<and> b_calloc (bd_conf s1) = []"
    using handle_options_bpf_fresh [OF init_bpf_fresh(1) [OF assms(1)] assms(2)] init_bpf_fresh(2) [OF assms(1)] by simp
  with main_start_bpf_total [of s1] assms show ?thesis by (auto simp: main_boot_bpf_def)
qed

text \<open>
  C20: In the BPF build too, the tables of the daemon are well-formed at every moment. From the start of
  \<open>main\<close> with any options, through any sequence of signals, clock changes, timeouts and rounds of the
  loop, in which any descriptors are ready and any bytes are read, the interface array and the tables of
  groups keep their invariant, the devices in the select set are below \<open>hifd\<close>, every interface has its
  five IPv4 addresses, and the buffer has its length and room for a read of every device, as long as
  the process runs.
\<close>

theorem bpf_daemon_always_ok:
  assumes "ipv4_env_ok E S" and "main_boot_bpf fuel E S getpwnam opts dumpfile now cs = Some (Inr s)"
    and "\<forall>(B, e) \<in> set es. ipv4_env_ok (be_env B) (be_sys B)"
    and "ofold (daemon_step_bpf rounds fuel) es s = Some (Inr s')"
  shows "bd_inv (fst s')"
proof -
  have s: "bd_inv (fst s)" using main_boot_bpf_inv(1) [OF assms(1), of fuel getpwnam opts dumpfile now cs "fst s" "snd s"] assms(2) by simp
  show ?thesis
    using assms(4,3) s
  proof (induction es arbitrary: s)
    case (Cons e es)
    then obtain s1 where s1: "daemon_step_bpf rounds fuel e s = Some (Inr s1)" "ofold (daemon_step_bpf rounds fuel) es s1 = Some (Inr s')"
      by auto
    have "ipv4_env_ok (be_env (fst e)) (be_sys (fst e))" using Cons.prems(2) by (cases e) auto
    then have "bd_inv (fst s1)"
      using daemon_step_bpf_inv [OF Cons.prems(3), of e rounds fuel "snd s" "fst s1" "snd s1"] s1(1) by simp
    with Cons.IH [OF s1(2)] Cons.prems(2) show ?case by simp
  qed simp
qed

definition ex_bpf_env :: bpf_env where
  "ex_bpf_env = \<lparr>be_env = ex_benv, be_sys = (\<lambda>_. ex_sys), be_select = (\<lambda>_ _. SelReady []), be_read = (\<lambda>_. None),
     be_caplen = (\<lambda>_ _. 0), be_hdrlen = (\<lambda>_ _. 18), be_align = id\<rparr>"

lemma ex_ipv4_env_ok: "ipv4_env_ok ex_benv (\<lambda>_. ex_sys)"
  using ex_benv_ok(2) by (simp add: ipv4_env_ok_def env_ok_def ifa_ok_def sa_ok_def ex_benv_def ex_sys_def)

theorem bpf_daemon_always_ok_witness:
  "\<exists>s s'. main_boot_bpf 2 ex_benv (\<lambda>_. ex_sys) (\<lambda>_. None) [Opt_t, BOpt Opt_1] True 1000 [] = Some (Inr s) \<and>
     ofold (daemon_step_bpf 1 2) [(ex_bpf_env, BClock 2000), (ex_bpf_env, BSigTerm), (ex_bpf_env, BRound)] s = Some (Inr s') \<and>
     bd_inv (fst s')"
proof -
  obtain s0 where s0: "init_bpf 1000 [] = Inr s0" by (simp add: init_bpf_def bpf_blank_def)
  have "\<exists>s1 ids. handle_options_bpf (\<lambda>_. None) [Opt_t, BOpt Opt_1] (s0, (0, 0)) = Inr (s1, ids)"
    by (simp add: handle_option_bpf_def handle_option_def)
  then obtain s where s: "main_boot_bpf 2 ex_benv (\<lambda>_. ex_sys) (\<lambda>_. None) [Opt_t, BOpt Opt_1] True 1000 [] = Some (Inr s)"
    using main_boot_bpf_total [OF s0 _ ex_ipv4_env_ok ex_benv_ok(1,3,4)] by blast
  let ?es = "[(ex_bpf_env, BClock 2000), (ex_bpf_env, BSigTerm), (ex_bpf_env, BRound)]"
  have "\<exists>s'. ofold (daemon_step_bpf 1 2) ?es s = Some (Inr s')"
    by (cases s) (simp add: main_round_bpf_def cleanpid_def)
  then obtain s' where s': "ofold (daemon_step_bpf 1 2) ?es s = Some (Inr s')" by blast
  have "\<forall>(B, e) \<in> set ?es. ipv4_env_ok (be_env B) (be_sys B)" using ex_ipv4_env_ok by (simp add: ex_bpf_env_def)
  from bpf_daemon_always_ok [OF ex_ipv4_env_ok s this s'] s s' show ?thesis by blast
qed

section \<open>Forwarding\<close>

text \<open>
  C23: In the BPF build a packet leaves on exactly the interfaces whose hosts want it. For a packet that is
  routed at all, and while no device disappears, one frame is written for every other interface in use
  with an including subscription for any source or for the source of the packet, in the order of the
  group's list: natively on its own device, or, when it is a tunnel, in an IPv4 packet on the device of
  its master. The membership table is unchanged.
\<close>

theorem bpf_multicast_frames:
  assumes "bd_inv s" and "indices_fit (common s)" and "i < length (b_ints (bd_conf s))"
    and "iph + 40 \<le> length (b_buffer (bd_conf s))" and "iph + unat len \<le> length (b_buffer (bd_conf s))"
    and "\<forall>pre t. env_sendto E pre t \<noteq> SendENXIO"
  shows "\<exists>s'. run_common E (l4_ipv6_multicast E i iph len) s = Inr s' \<and> membership (common s') = membership (common s) \<and>
    bd_frames s' = bd_frames s @ map (\<lambda>gi. bpf_frame (bd_conf s) (unat (ucast (gi_ifindex gi) :: u32))
        (take 4 (drop (iph + 36) (b_buffer (bd_conf s)))) len (take (unat len) (drop iph (b_buffer (bd_conf s)))))
      (receivers (common s) i iph)"
proof -
  let ?c = "common s" and ?buf = "b_buffer (bd_conf s)"
  let ?last4 = "take 4 (drop (iph + 36) ?buf)" and ?data = "take (unat len) (drop iph ?buf)"
  obtain w where w: "l4_ipv6_multicast E i iph len ?c = Inr w" "membership w = membership ?c"
    "w_sent w = w_sent ?c @ map (copy_for ?c iph len) (receivers ?c i iph)"
    using multicast_spec [OF common_tables [OF assms(1)] assms(2), of i iph len E] assms(3-5) by auto
  have last4: "length ?last4 = 4" and data: "length ?data = unat len" using assms(4,5) by simp_all
  have frame: "(case copy_for ?c iph len gi of (sa, data) \<Rightarrow>
      bpf_frame (bd_conf s) (unat (sll_ifindex sa)) (take 4 (drop 2 (sll_addr sa))) (of_nat (length data)) data) =
    bpf_frame (bd_conf s) (unat (ucast (gi_ifindex gi) :: u32)) ?last4 len ?data"
    if gi: "gi \<in> set (receivers ?c i iph)" for gi
  proof -
    let ?j = "unat (ucast (gi_ifindex gi) :: u32)"
    obtain j where j: "int_find (ucast (gi_ifindex gi)) ?c = Some j"
      using gi by (auto simp: receivers_def receives_def Let_def split: if_splits option.splits)
    have ok: "ints_ok ?c" using common_tables [OF assms(1)] by (simp add: tables_ok_def)
    note f = int_find_Some [OF ok j]
    have "unat (sll_ifindex (link_addr (ints ?c ! ?j) ?last4)) = ?j"
      using f(1-3) by (intro in_use_index [OF assms(1)]) simp_all
    then show ?thesis using last4 data by (simp add: copy_for_def)
  qed
  have "map (\<lambda>(sa, data). bpf_frame (bd_conf s) (unat (sll_ifindex sa)) (take 4 (drop 2 (sll_addr sa))) (of_nat (length data)) data)
      (map (copy_for ?c iph len) (receivers ?c i iph)) =
    map (\<lambda>gi. bpf_frame (bd_conf s) (unat (ucast (gi_ifindex gi) :: u32)) ?last4 len ?data) (receivers ?c i iph)"
    using frame by simp
  then have wr: "writes E (w_sent ?c) (map (copy_for ?c iph len) (receivers ?c i iph)) (bd_conf s) = (bd_conf s,
      map (\<lambda>gi. bpf_frame (bd_conf s) (unat (ucast (gi_ifindex gi) :: u32)) ?last4 len ?data) (receivers ?c i iph))"
    using writes_alive [of E] assms(6) by simp
  have "membership (common \<lparr>bd_conf = put_common w (bd_conf s), bd_rest = w, bd_frames = fs\<rparr>) = membership w" for fs
    by (rule membership_cong) simp
  with w wr show ?thesis by (simp add: run_common_def write_back_def Let_def)
qed

text \<open>The router of \<open>Examples\<close> with its second interface as a tunnel over the first.\<close>

definition ex_tun :: "u8 \<Rightarrow> bytes \<Rightarrow> bytes \<Rightarrow> bpf_int" where
  "ex_tun z here there = put_int ((ex_int 2)\<lparr>in_linklocal := ex_ll z\<rparr>) (ex_bint\<lparr>bi_master := Some 1,
     bi_ipv4_local := [here, ipv4_any, ipv4_any, ipv4_any], bi_ipv4_remote := there\<rparr>)"

definition ex_bstate :: "u8 \<Rightarrow> bytes \<Rightarrow> bytes \<Rightarrow> bytes \<Rightarrow> bpf_state" where
  "ex_bstate z here there pkt = \<lparr>bd_conf = (bpf_blank 1000 [])
     \<lparr>b_ints := [bint_zero, put_int (ex_int 1) ex_bint, ex_tun z here there],
      b_maxinterfaces := 3, b_tunnelmode := True, b_buffer := pkt @ replicate 2000 0,
      b_bufferlen := of_nat (length pkt + 2000)\<rparr>,
    bd_rest = ex_world [], bd_frames = []\<rparr>"

lemma ex_bstate_fields [simp]:
  "b_ints (bd_conf (ex_bstate z here there pkt)) = [bint_zero, put_int (ex_int 1) ex_bint, ex_tun z here there]"
  "b_maxinterfaces (bd_conf (ex_bstate z here there pkt)) = 3" "b_tunnelmode (bd_conf (ex_bstate z here there pkt))"
  "b_buffer (bd_conf (ex_bstate z here there pkt)) = pkt @ replicate 2000 0" "b_calloc (bd_conf (ex_bstate z here there pkt)) = []"
  "b_now (bd_conf (ex_bstate z here there pkt)) = 1000" "b_locals (bd_conf (ex_bstate z here there pkt)) = cl_new"
  "bd_rest (ex_bstate z here there pkt) = ex_world []" "bd_frames (ex_bstate z here there pkt) = []"
  by (simp_all add: ex_bstate_def bpf_blank_def)

lemma put_int_common [simp]:
  "in_mtu (put_int n m) = in_mtu n" "in_linklocal (put_int n m) = in_linklocal n" "in_global (put_int n m) = in_global n"
  "in_ifindex (put_int n m) = in_ifindex n"
  by (cases n; simp add: put_int_def intnode.extend_def)+

lemma ex_bstate_ints: "ints (common (ex_bstate 2 here there pkt)) = ints (ex_world pkt)"
proof -
  have "intnode.truncate bint_zero = int_zero" by (simp add: bint_zero_def int_zero_def intnode.defs)
  then show ?thesis by (simp add: ex_tun_def ex_int_def)
qed

lemma ex_bstate_inv:
  assumes "length here = 4" and "length there = 4" and "length pkt < 2 ^ 32"
  shows "bd_inv (ex_bstate z here there pkt)"
proof -
  have "bint_ok i (b_ints (bd_conf (ex_bstate z here there pkt)) ! i)" if "i < 3" for i
  proof -
    have "i = 0 \<or> i = 1 \<or> i = 2" using that by linarith
    then show ?thesis
      using ex_int_ok assms(1,2) bint_zero_bint_ok(2) [of 0]
      by (elim disjE) (simp_all add: bint_ok_def ex_bint_def ex_tun_def ipv4_any_def INTNODE_MAXIPV4_def, simp add: int_ok_def)
  qed
  moreover have "length (b_buffer (bd_conf (ex_bstate z here there pkt))) = unat (b_bufferlen (bd_conf (ex_bstate z here there pkt)))"
  proof -
    have "unat (of_nat (length pkt + 2000) :: u64) = length pkt + 2000"
      using assms(3) by (simp only: unsigned_of_nat) (simp add: take_bit_nat_eq_self)
    then show ?thesis by (simp add: ex_bstate_def bpf_blank_def)
  qed
  ultimately show ?thesis
    by (simp add: bd_inv_def bpf_ok_def bints_ok_def bint_zero_ok ex_bint_def ex_tun_def INTNODE_MAXIPV4_def)
      (simp add: ex_bstate_def bpf_blank_def)
qed

theorem bpf_multicast_frames_witness:
  "\<exists>s'. run_common ex_env (l4_ipv6_multicast ex_env 1 0 42) (ex_bstate 2 [10, 0, 0, 1] [10, 0, 0, 2] ex_data) = Inr s' \<and>
     bd_frames s' = [bpf_frame (bd_conf (ex_bstate 2 [10, 0, 0, 1] [10, 0, 0, 2] ex_data)) 2 [0, 0, 0, 1] 42 ex_data]"
proof -
  let ?s = "ex_bstate 2 [10, 0, 0, 1] [10, 0, 0, 2] ex_data"
  have len: "length ex_data = 42" by (simp add: ex_data_def)
  have inv: "bd_inv ?s" by (rule ex_bstate_inv) (simp_all add: len)
  have rc: "receives (common ?s) = receives (ex_world ex_data)"
    unfolding receives_def int_find_def ex_bstate_ints by simp
  have "receivers (common ?s) 1 0 = receivers (ex_world ex_data) 1 0"
    unfolding receivers_def rc common_fields ex_bstate_fields ex_world_fields by (rule refl)
  with ex_receivers have r: "receivers (common ?s) 1 0 = [ex_gi]" by (rule trans [rotated])
  have fit: "indices_fit (common ?s)" by (simp add: indices_fit_def ex_gr_def ex_gi_def)
  have alive: "\<forall>pre t. env_sendto ex_env pre t \<noteq> SendENXIO" by (simp add: ex_env_def)
  have "take 4 (drop 36 ex_data) = [0, 0, 0, 1]" "take 42 (ex_data @ Z) = ex_data" "drop 36 ex_data @ Z = [0, 0, 0, 1, 1, 2] @ Z" for Z
    by (simp_all add: ex_data_def ip6_hdr_def le16_bytes_def ex_addr_def numeral_3_eq_3)
  moreover have "unat (ucast (gi_ifindex ex_gi) :: u32) = 2" by (simp add: ex_gi_def)
  ultimately show ?thesis using bpf_multicast_frames [OF inv fit, of 1 0 42 ex_env] alive r len by auto
qed

section \<open>Every step ends\<close>

text \<open>
  C21: The BPF build never hangs. Whatever happens, a signal, a change of the clock or a round of the
  main loop with a timeout and any number of ready devices, the daemon is done with it after finitely
  many steps, when every search for a device meets one that is not busy and the headers that the system
  puts before packets are sane. Two rounds of the loop over packets suffice, and \<open>2 ^ 32 + 1\<close> of the one
  over interfaces.
\<close>

theorem bpf_steps_end:
  assumes "bd_inv s" and "ipv4_env_ok (be_env B) (be_sys B)" and "devices_free fuel (be_sys B)" and "headers_ok B"
    and "2 \<le> fuel" and "2 ^ 32 < rounds"
  shows "daemon_step_bpf rounds fuel (B, e) (s, q) \<noteq> None"
proof (cases e)
  case BRound
  have sys: "sys_ok (be_sys B)" using assms(2) by (simp add: ipv4_env_ok_def)
  have t: "run_timeout_bpf fuel B s \<noteq> None"
    by (simp add: run_timeout_bpf_def obind_None timeout_bpf_ends [OF assms(3) sys] del: not_None_eq)
  have "handleinterfaces_bpf rounds fuel B s1 \<noteq> None" if "run_timeout_bpf fuel B s = Some (Inr s1)" for s1
  proof -
    have "bd_inv s1"
      using that assms(1) timeout_bpf_inv [OF assms(1,2)] by (auto simp: run_timeout_bpf_def intro: bd_inv_cong split: if_splits)
    from handle_ready_ends [OF this assms(2-5), of 0 rounds] assms(6) show ?thesis
      by (simp add: handleinterfaces_bpf_def del: not_None_eq split: sel_res.split list.split)
  qed
  with t have "main_round_bpf rounds fuel B (s, q) \<noteq> None"
    by (auto simp add: main_round_bpf_def obind_None simp del: not_None_eq)
  with BRound show ?thesis by simp
qed simp_all

theorem bpf_steps_end_witness:
  "daemon_step_bpf (2 ^ 32 + 1) 2 (ex_bpf_env, BRound) (ex_bstate 2 [10, 0, 0, 1] [10, 0, 0, 2] ex_data, False) \<noteq> None"
proof -
  have "bd_inv (ex_bstate 2 [10, 0, 0, 1] [10, 0, 0, 2] ex_data)" by (rule ex_bstate_inv) (simp_all add: ex_data_def)
  moreover have "headers_ok ex_bpf_env" by (simp add: headers_ok_def ex_bpf_env_def)
  moreover have "ipv4_env_ok (be_env ex_bpf_env) (be_sys ex_bpf_env)" "devices_free 2 (be_sys ex_bpf_env)"
    using ex_ipv4_env_ok ex_benv_ok(3) by (simp_all add: ex_bpf_env_def)
  ultimately show ?thesis by (intro bpf_steps_end) simp_all
qed

section \<open>Through a tunnel\<close>

abbreviation report_packet_of :: "in6_addr \<Rightarrow> in6_addr \<Rightarrow> bytes" where
  "report_packet_of ll mca \<equiv> mld_packet ll mca ICMP6_MEMBERSHIP_REPORT (le16_bytes 0 @ [0, 0] @ mca)"

lemma mld1_report_frame:
  assumes "bd_inv s" and "i < length (b_ints (bd_conf s))" and "in_mtu (b_ints (bd_conf s) ! i) \<noteq> 0"
    and "ll = in_linklocal (b_ints (bd_conf s) ! i)" and "addr_wf mca"
    and "run_common E (mld1_send_report E i mca) s = Inr s'"
  shows "last (bd_frames s') = bpf_frame (bd_conf s) i (drop 12 mca) 72 (report_packet_of ll mca)"
    and "length (report_packet_of ll mca) = 72" and "addr_wf ll"
proof -
  let ?p = "report_packet_of ll mca"
  have "bint_ok i (b_ints (bd_conf s) ! i)" using assms(1,2) by (simp add: bd_inv_def bints_ok_def)
  then show ll: "addr_wf ll" by (simp add: bint_ok_def int_ok_def assms(4))
  have p: "length ?p = 72" "take 4 (drop 36 ?p) = drop 12 mca"
    using mld_packet_ok(2,5) [OF ll assms(5), of "le16_bytes 0 @ [0, 0] @ mca" ICMP6_MEMBERSHIP_REPORT] assms(5)
    by (simp_all add: addr_wf_def)
  show "length ?p = 72" by (rule p)
  obtain w where w: "mld1_send_report E i mca (common s) = Inr w"
    using assms(6) by (auto simp: run_common_def)
  have lls: "in_linklocal (ints (common s) ! i) = ll" using assms(2) by (simp add: assms(4))
  obtain u where u: "sendpacket6 E i ?p 0 72 (common s) = Inr u" "w = count_icmp_sent i u"
    using w mld1_send_report_eq [of "common s" i mca E] ll assms(5) unfolding lls by auto
  have "w_sent w = w_sent (common s) @ [(link_addr (ints (common s) ! i) (drop 12 mca), ?p)]"
    using sendpacket6_sends(2) [OF u(1)] u(2) p by (simp add: count_icmp_sent_def)
  from run_common_one [where f = "mld1_send_report E i mca" and E = E, OF assms(1-3) w this] assms(5,6) p(1)
  show "last (bd_frames s') = bpf_frame (bd_conf s) i (drop 12 mca) 72 ?p" by (auto simp: addr_wf_def)
qed

text \<open>
  C22: What one router reports into a tunnel, the router at its other end understands. The frame that the
  MLDv1 report for a group makes the sender write for a tunnel may lie anywhere in the buffer of the
  receiver: when that has a tunnel to the sender, and does not have the sender's IPv4 address itself,
  \<open>l2_eth\<close> takes the report out of the tunnel, through all layers to its handler, and enters the group
  for the tunnel, on whatever device the frame arrived, and nothing else. The receiver may be in any mode
  but MLDv2-only. It does return when it is in the MLDv1-only mode, or when the reports that it sends
  itself fit their packets.
\<close>

theorem tunnelled_report_subscribes:
  assumes "bd_inv s" and "i < length (b_ints (bd_conf s))" and "in_mtu (b_ints (bd_conf s) ! i) \<noteq> 0"
    and "b_tunnelmode (bd_conf s)" and "bi_master (b_ints (bd_conf s) ! i) = Some m"
    and "src = bi_ipv4_local (b_ints (bd_conf s) ! i) ! 0" and "ll = in_linklocal (b_ints (bd_conf s) ! i)"
    and "src \<noteq> ipv4_6to4_relay" and "bi_ipv4_remote (b_ints (bd_conf s) ! i) \<noteq> ipv4_6to4_relay"
    and "IN6_IS_ADDR_LINKLOCAL ll" and "addr_wf mca" and "\<not> mld1_ignored mca"
    and "run_common E (mld1_send_report E i mca) s = Inr s'" and "last (bd_frames s') = (sock, frame)"
    and "bd_inv r" and "b_tunnelmode (bd_conf r)" and "local_find src (bd_conf r) = None"
    and "int_find_ipv4 False src (bd_conf r) = Some tun" and "\<not> mld2only (bd_rest r)" and "b_calloc (bd_conf r) = []"
    and "ll \<noteq> in_linklocal (b_ints (bd_conf r) ! tun)" and "ll \<noteq> in_global (b_ints (bd_conf r) ! tun)"
    and "b_buffer (bd_conf r) = pre @ frame @ Z"
  shows "(\<forall>r'. l2_eth_bpf fuel E' S k (length pre, of_nat (length frame)) r = Some (Inr r') \<longrightarrow>
      membership (common r') = mem_report mca (in_ifindex (b_ints (bd_conf r) ! tun)) in6addr_any MODE_INCLUDE
        (b_now (bd_conf r)) (membership (common r))) \<and>
    (mld1only (bd_rest r) \<or> reports_fit (in_ifindex (b_ints (bd_conf r) ! tun)) (common r) \<longrightarrow>
      (\<exists>r'. l2_eth_bpf fuel E' S k (length pre, of_nat (length frame)) r = Some (Inr r')))"
proof -
  define p where "p = report_packet_of ll mca"
  let ?dst = "bi_ipv4_remote (b_ints (bd_conf s) ! i)"
  note sent = mld1_report_frame [OF assms(1-3,7,11,13), folded p_def]
  have "bint_ok i (b_ints (bd_conf s) ! i)" using assms(1,2) by (simp add: bd_inv_def bints_ok_def)
  then have wf: "length src = 4" "length ?dst = 4"
    by (auto simp: bint_ok_def assms(6) list_all_length INTNODE_MAXIPV4_def)
  have last4: "length (drop 12 mca) = 4" using assms(11) by (simp add: addr_wf_def)
  have frame: "(sock, frame) = bpf_frame (bd_conf s) i (drop 12 mca) 72 p" using sent(1) assms(14) by simp
  define c where "c = finish_chksum (ucast (inchksum (proto41_header 72 0 src ?dst)))"
  have f: "frame = eth_header (drop 12 mca) ETH_P_IP @ proto41_header 72 c src ?dst @ p"
    using frame assms(4,5) by (simp add: bpf_frame_def Let_def c_def assms(6))
  note t = tunnel_frame [OF last4 wf refl _ assms(8,9,16-18) f assms(23), simplified, OF sent(2)]
  have tun: "tun < length (b_ints (bd_conf r))"
    using int_find_ipv4_remote(1) [OF assms(18)] assms(15) by (simp add: bd_inv_def bpf_ok_def)
  have "frame @ Z = take 34 frame @ p @ Z" using t(4) append_take_drop_id [of 34 frame] by (metis append.assoc)
  then have buf: "buffer (common r) = (pre @ take 34 frame) @ p @ Z" using assms(23) by simp
  have n: "length (pre @ take 34 frame) = length pre + 34" using t(3) by simp
  have tun': "tun < length (ints (common r))" "w_calloc (common r) = []" using tun assms(20) by simp_all
  have own: "ll \<noteq> in_linklocal (ints (common r) ! tun)" "ll \<noteq> in_global (ints (common r) ! tun)"
    using assms(21,22) tun by simp_all
  note v = mld1_roundtrip [OF tun'(2,1) sent(3) assms(11) n buf [unfolded p_def] assms(12,10) own, where E = E']
  have step: "l2_eth_bpf fuel E' S k (length pre, of_nat (length frame)) r = Some (run_common E'
      (l2_ethtype E' tun (length pre + 34) 72 (ucast ETH_P_IPV6)) r)"
    using t(1,2) by (simp add: l2_eth_bpf_def l2_ethtype_bpf_def)
  have l2: "l2_ethtype E' tun (length pre + 34) 72 (ucast ETH_P_IPV6) (common r) = l3_ipv6 E' tun (length pre + 34) 72 (common r)"
    by (simp add: l2_ethtype_def layout)
  have "groups (common (write_back E' v r)) = groups v" for v
    by (simp add: write_back_def Let_def split: prod.split)
  then have mem: "membership (common (write_back E' v r)) = membership v" for v by (rule membership_cong)
  have "hears (in_ifindex (ints (common r) ! tun)) (common r)"
    if "mld1only (bd_rest r) \<or> reports_fit (in_ifindex (b_ints (bd_conf r) ! tun)) (common r)"
    using that common_tables [OF assms(15)] tun tun' by (simp add: hears_def)
  then show ?thesis
    unfolding step run_common_def l2 using v tun mem by auto
qed

text \<open>The router at the other end, in the default mode.\<close>

definition ex_receiver :: "bytes \<Rightarrow> bpf_state" where
  "ex_receiver frame = (ex_bstate 2 [10, 0, 0, 2] [10, 0, 0, 1] frame)\<lparr>bd_rest := ex_default []\<rparr>"

lemma ex_receiver_fields [simp]:
  "bd_conf (ex_receiver frame) = bd_conf (ex_bstate 2 [10, 0, 0, 2] [10, 0, 0, 1] frame)"
  "bd_rest (ex_receiver frame) = ex_default []"
  by (simp_all add: ex_receiver_def)

lemma ex_receiver_fits: "reports_fit k (common (ex_receiver frame))"
proof -
  have "ints (common (ex_receiver frame)) = ints (ex_default [])"
    using ex_bstate_ints [of "[10, 0, 0, 2]" "[10, 0, 0, 1]" frame] by simp
  moreover have "membership (common (ex_receiver frame)) = membership (ex_default [])"
    by (rule membership_cong) (simp del: ex_default_fields)
  ultimately show ?thesis using ex_fits [of k "[]"] unfolding reports_fit_def by metis
qed

theorem tunnelled_report_subscribes_witness:
  "\<exists>s' sock frame r'. run_common ex_env (mld1_send_report ex_env 2 (ex_group 1)) (ex_bstate 7 [10, 0, 0, 1] [10, 0, 0, 2] []) = Inr s' \<and>
     last (bd_frames s') = (sock, frame) \<and>
     l2_eth_bpf 1 ex_benv (\<lambda>_. ex_sys) 1 (0, of_nat (length frame)) (ex_receiver frame) = Some (Inr r') \<and>
     membership (common r') (ex_group 1) 2 in6addr_any =
       Some \<lparr>sb_ipv6 = in6addr_any, sb_mode = MODE_INCLUDE, sb_refreshtime = 1000\<rparr>"
proof -
  let ?s = "ex_bstate 7 [10, 0, 0, 1] [10, 0, 0, 2] []"
  have s: "bd_inv ?s" by (rule ex_bstate_inv) simp_all
  have tun: "in_linklocal (ex_tun z h t) = ex_ll z" "in_mtu (ex_tun z h t) = 1500" "in_ifindex (ex_tun z h t) = 2"
    "in_global (ex_tun z h t) = ex_global 2" "bi_master (ex_tun z h t) = Some 1" "bi_ipv4_remote (ex_tun z h t) = t"
    "bi_ipv4_local (ex_tun z h t) ! 0 = h" for z h t
    by (simp_all add: ex_tun_def ex_int_def)
  obtain w pkt where w: "mld1_send_report ex_env 2 (ex_group 1) (common ?s) = Inr w"
    and o: "sent_one (common ?s) 2 (ex_group 1) pkt w" and len: "length pkt = 72"
    using mld1_send_report_spec [of "common ?s" 2 "ex_group 1" ex_env] tun(1) by auto
  have last4: "length (drop 12 (ex_group 1)) = 4" by (simp add: ex_addr_def)
  have "\<exists>s'. run_common ex_env (mld1_send_report ex_env 2 (ex_group 1)) ?s = Inr s' \<and>
      bd_frames s' = [bpf_frame (bd_conf ?s) 2 (drop 12 (ex_group 1)) 72 pkt]"
    using run_common_one [where f = "mld1_send_report ex_env 2 (ex_group 1)" and E = ex_env and j = 2 and pkt = pkt
        and ?last4.0 = "drop 12 (ex_group 1)", OF s _ _ w _ last4] o len tun(2)
    by (auto simp: sent_one_def)
  then obtain s' where s': "run_common ex_env (mld1_send_report ex_env 2 (ex_group 1)) ?s = Inr s'"
    "bd_frames s' = [bpf_frame (bd_conf ?s) 2 (drop 12 (ex_group 1)) 72 pkt]" by blast
  obtain sock frame where f: "bpf_frame (bd_conf ?s) 2 (drop 12 (ex_group 1)) 72 pkt = (sock, frame)" by fastforce
  then have "length frame = 106"
    by (auto simp: bpf_frame_def Let_def tun eth_header_def proto41_header_def len ex_addr_def)
  then have "bd_inv (ex_bstate 2 [10, 0, 0, 2] [10, 0, 0, 1] frame)" by (intro ex_bstate_inv) simp_all
  then have r: "bd_inv (ex_receiver frame)" by (simp add: bd_inv_def ex_default_def)
  let ?r = "ex_receiver frame"
  have "[0..<3] = [0, 1, 2 :: nat]" by code_simp
  moreover have "in_mtu bint_zero = 0" by (simp add: bint_zero_def int_zero_def intnode.defs)
  moreover have "\<not> ipv4_scan False [10, 0, 0, 1] ipv4_any as" for as by (cases as) (simp_all add: ipv4_any_def)
  moreover have "bi_ipv4_remote (put_int (ex_int 1) ex_bint) = ipv4_any"
    by (simp add: put_int_def ex_bint_def ipv4_any_def intnode.defs)
  moreover have "ipv4_scan False [10, 0, 0, 1] [10, 0, 0, 1] (bi_ipv4_local (ex_tun 2 h t))" for h t
    by (simp add: ex_tun_def)
  ultimately have find: "int_find_ipv4 False [10, 0, 0, 1] (bd_conf ?r) = Some 2" "local_find [10, 0, 0, 1] (bd_conf ?r) = None"
    by (simp_all add: int_find_ipv4_def local_find_def Let_def tun)
  have l: "last (bd_frames s') = (sock, frame)" using s'(2) f by simp
  have "(\<forall>r'. l2_eth_bpf 1 ex_benv (\<lambda>_. ex_sys) 1 (length ([] :: bytes), of_nat (length frame)) ?r = Some (Inr r') \<longrightarrow>
      membership (common r') = mem_report (ex_group 1) (in_ifindex (b_ints (bd_conf ?r) ! 2)) in6addr_any MODE_INCLUDE
        (b_now (bd_conf ?r)) (membership (common ?r))) \<and>
    (mld1only (bd_rest ?r) \<or> reports_fit (in_ifindex (b_ints (bd_conf ?r) ! 2)) (common ?r) \<longrightarrow>
      (\<exists>r'. l2_eth_bpf 1 ex_benv (\<lambda>_. ex_sys) 1 (length ([] :: bytes), of_nat (length frame)) ?r = Some (Inr r')))"
    by (rule tunnelled_report_subscribes [OF s, where i = 2 and m = 1 and src = "[10, 0, 0, 1]" and ll = "ex_ll 7" and s' = s'
          and sock = sock and E = ex_env and Z = "replicate 2000 0"])
      (use s'(1) l r find in \<open>simp_all add: tun ex_not_ignored ipv4_6to4_relay_def, simp_all add: ex_addr_def IN6_IS_ADDR_LINKLOCAL_def\<close>)
  then obtain r' where "l2_eth_bpf 1 ex_benv (\<lambda>_. ex_sys) 1 (0, of_nat (length frame)) ?r = Some (Inr r')"
    "membership (common r') = mem_report (ex_group 1) (in_ifindex (b_ints (bd_conf ?r) ! 2)) in6addr_any MODE_INCLUDE
        (b_now (bd_conf ?r)) (membership (common ?r))"
    using ex_receiver_fits [of _ frame] by auto
  then show ?thesis using s'(1) l by (fastforce simp: mem_report_def tun)
qed

section \<open>A device that disappears\<close>

text \<open>
  C38: An interface that disappears while the BPF build sends a packet ends the daemon. The interface is
  destroyed and its descriptor closed, but the descriptor stays in the select set; \<open>select\<close> refuses a
  set with a closed descriptor, so the next round of the main loop, when no timeout is due, leaves the
  loop, whatever the other interfaces do.
\<close>

theorem destroyed_device_stops:
  assumes "bd_inv s" and "j < length (b_ints (bd_conf s))" and "in_mtu (b_ints (bd_conf s) ! j) \<noteq> 0"
    and "handler (common s) = Inr w" and "w_sent w = w_sent (common s) @ [(link_addr (ints (common s) ! j) last4, pkt)]"
    and "length last4 = 4" and "env_sendto E (w_sent (common s)) (link_addr (ints (common s) ! j) last4, pkt) = SendENXIO"
    and "run_common E handler s = Inr s'"
    and "bi_socket (b_ints (bd_conf s) ! j) \<in> set (b_selectset (bd_conf s))" and "bi_socket (b_ints (bd_conf s) ! j) \<noteq> - 1"
    and "\<forall>fds n. (\<exists>fd \<in> set fds. fd \<in> set (b_closed (bd_conf s'))) \<longrightarrow> be_select B fds n = SelFail False"
    and "\<not> w_needs_timeout (bd_rest s')" and "\<not> quit (bd_rest s')"
  shows "main_round_bpf rounds fuel B (s', False) = Some (Inr (s', True)) \<and>
    main_round_bpf rounds fuel B (s', True) = Some (Inr (s', True))"
proof -
  have "b_closed (bd_conf s') = b_closed (int_destroy_bpf j (bd_conf s))" "b_selectset (bd_conf s') = b_selectset (bd_conf s)"
    using run_common_one [where f = handler, OF assms(1-6), of E] assms(7,8) by auto
  moreover have "bi_socket (b_ints (bd_conf s) ! j) \<in> set (b_closed (int_destroy_bpf j (bd_conf s)))"
    using assms(10) by (simp add: int_destroy_bpf_def Let_def)
  ultimately have "be_select B (b_selectset (bd_conf s')) (b_hifd (bd_conf s') + 1) = SelFail False"
    using assms(9,11) by auto
  with assms(12,13) show ?thesis by (simp add: main_round_bpf_def run_timeout_bpf_def handleinterfaces_bpf_def)
qed

definition ex_select :: bpf_env where
  "ex_select = ex_bpf_env\<lparr>be_select := (\<lambda>fds _. if 5 \<in> set fds then SelFail False else SelReady [])\<rparr>"

definition ex_bdevice :: bpf_state where
  "ex_bdevice = (let s = ex_bstate 7 [10, 0, 0, 1] [10, 0, 0, 2] [] in
     s\<lparr>bd_conf := (upd_bint 1 (\<lambda>n. n\<lparr>bi_socket := 5\<rparr>) (bd_conf s))\<lparr>b_selectset := [5], b_hifd := 5\<rparr>\<rparr>)"

theorem destroyed_device_stops_witness:
  "let E = ex_env\<lparr>env_sendto := (\<lambda>_ _. SendENXIO)\<rparr> in
     \<exists>s'. run_common E (mld1_send_report E 1 (ex_group 1)) ex_bdevice = Inr s' \<and>
       main_round_bpf 1 1 ex_select (s', False) = Some (Inr (s', True))"
proof -
  let ?s0 = "ex_bstate 7 [10, 0, 0, 1] [10, 0, 0, 2] []" and ?E = "ex_env\<lparr>env_sendto := (\<lambda>_ _. SendENXIO)\<rparr>"
  have "bd_inv ?s0" by (rule ex_bstate_inv) simp_all
  then have ok: "bpf_ok (upd_bint 1 (\<lambda>n. n\<lparr>bi_socket := 5\<rparr>) (bd_conf ?s0))"
    "bints_ok (upd_bint 1 (\<lambda>n. n\<lparr>bi_socket := 5\<rparr>) (bd_conf ?s0))"
    "groups_ok (groups (bd_rest ?s0))"
    by (auto simp: bd_inv_def intro!: bpf_ok_upd bints_ok_upd)
  then have inv: "bd_inv ex_bdevice"
    by (simp add: ex_bdevice_def Let_def bd_inv_def bpf_ok_def bints_ok_def)
  have n: "in_linklocal (ints (common ex_bdevice) ! 1) = ex_ll 1" "length (b_ints (bd_conf ex_bdevice)) = 3"
    "in_mtu (b_ints (bd_conf ex_bdevice) ! 1) = 1500" "bi_socket (b_ints (bd_conf ex_bdevice) ! 1) = 5"
    "b_selectset (bd_conf ex_bdevice) = [5]"
    by (simp_all add: ex_bdevice_def Let_def upd_bint_def ex_int_def)
  obtain w pkt where w: "mld1_send_report ?E 1 (ex_group 1) (common ex_bdevice) = Inr w"
    and o: "sent_one (common ex_bdevice) 1 (ex_group 1) pkt w"
    using mld1_send_report_spec [of "common ex_bdevice" 1 "ex_group 1" ?E] n(1) by auto
  have last4: "length (drop 12 (ex_group 1)) = 4" by (simp add: ex_addr_def)
  have sent: "w_sent w = w_sent (common ex_bdevice) @ [(link_addr (ints (common ex_bdevice) ! 1) (drop 12 (ex_group 1)), pkt)]"
    using o by (simp only: sent_one_def)
  obtain s' where s': "run_common ?E (mld1_send_report ?E 1 (ex_group 1)) ex_bdevice = Inr s'"
    "b_closed (bd_conf s') = b_closed (int_destroy_bpf 1 (bd_conf ex_bdevice))"
    using run_common_one [where f = "mld1_send_report ?E 1 (ex_group 1)" and E = ?E and j = 1 and pkt = pkt
        and ?last4.0 = "drop 12 (ex_group 1)", OF inv _ _ w sent last4] n(2,3) by auto
  have c: "b_closed (bd_conf s') = [5]"
    using s'(2) by (simp add: int_destroy_bpf_def ex_bdevice_def upd_bint_def Let_def)
      (simp add: ex_bstate_def bpf_blank_def)
  have "bd_rest s' = w" using s'(1) w by (auto simp: run_common_def write_back_def Let_def split: prod.splits)
  moreover have "sends (common ex_bdevice) w" using o by (simp add: sent_one_def)
  then have "w_needs_timeout w = w_needs_timeout (common ex_bdevice)" "quit w = quit (common ex_bdevice)"
    by (auto simp: sends_def)
  moreover have "\<not> w_needs_timeout (common ex_bdevice)" "\<not> quit (common ex_bdevice)"
    by (simp_all add: ex_bdevice_def common_def Let_def, simp_all add: ex_world_def blank_def)
  ultimately have "\<not> w_needs_timeout (bd_rest s')" "\<not> quit (bd_rest s')" by simp_all
  with destroyed_device_stops [where handler = "mld1_send_report ?E 1 (ex_group 1)" and E = ?E and j = 1 and pkt = pkt
        and B = ex_select and rounds = 1 and fuel = 1, OF inv _ _ w sent last4 _ s'(1)] n c s'(1)
  show ?thesis by (auto simp: ex_select_def Let_def)
qed

end
