(* ===== verification/Stat_Dump.thy ===== *)
theory Stat_Dump
  imports Mcast_Groups Interfaces
begin

text \<open>
  \<open>sigusr1\<close>: the text that replaces the contents of the dump file. The conversions of
  \<open>fprintf\<close> that occur are written out; \<open>inet_ntop\<close>, the date of \<open>strftime\<close> and \<open>gmtime\<close>, and the
  version strings of the build are parameters.
\<close>

section \<open>Conversions\<close>

definition nl :: string where "nl = [CHR 0x0A]"
definition tab :: string where "tab = [CHR 0x09]"

fun decimal :: "nat \<Rightarrow> string" where
  "decimal n = (if n < 10 then [char_of (48 + n)] else decimal (n div 10) @ [char_of (48 + n mod 10)])"

declare decimal.simps [simp del]

definition fmt_u :: "'a::len word \<Rightarrow> string" where "fmt_u w = decimal (unat w)"

definition fmt_02u :: "u32 \<Rightarrow> string" where
  "fmt_02u w = (if unat w < 10 then ''0'' else []) @ decimal (unat w)"

definition fmt_i :: "int \<Rightarrow> string" where
  "fmt_i n = (if n < 0 then ''-'' else []) @ decimal (nat \<bar>n\<bar>)"

record dump_env =
  de_ntop :: "in6_addr \<Rightarrow> string"
  de_date :: "u64 \<Rightarrow> string"
  de_version :: string
  de_githash :: string

section \<open>The groups\<close>

text \<open>
  The age of a subscription in seconds, an \<open>int\<close>: when it is negative, the negated number of the
  signal takes its place.
\<close>

definition subscr_age :: "u32 \<Rightarrow> u64 \<Rightarrow> subscrnode \<Rightarrow> u32" where
  "subscr_age i time_tee s =
     (let d = ucast (time_tee - sb_refreshtime s) :: u32 in if sint d < 0 then - i else d)"

text \<open>The state of the dump: the text so far and the counter of the loops.\<close>

type_synonym dump = "string \<times> u32"

definition dump_subscr :: "dump_env \<Rightarrow> u32 \<Rightarrow> u64 \<Rightarrow> subscrnode \<Rightarrow> dump \<Rightarrow> dump" where
  "dump_subscr D i time_tee s = (\<lambda>(out, subscriptions).
     (out @ tab @ tab @ de_ntop D (sb_ipv6 s) @ '' ''
        @ (if sb_mode s = MODE_INCLUDE then ''INCLUDE'' else ''EXCLUDE'')
        @ '' ('' @ fmt_u (subscr_age i time_tee s) @ '' seconds old)'' @ nl,
      subscriptions + 1))"

definition dump_grpint :: "dump_env \<Rightarrow> u32 \<Rightarrow> u64 \<Rightarrow> world \<Rightarrow> grpintnode \<Rightarrow> dump \<Rightarrow> dump" where
  "dump_grpint D i time_tee w grpintn = (\<lambda>(out, subscriptions).
     case int_find (ucast (gi_ifindex grpintn)) w of
       None \<Rightarrow> (out, subscriptions)
     | Some k \<Rightarrow> fold (dump_subscr D i time_tee) (nodes (gi_subscriptions grpintn))
         (out @ tab @ ''Interface: '' @ in_name (ints w ! k) @ '' (''
            @ fmt_i (count (gi_subscriptions grpintn)) @ '')'' @ nl, subscriptions))"

definition dump_group :: "dump_env \<Rightarrow> u32 \<Rightarrow> u64 \<Rightarrow> world \<Rightarrow> groupnode \<Rightarrow> dump \<Rightarrow> dump" where
  "dump_group D i time_tee w groupn = (\<lambda>(out, subscriptions).
     let (out1, n) = fold (dump_grpint D i time_tee w) (nodes (gr_interfaces groupn))
           (out @ ''Group : '' @ de_ntop D (gr_mca groupn) @ nl
              @ tab @ ''Bytes  : '' @ fmt_u (gr_bytes groupn) @ nl
              @ tab @ ''Packets: '' @ fmt_u (gr_packets groupn) @ nl, subscriptions)
     in (out1 @ nl, n))"

section \<open>The interfaces\<close>

definition ARPHRD_ETHER :: u16 where [layout]: "ARPHRD_ETHER = 1"
definition ARPHRD_SIT :: u16 where [layout]: "ARPHRD_SIT = 776"

text \<open>The lines of one interface; \<open>master\<close> and \<open>type\<close> are what the two builds print differently.\<close>

definition dump_int_text :: "dump_env \<Rightarrow> string \<Rightarrow> string \<Rightarrow> intnode \<Rightarrow> string" where
  "dump_int_text D master type intn =
     ''Interface: '' @ in_name intn @ nl
     @ ''  Index number           : '' @ fmt_u (in_ifindex intn) @ nl
     @ ''  MTU                    : '' @ fmt_u (in_mtu intn) @ nl
     @ master
     @ ''  Interface Type         : '' @ type @ nl
     @ ''  Link-local address     : '' @ de_ntop D (in_linklocal intn) @ nl
     @ ''  Global unicast address : '' @ de_ntop D (in_global intn) @ nl
     @ ''  MLD version            : ''
     @ (if in_mld_version intn = 0 then ''none'' else ''v'' @ fmt_u (in_mld_version intn)) @ nl
     @ ''  Packets received       : '' @ fmt_u (in_packets_received intn) @ nl
     @ ''  Packets sent           : '' @ fmt_u (in_packets_sent intn) @ nl
     @ ''  Bytes received         : '' @ fmt_u (in_bytes_received intn) @ nl
     @ ''  Bytes sent             : '' @ fmt_u (in_bytes_sent intn) @ nl
     @ ''  ICMP's received        : '' @ fmt_u (in_icmp_received intn) @ nl
     @ ''  ICMP's sent            : '' @ fmt_u (in_icmp_sent intn) @ nl
     @ nl"

definition dump_int :: "dump_env \<Rightarrow> world \<Rightarrow> nat \<Rightarrow> dump \<Rightarrow> dump" where
  "dump_int D w j = (\<lambda>(out, n).
     let intn = ints w ! j in
     if in_mtu intn = 0 then (out, n)
     else (out @ dump_int_text D []
        ((if in_hwaddr intn = ARPHRD_ETHER then ''Ethernet''
          else if in_hwaddr intn = ARPHRD_SIT then ''sit'' else ''Unknown'')
         @ '' ('' @ fmt_u (in_hwaddr intn) @ '')'') intn, n + 1))"

section \<open>The whole dump\<close>

text \<open>Days, hours, minutes and seconds, computed in \<open>unsigned int\<close>.\<close>

definition uptime :: "u64 \<Rightarrow> u64 \<Rightarrow> u32 \<times> u32 \<times> u32 \<times> u32" where
  "uptime time_tee starttime =
     (let s0 = ucast (time_tee - starttime) :: u32;
          d = s0 div (24 * 60 * 60); s1 = s0 - d * 24 * 60 * 60;
          h = s1 div (60 * 60); s2 = s1 - h * 60 * 60;
          m = s2 div 60; s3 = s2 - m * 60
      in (d, h, m, s3))"

text \<open>The BPF build prints a line on its \<open>mode\<close> here.\<close>

definition dump_statistics_mode :: "dump_env \<Rightarrow> string \<Rightarrow> world \<Rightarrow> u32 \<Rightarrow> u32 \<Rightarrow> string" where
  "dump_statistics_mode D mode w subscriptions n =
     (case uptime (gettimes w) (stat_starttime w) of (d, h, m, s) \<Rightarrow>
        ''*** Statistics Dump'' @ nl @ nl
        @ ''Version              : ecmh '' @ de_version D @ nl
        @ ''Git Hash             : '' @ de_githash D @ nl
        @ ''Started              : '' @ de_date D (stat_starttime w) @ '' GMT'' @ nl
        @ ''Uptime               : '' @ fmt_u d @ '' days '' @ fmt_02u h @ '':'' @ fmt_02u m @ '':'' @ fmt_02u s @ nl
        @ mode
        @ nl
        @ ''Interfaces Monitored : '' @ fmt_u n @ nl
        @ ''Groups Managed       : '' @ fmt_i (count (groups w)) @ nl
        @ ''Total Subscriptions  : '' @ fmt_u subscriptions @ nl
        @ ''v2 Robustness Factor : '' @ fmt_i ECMH_ROBUSTNESS_FACTOR @ nl
        @ ''Subscription Timeout : '' @ fmt_i (sint ECMH_SUBSCRIPTION_TIMEOUT * ECMH_ROBUSTNESS_FACTOR) @ nl
        @ nl
        @ ''Packets Received     : '' @ fmt_u (stat_packets_received w) @ nl
        @ ''Packets Sent         : '' @ fmt_u (stat_packets_sent w) @ nl
        @ ''Bytes Received       : '' @ fmt_u (stat_bytes_received w) @ nl
        @ ''Bytes Sent           : '' @ fmt_u (stat_bytes_sent w) @ nl
        @ ''ICMP's received      : '' @ fmt_u (stat_icmp_received w) @ nl
        @ ''ICMP's sent          : '' @ fmt_u (stat_icmp_sent w) @ nl
        @ ''Hop Limit Exceeded   : '' @ fmt_u (stat_hlim_exceeded w) @ nl
        @ nl @ ''*** Statistics Dump (end)'' @ nl)"

definition dump_statistics :: "dump_env \<Rightarrow> world \<Rightarrow> u32 \<Rightarrow> u32 \<Rightarrow> string" where
  "dump_statistics D = dump_statistics_mode D []"

definition sigusr1_with :: "dump_env \<Rightarrow> u32 \<Rightarrow> (nat \<Rightarrow> dump \<Rightarrow> dump) \<Rightarrow> string \<Rightarrow> world \<Rightarrow> string" where
  "sigusr1_with D i step mode w =
     (let (out1, subscriptions) = fold (dump_group D i (gettimes w) w) (nodes (groups w))
            (''*** Subscription Information Dump'' @ nl @ nl, 0);
          out2 = out1 @ ''*** Subscription Information Dump (end - '' @ fmt_i (count (groups w)) @ '' groups, ''
            @ fmt_u subscriptions @ '' subscriptions)'' @ nl @ nl;
          (out3, n) = fold step [0..<unat (maxinterfaces w)]
            (out2 @ ''*** Interface Dump'' @ nl @ nl, 0);
          out4 = out3 @ ''*** Interface Dump (end - '' @ fmt_u n @ '' interfaces)'' @ nl @ nl
      in out4 @ dump_statistics_mode D mode w subscriptions n)"

definition sigusr1 :: "dump_env \<Rightarrow> u32 \<Rightarrow> world \<Rightarrow> string" where
  "sigusr1 D i w = sigusr1_with D i (dump_int D w) [] w"

section \<open>Reading the numbers back\<close>

definition read_decimal :: "string \<Rightarrow> nat" where
  "read_decimal s = foldl (\<lambda>n c. 10 * n + (of_char c - 48)) 0 s"

lemma read_decimal_snoc: "k < 10 \<Longrightarrow> read_decimal (s @ [char_of (48 + k)]) = 10 * read_decimal s + k"
  by (simp add: read_decimal_def of_char_of)

lemma read_decimal_decimal [simp]: "read_decimal (decimal n) = n"
proof (induction n rule: decimal.induct)
  case (1 n)
  show ?case
  proof (cases "n < 10")
    case True
    with read_decimal_snoc [of n "[]"] show ?thesis
      by (simp add: decimal.simps [of n] read_decimal_def)
  next
    case False
    with 1 show ?thesis by (simp add: decimal.simps [of n] read_decimal_snoc)
  qed
qed

lemma read_decimal_zero: "read_decimal (CHR ''0'' # s) = read_decimal s"
  by (simp add: read_decimal_def)

lemma read_fmt [simp]: "read_decimal (fmt_u w) = unat w" "read_decimal (fmt_02u v) = unat v"
  by (simp_all add: fmt_u_def fmt_02u_def read_decimal_zero)

text \<open>A number as \<open>strtol\<close> and \<open>%d\<close> of \<open>scanf\<close> read it: white space, a sign, digits.\<close>

definition is_digit :: "char \<Rightarrow> bool" where
  "is_digit c \<longleftrightarrow> of_char c \<in> {48 .. 57 :: nat}"

definition scan_int :: "string \<Rightarrow> int option" where
  "scan_int s =
     (let s1 = dropWhile is_space s;
          neg = (case s1 of c # _ \<Rightarrow> c = CHR ''-'' | [] \<Rightarrow> False);
          s2 = (case s1 of c # cs \<Rightarrow> if c = CHR ''-'' \<or> c = CHR ''+'' then cs else s1 | [] \<Rightarrow> []);
          ds = takeWhile is_digit s2;
          n = int (read_decimal ds)
      in if ds = [] then None else Some (if neg then - n else n))"

lemma decimal_digits: "list_all is_digit (decimal n) \<and> decimal n \<noteq> []"
proof (induction n rule: decimal.induct)
  case (1 n)
  have d: "is_digit (char_of (48 + k))" if "k < 10" for k :: nat using that by (simp add: is_digit_def of_char_of)
  show ?case
  proof (cases "n < 10")
    case True
    with d show ?thesis by (simp add: decimal.simps [of n])
  next
    case False
    with d 1 show ?thesis by (simp add: decimal.simps [of n])
  qed
qed

lemma is_digit_props: "is_digit c \<Longrightarrow> \<not> is_space c \<and> c \<noteq> CHR ''-'' \<and> c \<noteq> CHR ''+''"
  by (auto simp: is_digit_def is_space_def)

lemma scan_int_decimal:
  "scan_int (decimal m) = Some (int m)" "scan_int (CHR ''-'' # decimal m) = Some (- int m)"
proof -
  have tw: "takeWhile is_digit (decimal m) = decimal m" and ne: "decimal m \<noteq> []"
    using decimal_digits [of m] by (auto simp: list_all_iff)
  obtain c cs where d: "decimal m = c # cs" "is_digit c" using decimal_digits [of m] by (cases "decimal m") auto
  have "dropWhile is_space (decimal m) = decimal m" using is_digit_props [OF d(2)] d(1) by simp
  moreover have "(case decimal m of c # _ \<Rightarrow> c = CHR ''-'' | [] \<Rightarrow> False) = False"
    and "(case decimal m of c # cs \<Rightarrow> if c = CHR ''-'' \<or> c = CHR ''+'' then cs else decimal m | [] \<Rightarrow> []) = decimal m"
    using is_digit_props [OF d(2)] by (simp_all add: d(1))
  ultimately show "scan_int (decimal m) = Some (int m)"
    by (simp only: scan_int_def Let_def tw ne if_False read_decimal_decimal)
  have "dropWhile is_space (CHR ''-'' # decimal m) = CHR ''-'' # decimal m" by (simp add: is_space_def)
  then show "scan_int (CHR ''-'' # decimal m) = Some (- int m)"
    by (simp only: scan_int_def Let_def list.case simp_thms tw ne if_True if_False read_decimal_decimal)
qed

lemma scan_int_fmt_i [simp]: "scan_int (fmt_i n) = Some n"
  by (simp add: fmt_i_def scan_int_decimal)

text \<open>A refresh that lies in the future is shown as \<open>2 ^ 32 - 10\<close> seconds old.\<close>

lemma subscr_age_future:
  assumes "sint (ucast (t - sb_refreshtime s) :: u32) < 0"
  shows "read_decimal (fmt_u (subscr_age 10 t s)) = 4294967286"
  using assms by (simp add: subscr_age_def)

section \<open>What is counted\<close>

text \<open>The keys of the subscriptions that the dump shows, in its order.\<close>

definition gi_keys :: "world \<Rightarrow> in6_addr \<Rightarrow> grpintnode \<Rightarrow> (in6_addr \<times> u64 \<times> in6_addr) list" where
  "gi_keys w mca gi = (if int_find (ucast (gi_ifindex gi)) w = None then []
     else map (\<lambda>s. (mca, gi_ifindex gi, sb_ipv6 s)) (nodes (gi_subscriptions gi)))"

definition gr_keys :: "world \<Rightarrow> groupnode \<Rightarrow> (in6_addr \<times> u64 \<times> in6_addr) list" where
  "gr_keys w g = concat (map (gi_keys w (gr_mca g)) (nodes (gr_interfaces g)))"

definition dump_keys :: "world \<Rightarrow> (in6_addr \<times> u64 \<times> in6_addr) list" where
  "dump_keys w = concat (map (gr_keys w) (nodes (groups w)))"

lemma fold_counts:
  fixes n :: u32
  assumes "\<And>x out n. snd (f x (out, n)) = n + of_nat (c x)"
  shows "snd (fold f xs (out, n)) = n + of_nat (\<Sum>x\<leftarrow>xs. c x)"
proof (induction xs arbitrary: out n)
  case (Cons x xs)
  obtain out' n' where "f x (out, n) = (out', n')" by fastforce
  with Cons [of out' n'] assms [of x out n] show ?case by (simp add: add.assoc)
qed simp

lemma dump_subscr_counts: "snd (fold (dump_subscr D i t) ss (out, n)) = n + of_nat (length ss)"
  using fold_counts [of "dump_subscr D i t" "\<lambda>_. 1" ss out n]
  by (simp add: dump_subscr_def sum_list_triv)

lemma dump_grpint_counts: "snd (dump_grpint D i t w gi (out, n)) = n + of_nat (length (gi_keys w mca gi))"
  by (auto simp: dump_grpint_def gi_keys_def dump_subscr_counts split: option.splits)

lemma dump_group_counts: "snd (dump_group D i t w g (out, n)) = n + of_nat (length (gr_keys w g))"
  using fold_counts [of "dump_grpint D i t w", OF dump_grpint_counts [of D i t w _ _ _ "gr_mca g"]]
  by (simp add: dump_group_def Let_def gr_keys_def length_concat o_def split_beta)

lemma dump_groups_counts:
  "snd (fold (dump_group D i t w) (nodes (groups w)) (out, 0)) = of_nat (length (dump_keys w))"
  using fold_counts [of "dump_group D i t w", OF dump_group_counts]
  by (simp add: dump_keys_def length_concat o_def)

text \<open>A step that counts the interfaces in use, by their MTU.\<close>

definition counts_ints :: "(nat \<Rightarrow> u64) \<Rightarrow> (nat \<Rightarrow> dump \<Rightarrow> dump) \<Rightarrow> bool" where
  "counts_ints mtu step \<longleftrightarrow> (\<forall>j out n. snd (step j (out, n)) = n + (if mtu j = 0 then 0 else 1))"

lemma dump_ints_counts:
  assumes "counts_ints mtu step"
  shows "snd (fold step js (out, 0)) = of_nat (length (filter (\<lambda>j. mtu j \<noteq> 0) js))"
proof -
  have "(\<Sum>j\<leftarrow>js. if mtu j = 0 then 0 else 1) = length (filter (\<lambda>j. mtu j \<noteq> 0) js)"
    by (induction js) auto
  with fold_counts [of step "\<lambda>j. if mtu j = 0 then 0 else 1" js out 0] assms show ?thesis
    by (simp add: counts_ints_def)
qed

text \<open>No subscription is counted twice.\<close>

lemma distinct_concat_keyed:
  assumes "distinct (map key xs)" and "\<And>x. x \<in> set xs \<Longrightarrow> distinct (f x)"
    and "\<And>x y. x \<in> set xs \<Longrightarrow> y \<in> set (f x) \<Longrightarrow> pr y = key x"
  shows "distinct (concat (map f xs))"
  using assms
proof (induction xs)
  case (Cons x xs)
  have "set (f x) \<inter> (\<Union>z \<in> set xs. set (f z)) = {}"
  proof (rule ccontr)
    assume "set (f x) \<inter> (\<Union>z \<in> set xs. set (f z)) \<noteq> {}"
    then obtain y z where "y \<in> set (f x)" "z \<in> set xs" "y \<in> set (f z)" by auto
    with Cons.prems(3) [of x y] Cons.prems(3) [of z y] have "key z = key x" by simp
    with \<open>z \<in> set xs\<close> Cons.prems(1) show False by (metis distinct.simps(2) image_eqI list.set_map list.simps(9))
  qed
  with Cons show ?case by simp
qed simp

lemma gi_keys_fst: "x \<in> set (gi_keys w mca gi) \<Longrightarrow> fst x = mca \<and> fst (snd x) = gi_ifindex gi"
  by (auto simp: gi_keys_def split: if_splits)

lemma gr_keys_fst: "x \<in> set (gr_keys w g) \<Longrightarrow> fst x = gr_mca g"
  by (auto simp: gr_keys_def dest: gi_keys_fst)

lemma dump_keys_distinct:
  assumes "groups_ok (groups w)"
  shows "distinct (dump_keys w)"
  unfolding dump_keys_def
proof (rule distinct_concat_keyed)
  show "distinct (map gr_mca (nodes (groups w)))" using assms by (simp add: groups_ok_def)
  show "fst y = gr_mca g" if "y \<in> set (gr_keys w g)" for y g
    using that by (rule gr_keys_fst)
  fix g assume "g \<in> set (nodes (groups w))"
  with assms have gis: "grpints_ok (gr_interfaces g)" by (simp add: groups_ok_def group_ok_def)
  show "distinct (gr_keys w g)"
    unfolding gr_keys_def
  proof (rule distinct_concat_keyed)
    show "distinct (map gi_ifindex (nodes (gr_interfaces g)))" using gis by (simp add: grpints_ok_def)
    show "fst (snd y) = gi_ifindex gi" if "y \<in> set (gi_keys w (gr_mca g) gi)" for y gi
      using that by (simp add: gi_keys_fst)
    fix gi assume "gi \<in> set (nodes (gr_interfaces g))"
    with gis have "distinct (map sb_ipv6 (nodes (gi_subscriptions gi)))"
      by (simp add: grpints_ok_def grpint_ok_def subs_ok_def)
    then show "distinct (gi_keys w (gr_mca g) gi)" by (auto simp: gi_keys_def distinct_map inj_on_def)
  qed
qed

lemma dump_keys_set:
  assumes "groups_ok (groups w)"
  shows "set (dump_keys w) = {(mca, k, a). membership w mca k a \<noteq> None \<and> int_find (ucast k) w \<noteq> None}"
proof -
  have d: "distinct (map gr_mca (nodes (groups w)))" using assms by (simp add: groups_ok_def)
  have e: "distinct (map gi_ifindex (nodes (gr_interfaces g)))" if "g \<in> set (nodes (groups w))" for g
    using that assms by (simp add: groups_ok_def group_ok_def grpints_ok_def)
  have "(mca, k, a) \<in> set (dump_keys w) \<longleftrightarrow> membership w mca k a \<noteq> None \<and> int_find (ucast k) w \<noteq> None"
    for mca k a
  proof
    assume "(mca, k, a) \<in> set (dump_keys w)"
    then obtain g gi where g: "g \<in> set (nodes (groups w))" and gi: "gi \<in> set (nodes (gr_interfaces g))"
      and x: "(mca, k, a) \<in> set (gi_keys w (gr_mca g) gi)"
      by (auto simp: dump_keys_def gr_keys_def)
    from x have y: "mca = gr_mca g" "k = gi_ifindex gi" "int_find (ucast k) w \<noteq> None"
      "a \<in> sb_ipv6 ` set (nodes (gi_subscriptions gi))"
      by (auto simp: gi_keys_def split: if_splits)
    with grps.tfind_in [OF d g] gints.tfind_in [OF e [OF g] gi] subs.tfind_None
    show "membership w mca k a \<noteq> None \<and> int_find (ucast k) w \<noteq> None"
      by (simp add: membership_def grpint_of_def)
  next
    assume "membership w mca k a \<noteq> None \<and> int_find (ucast k) w \<noteq> None"
    then obtain g gi s where "group_find (groups w) mca = Some g"
      and "grpint_find (gr_interfaces g) k = Some gi" and "subscr_find (gi_subscriptions gi) a = Some s"
      and i: "int_find (ucast k) w \<noteq> None"
      by (auto simp: membership_def grpint_of_def split: option.splits)
    from grps.tfind_SomeD [OF this(1)] gints.tfind_SomeD [OF this(2)] subs.tfind_SomeD [OF this(3)] i
    show "(mca, k, a) \<in> set (dump_keys w)"
      by (auto simp: dump_keys_def gr_keys_def gi_keys_def)
  qed
  then show ?thesis by auto
qed

lemma sigusr1_with_ends:
  assumes "counts_ints mtu step"
  shows "\<exists>pre. sigusr1_with D i step mode w = pre @ dump_statistics_mode D mode w (of_nat (length (dump_keys w)))
     (of_nat (length (filter (\<lambda>j. mtu j \<noteq> 0) [0..<unat (maxinterfaces w)])))"
proof -
  obtain out1 n where g: "fold (dump_group D i (gettimes w) w) (nodes (groups w))
      (''*** Subscription Information Dump'' @ nl @ nl, 0) = (out1, n)" by fastforce
  have n: "n = of_nat (length (dump_keys w))" using dump_groups_counts [of D i "gettimes w" w] g by (metis snd_conv)
  define out2 where "out2 = (out1 @ ''*** Subscription Information Dump (end - '' @ fmt_i (count (groups w)) @ '' groups, ''
            @ fmt_u n @ '' subscriptions)'' @ nl @ nl) @ ''*** Interface Dump'' @ nl @ nl"
  obtain out3 k where f: "fold step [0..<unat (maxinterfaces w)] (out2, 0) = (out3, k)" by fastforce
  have k: "k = of_nat (length (filter (\<lambda>j. mtu j \<noteq> 0) [0..<unat (maxinterfaces w)]))"
    using dump_ints_counts [OF assms, of _ out2] f by (metis snd_conv)
  have "sigusr1_with D i step mode w = (out3 @ ''*** Interface Dump (end - '' @ fmt_u k @ '' interfaces)'' @ nl @ nl)
      @ dump_statistics_mode D mode w n k"
    unfolding sigusr1_with_def g Let_def prod.case f [unfolded out2_def] ..
  then show ?thesis unfolding n k by blast
qed

lemma sigusr1_ends:
  "\<exists>pre. sigusr1 D i w = pre @ dump_statistics D w (of_nat (length (dump_keys w)))
     (of_nat (length (filter (\<lambda>j. in_mtu (ints w ! j) \<noteq> 0) [0..<unat (maxinterfaces w)])))"
  unfolding sigusr1_def dump_statistics_def
  by (rule sigusr1_with_ends [where mtu = "\<lambda>j. in_mtu (ints w ! j)"]) (simp add: counts_ints_def dump_int_def Let_def)

lemma uptime_parts:
  assumes "uptime t start = (d, h, m, s)"
  shows "unat d * 86400 + unat h * 3600 + unat m * 60 + unat s = unat (ucast (t - start) :: u32)"
    and "unat h < 24" and "unat m < 60" and "unat s < 60"
proof -
  define s0 where "s0 = (ucast (t - start) :: u32)"
  have "(d, h, m, s) = (s0 div 86400, s0 mod 86400 div 3600, s0 mod 86400 mod 3600 div 60,
      s0 mod 86400 mod 3600 mod 60)"
    using assms [symmetric] by (simp add: uptime_def Let_def s0_def [symmetric] minus_mult_div_eq_mod minus_div_mult_eq_mod)
  then have u: "unat d = unat s0 div 86400" "unat h = unat s0 mod 86400 div 3600"
    "unat m = unat s0 mod 86400 mod 3600 div 60" "unat s = unat s0 mod 86400 mod 3600 mod 60"
    by (simp_all add: unat_div unat_mod)
  show "unat d * 86400 + unat h * 3600 + unat m * 60 + unat s = unat (ucast (t - start) :: u32)"
    unfolding u s0_def [symmetric]
    using div_mult_mod_eq [of "unat s0" 86400] div_mult_mod_eq [of "unat s0 mod 86400" 3600]
      div_mult_mod_eq [of "unat s0 mod 86400 mod 3600" 60] by linarith
  show "unat h < 24" "unat m < 60" "unat s < 60"
    unfolding u by (simp_all add: less_mult_imp_div_less)
qed

section \<open>Properties\<close>

text \<open>
  The uptime of the dump can be read back: for a daemon that runs for less than \<open>2 ^ 32\<close> seconds,
  the printed days, hours, minutes and seconds add up to the time since the start, with less than
  24 hours, 60 minutes and 60 seconds.
\<close>

theorem sigusr1_uptime:
  assumes "start \<le> t" and "unat t - unat start < 2 ^ 32" and "uptime t start = (d, h, m, s)"
  shows "read_decimal (fmt_u d) * 86400 + read_decimal (fmt_02u h) * 3600 + read_decimal (fmt_02u m) * 60
      + read_decimal (fmt_02u s) = unat t - unat start \<and>
    read_decimal (fmt_02u h) < 24 \<and> read_decimal (fmt_02u m) < 60 \<and> read_decimal (fmt_02u s) < 60"
proof -
  have diff: "unat (t - start) = unat t - unat start" using assms(1) by (simp add: unat_sub word_le_nat_alt)
  have "unat (ucast (t - start) :: u32) = unat t - unat start"
    using assms(2) diff by (simp add: unsigned_ucast_eq take_bit_nat_eq_self)
  with uptime_parts [OF assms(3)] show ?thesis by simp
qed

theorem sigusr1_uptime_witness:
  "\<exists>d h m s. uptime 1090061 1000000 = (d, h, m, s) \<and>
     read_decimal (fmt_u d) * 86400 + read_decimal (fmt_02u h) * 3600 + read_decimal (fmt_02u m) * 60
       + read_decimal (fmt_02u s) = 90061"
proof -
  obtain d h m s where u: "uptime 1090061 1000000 = (d, h, m, s)" by (metis prod_cases4)
  from sigusr1_uptime [OF _ _ u] have "read_decimal (fmt_u d) * 86400 + read_decimal (fmt_02u h) * 3600
      + read_decimal (fmt_02u m) * 60 + read_decimal (fmt_02u s) = 90061" by simp
  with u show ?thesis by blast
qed

end
