(* ===== verification/Bpf_Dump.thy ===== *)
theory Bpf_Dump
  imports Bpf_Daemon Stat_Dump
begin

text \<open>
  What the BPF build does differently when it dumps its tables (\<open>sigusr1\<close>) and when it shuts down:
  tunnels are shown with their ends, the type of an interface is that of its device, and the devices
  and the list of local addresses are given up.
\<close>

section \<open>The dump\<close>

text \<open>\<open>inet_ntop\<close> for IPv4 is a parameter, like the one for IPv6; the master is shown by its first address.\<close>

definition dump_master :: "(bytes \<Rightarrow> string) \<Rightarrow> bpf_conf \<Rightarrow> bpf_int \<Rightarrow> string" where
  "dump_master ntop4 b intn = (case bi_master intn of None \<Rightarrow> []
     | Some k \<Rightarrow> let master = b_ints b ! k in
         ''  Master interface       : '' @ in_name master @ '' ('' @ fmt_u (in_ifindex master) @ ''/''
         @ ntop4 (bi_ipv4_local master ! 0) @ '')'' @ nl
         @ ''  IPv4 Remote            : '' @ ntop4 (bi_ipv4_remote intn) @ nl)"

definition dump_int_bpf :: "dump_env \<Rightarrow> (bytes \<Rightarrow> string) \<Rightarrow> bpf_conf \<Rightarrow> nat \<Rightarrow> dump \<Rightarrow> dump" where
  "dump_int_bpf D ntop4 b j = (\<lambda>(out, n).
     let intn = b_ints b ! j in
     if in_mtu intn = 0 then (out, n)
     else (out @ dump_int_text D (dump_master ntop4 b intn)
        ((if bi_dlt intn = DLT_NULL then ''Null''
          else if bi_dlt intn = DLT_EN10MB then ''Ethernet'' else ''Unknown'')
         @ '' ('' @ fmt_u (bi_dlt intn) @ '')'') (intnode.truncate intn), n + 1))"

definition dump_tunnelmode :: "bool \<Rightarrow> string" where
  "dump_tunnelmode mode = nl @ ''Tunnelmode           : '' @ (if mode then ''Active'' else ''Disabled'') @ nl"

definition sigusr1_bpf :: "dump_env \<Rightarrow> (bytes \<Rightarrow> string) \<Rightarrow> u32 \<Rightarrow> bpf_state \<Rightarrow> string" where
  "sigusr1_bpf D ntop4 i s =
     sigusr1_with D i (dump_int_bpf D ntop4 (bd_conf s)) (dump_tunnelmode (b_tunnelmode (bd_conf s))) (common s)"

text \<open>The totals at the end of the dump count the subscriptions and the interfaces in use here too.\<close>

lemma sigusr1_bpf_ends:
  assumes "bd_inv s"
  shows "\<exists>pre. sigusr1_bpf D ntop4 i s = pre @ dump_statistics_mode D (dump_tunnelmode (b_tunnelmode (bd_conf s)))
     (common s) (of_nat (length (dump_keys (common s))))
     (of_nat (length (filter (\<lambda>n. in_mtu n \<noteq> 0) (b_ints (bd_conf s)))))"
proof -
  let ?is = "b_ints (bd_conf s)"
  have n: "unat (maxinterfaces (common s)) = length ?is" using assms by (simp add: bd_inv_def bpf_ok_def)
  have f: "length (filter (\<lambda>j. in_mtu (?is ! j) \<noteq> 0) [0..<length ?is]) = length (filter (\<lambda>n. in_mtu n \<noteq> 0) ?is)"
    using arg_cong [OF filter_map [of "\<lambda>n. in_mtu n \<noteq> 0" "(!) ?is" "[0..<length ?is]"], of length] by (simp add: map_nth o_def)
  have "counts_ints (\<lambda>j. in_mtu (?is ! j)) (dump_int_bpf D ntop4 (bd_conf s))"
    by (simp add: counts_ints_def dump_int_bpf_def Let_def)
  from sigusr1_with_ends [OF this, of D i "dump_tunnelmode (b_tunnelmode (bd_conf s))" "common s"] show ?thesis
    unfolding n f sigusr1_bpf_def .
qed

section \<open>Shutdown\<close>

definition shutdown_bpf :: "bpf_state \<Rightarrow> bpf_state" where
  "shutdown_bpf s =
     (let b1 = (bd_conf s)\<lparr>b_locals := cl_delete_all (b_locals (bd_conf s))\<rparr> in
      s\<lparr>bd_rest := (bd_rest s)\<lparr>groups := cl_delete_all (groups (bd_rest s))\<rparr>,
        bd_conf := fold (\<lambda>j b. if in_mtu (b_ints b ! j) = 0 then b else int_destroy_bpf j b)
          [0..<unat (b_maxinterfaces b1)] b1\<rparr>)"

lemma destroys:
  assumes "set js \<subseteq> {..<length (b_ints b)}"
    and "c = fold (\<lambda>j b. if in_mtu (b_ints b ! j) = 0 then b else int_destroy_bpf j b) js b"
  shows "length (b_ints c) = length (b_ints b) \<and> b_locals c = b_locals b \<and> set (b_closed b) \<subseteq> set (b_closed c) \<and>
    (\<forall>k < length (b_ints b). in_mtu (b_ints c ! k) = (if k \<in> set js then 0 else in_mtu (b_ints b ! k)) \<and>
       bi_socket (b_ints c ! k) = (if k \<in> set js \<and> in_mtu (b_ints b ! k) \<noteq> 0 then - 1 else bi_socket (b_ints b ! k)) \<and>
       (k \<in> set js \<and> in_mtu (b_ints b ! k) \<noteq> 0 \<and> bi_socket (b_ints b ! k) \<noteq> - 1 \<longrightarrow> bi_socket (b_ints b ! k) \<in> set (b_closed c)))"
  using assms
proof (induction js arbitrary: b)
  case (Cons j js)
  define b1 where "b1 = (if in_mtu (b_ints b ! j) = 0 then b else int_destroy_bpf j b)"
  have j: "j < length (b_ints b)" using Cons.prems(1) by simp
  have b1: "length (b_ints b1) = length (b_ints b)" "b_locals b1 = b_locals b" "set (b_closed b) \<subseteq> set (b_closed b1)"
    "in_mtu (b_ints b ! j) \<noteq> 0 \<Longrightarrow> bi_socket (b_ints b ! j) \<noteq> - 1 \<Longrightarrow> bi_socket (b_ints b ! j) \<in> set (b_closed b1)"
    by (auto simp: b1_def int_destroy_bpf_def Let_def)
  have n: "in_mtu (b_ints b1 ! k) = (if k = j then 0 else in_mtu (b_ints b ! k))"
    "bi_socket (b_ints b1 ! k) = (if k = j \<and> in_mtu (b_ints b ! k) \<noteq> 0 then - 1 else bi_socket (b_ints b ! k))"
    if "k < length (b_ints b)" for k
    using that by (auto simp: b1_def int_destroy_bpf_def Let_def upd_bint_def nth_list_update)
  from Cons.IH [of b1] Cons.prems b1(1) have IH: "length (b_ints c) = length (b_ints b1) \<and> b_locals c = b_locals b1 \<and> set (b_closed b1) \<subseteq> set (b_closed c) \<and>
    (\<forall>k < length (b_ints b1). in_mtu (b_ints c ! k) = (if k \<in> set js then 0 else in_mtu (b_ints b1 ! k)) \<and>
       bi_socket (b_ints c ! k) = (if k \<in> set js \<and> in_mtu (b_ints b1 ! k) \<noteq> 0 then - 1 else bi_socket (b_ints b1 ! k)) \<and>
       (k \<in> set js \<and> in_mtu (b_ints b1 ! k) \<noteq> 0 \<and> bi_socket (b_ints b1 ! k) \<noteq> - 1 \<longrightarrow> bi_socket (b_ints b1 ! k) \<in> set (b_closed c)))"
    by (simp add: b1_def)
  show ?case
  proof (intro conjI allI impI)
    fix k assume k: "k < length (b_ints b)"
    show "in_mtu (b_ints c ! k) = (if k \<in> set (j # js) then 0 else in_mtu (b_ints b ! k))"
      using IH k b1(1) n [OF k] by (cases "k = j") auto
    show "bi_socket (b_ints c ! k) = (if k \<in> set (j # js) \<and> in_mtu (b_ints b ! k) \<noteq> 0 then - 1 else bi_socket (b_ints b ! k))"
      using IH k b1(1) n [OF k] by (cases "k = j") auto
    assume "k \<in> set (j # js) \<and> in_mtu (b_ints b ! k) \<noteq> 0 \<and> bi_socket (b_ints b ! k) \<noteq> - 1"
    then show "bi_socket (b_ints b ! k) \<in> set (b_closed c)"
      using IH k b1(1,4) n [OF k] by (cases "k = j") auto
  qed (use IH b1 in auto)
qed simp

text \<open>After the shutdown no interface is in use, and every device that an interface in use had is closed.\<close>

lemma shutdown_bpf_clears:
  assumes "bd_inv s"
  shows "nodes (groups (bd_rest (shutdown_bpf s))) = []" and "nodes (b_locals (bd_conf (shutdown_bpf s))) = []"
    and "list_all (\<lambda>n. in_mtu n = 0) (b_ints (bd_conf (shutdown_bpf s)))"
    and "n \<in> set (b_ints (bd_conf s)) \<Longrightarrow> in_mtu n \<noteq> 0 \<Longrightarrow> bi_socket n \<noteq> - 1 \<Longrightarrow>
      bi_socket n \<in> set (b_closed (bd_conf (shutdown_bpf s)))"
proof -
  define b where "b = (bd_conf s)\<lparr>b_locals := cl_delete_all (b_locals (bd_conf s))\<rparr>"
  have n: "unat (b_maxinterfaces b) = length (b_ints b)" using assms by (simp add: b_def bd_inv_def bpf_ok_def)
  then have js: "set [0..<unat (b_maxinterfaces b)] = {..<length (b_ints b)}" by auto
  have c: "bd_conf (shutdown_bpf s) = fold (\<lambda>j b. if in_mtu (b_ints b ! j) = 0 then b else int_destroy_bpf j b)
      [0..<unat (b_maxinterfaces b)] b"
    by (simp add: shutdown_bpf_def b_def Let_def)
  note d = destroys [OF equalityD1 [OF js] c]
  show "nodes (groups (bd_rest (shutdown_bpf s))) = []" by (simp add: shutdown_bpf_def Let_def)
  show "nodes (b_locals (bd_conf (shutdown_bpf s))) = []" using d by (simp add: b_def)
  show "list_all (\<lambda>n. in_mtu n = 0) (b_ints (bd_conf (shutdown_bpf s)))"
    using d js n by (simp add: list_all_length)
  show "bi_socket n \<in> set (b_closed (bd_conf (shutdown_bpf s)))"
    if "n \<in> set (b_ints (bd_conf s))" "in_mtu n \<noteq> 0" "bi_socket n \<noteq> - 1"
  proof -
    from that(1) obtain k where "k < length (b_ints b)" "b_ints b ! k = n" by (auto simp: b_def in_set_conv_nth)
    with d n that(2,3) show ?thesis by auto
  qed
qed

end
