(* ===== verification/Process_Setup.thy ===== *)
theory Process_Setup
  imports Daemon Stat_Dump
begin

text \<open>
  What the daemon does to its process: the destinations of \<open>dolog\<close>, the pid file, and in \<open>main\<close> the fork,
  the signal handlers and the drop of privileges. The text of a message is formatted by the C
  library and is an argument here.
\<close>

section \<open>The log\<close>

definition LOG_ERR :: u32 where [layout]: "LOG_ERR = 3"
definition LOG_WARNING :: u32 where [layout]: "LOG_WARNING = 4"
definition LOG_INFO :: u32 where [layout]: "LOG_INFO = 6"
definition LOG_DEBUG :: u32 where [layout]: "LOG_DEBUG = 7"
definition LOG_LOCAL7 :: u32 where [layout]: "LOG_LOCAL7 = 184"

datatype log_out = Vsyslog u32 string | Vprintf string

definition level_name :: "u32 \<Rightarrow> string" where
  "level_name level =
     (if level = LOG_DEBUG then ''debug'' else if level = LOG_ERR then ''error''
      else if level = LOG_WARNING then ''warn'' else if level = LOG_INFO then ''info'' else [])"

text \<open>Of \<open>g_conf\<close>, which is null before \<open>init\<close> and at the end, \<open>verbose\<close> and \<open>daemonize\<close> matter.\<close>

definition dolog :: "(bool \<times> bool) option \<Rightarrow> u32 \<Rightarrow> string \<Rightarrow> log_out option" where
  "dolog g level msg =
     (if (case g of Some (v, _) \<Rightarrow> \<not> v \<and> level = LOG_DEBUG | None \<Rightarrow> False) then None
      else if (case g of Some (_, d) \<Rightarrow> d | None \<Rightarrow> False) then Some (Vsyslog (LOG_LOCAL7 OR level) msg)
      else Some (Vprintf ((if (case g of Some (v, _) \<Rightarrow> v | None \<Rightarrow> False)
             then ''['' @ replicate (6 - length (level_name level)) CHR '' '' @ level_name level @ ''] '' else []) @ msg)))"

text \<open>The address as \<open>inet_ntop\<close> writes it is a parameter.\<close>

definition mld_log :: "(in6_addr \<Rightarrow> string) \<Rightarrow> (bool \<times> bool) option \<Rightarrow> u32 \<Rightarrow> string \<Rightarrow> in6_addr \<Rightarrow> intnode \<Rightarrow> log_out option" where
  "mld_log inet_ntop g level msg i_mca intn =
     dolog g level (msg @ '' for '' @ inet_ntop i_mca @ '' on '' @ in_name intn @ ''/'' @ fmt_u (in_ifindex intn) @ [CHR 0x0A])"

section \<open>The process\<close>

text \<open>Real, effective and saved ids, and what POSIX says of \<open>setuid\<close> and \<open>setgid\<close>.\<close>

record cred =
  c_ruid :: u32
  c_euid :: u32
  c_suid :: u32
  c_rgid :: u32
  c_egid :: u32
  c_sgid :: u32

definition setuid :: "u32 \<Rightarrow> cred \<Rightarrow> cred" where
  "setuid uid c =
     (if c_euid c = 0 then c\<lparr>c_ruid := uid, c_euid := uid, c_suid := uid\<rparr>
      else if uid = c_ruid c \<or> uid = c_suid c then c\<lparr>c_euid := uid\<rparr> else c)"

definition setgid :: "u32 \<Rightarrow> cred \<Rightarrow> cred" where
  "setgid gid c =
     (if c_euid c = 0 then c\<lparr>c_rgid := gid, c_egid := gid, c_sgid := gid\<rparr>
      else if gid = c_rgid c \<or> gid = c_sgid c then c\<lparr>c_egid := gid\<rparr> else c)"

definition drop_privileges :: "drop_ids \<Rightarrow> cred \<Rightarrow> cred" where
  "drop_privileges = (\<lambda>(drop_uid, drop_gid) c.
     let c1 = (if drop_uid \<noteq> 0 then setuid drop_uid c else c) in
     if drop_gid \<noteq> 0 then setgid drop_gid c1 else c1)"

datatype signal = SIGHUP | SIGINT | SIGKILL | SIGUSR1 | SIGUSR2 | SIGALRM | SIGTERM

datatype handler = H_sighup | H_cleanpid | H_timeout_signal | H_sigusr1 | H_sigusr2

record procstate =
  ps_pid :: int
  ps_cred :: cred
  ps_pidfile :: "string option"
  ps_handler :: "signal \<Rightarrow> handler option"

text \<open>
  \<open>SIGKILL\<close> cannot be caught; the result of \<open>signal\<close> is ignored. What the handlers do is in \<open>Daemon\<close> and
  \<open>Stat_Dump\<close>; \<open>sighup\<close> does nothing.
\<close>

definition signal_set :: "signal \<Rightarrow> handler \<Rightarrow> procstate \<Rightarrow> procstate" where
  "signal_set s h p = (if s = SIGKILL then p else p\<lparr>ps_handler := (ps_handler p)(s \<mapsto> h)\<rparr>)"

definition install_handlers :: "procstate \<Rightarrow> procstate" where
  "install_handlers p =
     signal_set SIGUSR2 H_sigusr2 (signal_set SIGUSR1 H_sigusr1 (signal_set SIGALRM H_timeout_signal
       (signal_set SIGKILL H_cleanpid (signal_set SIGINT H_cleanpid (signal_set SIGTERM H_cleanpid
         (signal_set SIGHUP H_sighup p))))))"

text \<open>The pid file; whether it can be opened for writing is a parameter.\<close>

definition savepid :: "bool \<Rightarrow> procstate \<Rightarrow> procstate" where
  "savepid writable p = (if writable then p\<lparr>ps_pidfile := Some (fmt_i (ps_pid p))\<rparr> else p)"

text \<open>
  \<open>fscanf\<close> leaves the variable as it was, uninitialised, when there is no number; \<open>kill\<close> tells whether
  the process could be signalled.
\<close>

definition huprunning :: "(int \<Rightarrow> bool) \<Rightarrow> int \<Rightarrow> string option \<Rightarrow> int" where
  "huprunning kill uninitialised pidfile = (case pidfile of
       None \<Rightarrow> 0
     | Some s \<Rightarrow> (let pid = (case scan_int s of None \<Rightarrow> uninitialised | Some n \<Rightarrow> n) in if kill pid then 1 else 0))"

text \<open>\<open>cleanpid\<close> with the file; its effect on the configuration is in \<open>Daemon\<close>.\<close>

definition cleanpid_process :: "procstate \<Rightarrow> procstate" where
  "cleanpid_process p = p\<lparr>ps_pidfile := None\<rparr>"

section \<open>Starting\<close>

datatype fork_res = ForkFailed | ForkParent int | ForkChild int

text \<open>The code with which \<open>main\<close> returns, or the process that goes on.\<close>

definition daemonize_process :: "bool \<Rightarrow> fork_res \<Rightarrow> procstate \<Rightarrow> int + procstate" where
  "daemonize_process on_fork f p =
     (if on_fork then (case f of ForkFailed \<Rightarrow> Inl (- 1) | ForkParent _ \<Rightarrow> Inl 0 | ForkChild pid \<Rightarrow> Inr (p\<lparr>ps_pid := pid\<rparr>))
      else Inr p)"

text \<open>
  \<open>main\<close> up to its loop. The drop of privileges comes before the first look at the interfaces, which it does
  not influence.
\<close>

definition main_process ::
    "env \<Rightarrow> (string \<Rightarrow> drop_ids option) \<Rightarrow> opt list \<Rightarrow> fork_res \<Rightarrow> bool \<Rightarrow> bool \<Rightarrow> int \<Rightarrow> u64 \<Rightarrow> bool list \<Rightarrow> procstate \<Rightarrow>
     (int + world \<times> procstate) result" where
  "main_process E getpwnam opts f writable dumpfile sock now cs p =
     rbind (init (blank now cs)) (\<lambda>w.
       case handle_options getpwnam opts (w, (0, 0)) of
         Inl code \<Rightarrow> Inr (Inl code)
       | Inr (w1, ids) \<Rightarrow>
          (case daemonize_process (daemonize w1) f p of
             Inl code \<Rightarrow> Inr (Inl code)
           | Inr p1 \<Rightarrow>
              (let p2 = savepid writable (install_handlers p1);
                   p3 = p2\<lparr>ps_cred := drop_privileges ids (ps_cred p2)\<rparr>
               in rbind (main_start E dumpfile sock w1) (\<lambda>w2. Inr (Inr (w2, p3))))))"

section \<open>What the process is like\<close>

lemma install_handlers_fields [simp]:
  "ps_cred (install_handlers p) = ps_cred p" "ps_pid (install_handlers p) = ps_pid p"
  "ps_pidfile (install_handlers p) = ps_pidfile p"
  by (simp_all add: install_handlers_def signal_set_def)

lemma handlers_installed:
  "ps_handler (install_handlers p) s = (case s of SIGHUP \<Rightarrow> Some H_sighup | SIGINT \<Rightarrow> Some H_cleanpid | SIGTERM \<Rightarrow> Some H_cleanpid
     | SIGKILL \<Rightarrow> ps_handler p SIGKILL | SIGUSR1 \<Rightarrow> Some H_sigusr1 | SIGUSR2 \<Rightarrow> Some H_sigusr2 | SIGALRM \<Rightarrow> Some H_timeout_signal)"
  by (cases s) (simp_all add: install_handlers_def signal_set_def)

text \<open>The process that the pid file names is the one that wrote it.\<close>

lemma huprunning_savepid: "huprunning kill u (ps_pidfile (savepid True p)) = (if kill (ps_pid p) then 1 else 0)"
  by (simp add: huprunning_def savepid_def)

text \<open>Messages for debugging are shown in verbose mode only; everything else always goes somewhere.\<close>

lemma dolog_shows: "dolog g level msg = None \<longleftrightarrow> (\<exists>d. g = Some (False, d)) \<and> level = LOG_DEBUG"
  by (auto simp: dolog_def split: option.splits if_splits)

definition root :: cred where
  "root = \<lparr>c_ruid = 0, c_euid = 0, c_suid = 0, c_rgid = 0, c_egid = 0, c_sgid = 0\<rparr>"

text \<open>The other order of the two calls gives up everything.\<close>

lemma setgid_first: "uid \<noteq> 0 \<Longrightarrow> setuid uid (setgid gid root) =
    \<lparr>c_ruid = uid, c_euid = uid, c_suid = uid, c_rgid = gid, c_egid = gid, c_sgid = gid\<rparr>"
  by (simp add: setuid_def setgid_def root_def)

text \<open>The start that \<open>main_boot\<close> describes is that of the child process.\<close>

lemma main_process_boot:
  assumes "main_boot E getpwnam opts d sock now cs = Inr s"
  shows "\<exists>p'. main_process E getpwnam opts (ForkChild pid) writable d sock now cs p = Inr (Inr (fst s, p'))"
proof -
  from assms obtain w where i: "init (blank now cs) = Inr w" by (auto simp: main_boot_def)
  with assms obtain w1 ids where o: "handle_options getpwnam opts (w, (0, 0)) = Inr (w1, ids)"
    by (cases "handle_options getpwnam opts (w, (0, 0))") (auto simp: main_boot_def)
  with assms i obtain w2 where "main_start E d sock w1 = Inr w2" "s = (w2, False)" by (auto simp: main_boot_def)
  with i o show ?thesis by (simp add: main_process_def daemonize_process_def Let_def)
qed

end
