(* ===== verification/Log_Tables.thy ===== *)
theory Log_Tables
  imports Inet6
begin

text \<open>
  The tables of \<open>ecmh.c\<close> that give ICMPv6 types and codes a name in the log, and the lookups in
  them. A table is an array that ends with an entry without a text; the loop that searches it has
  no other bound.
\<close>

section \<open>The tables\<close>

type_synonym lookup_entry = "u64 \<times> string option"

definition icmpv6_types :: "lookup_entry list" where
  "icmpv6_types = [
     (1, Some ''Destination Unreachable''),
     (2, Some ''Packet too big''),
     (3, Some ''Time Exceeded''),
     (4, Some ''Parameter Problem''),
     (ucast ICMP6_ECHO_REQUEST, Some ''Echo Request''),
     (ucast ICMP6_ECHO_REPLY, Some ''Echo Reply''),
     (ucast ICMP6_MEMBERSHIP_QUERY, Some ''Membership Query''),
     (ucast ICMP6_MEMBERSHIP_REPORT, Some ''Membership Report''),
     (ucast ICMP6_MEMBERSHIP_REDUCTION, Some ''Membership Reduction''),
     (ucast ICMP6_V2_MEMBERSHIP_REPORT, Some ''Membership Report (V2)''),
     (ucast ICMP6_V2_MEMBERSHIP_REPORT_EXP, Some ''Membership Report (V2) - Experimental''),
     (133, Some ''ND Router Solicitation''),
     (134, Some ''ND Router Advertisement''),
     (135, Some ''ND Neighbour Solicitation''),
     (136, Some ''ND Neighbour Advertisement''),
     (137, Some ''ND Redirect''),
     (ucast ICMP6_ROUTER_RENUMBERING, Some ''Router Renumbering''),
     (ucast ICMP6_NI_QUERY, Some ''Node Information Query''),
     (ucast ICMP6_NI_REPLY, Some ''Node Information Reply''),
     (ucast MLD_MTRACE_RESP, Some ''Mtrace Response''),
     (ucast MLD_MTRACE, Some ''Mtrace Message''),
     (0, None)]"

definition icmpv6_codes_unreach :: "lookup_entry list" where
  "icmpv6_codes_unreach = [
     (0, Some ''No route to destination''),
     (1, Some ''Administratively prohibited''),
     (ucast ICMP6_DST_UNREACH_BEYONDSCOPE, Some ''Beyond scope of source address''),
     (3, Some ''Address Unreachable''),
     (4, Some ''Port Unreachable''),
     (0, None)]"

definition icmpv6_codes_ttl :: "lookup_entry list" where
  "icmpv6_codes_ttl = [
     (ucast ICMP6_TIME_EXCEED_TRANSIT, Some ''Time Exceeded during Transit''),
     (1, Some ''Time Exceeded during Reassembly''),
     (0, None)]"

definition icmpv6_codes_param :: "lookup_entry list" where
  "icmpv6_codes_param = [
     (0, Some ''Erroneous Header Field''),
     (1, Some ''Unrecognized Next Header''),
     (2, Some ''Unrecognized Option''),
     (0, None)]"

definition icmpv6_codes_ni :: "lookup_entry list" where
  "icmpv6_codes_ni = [
     (ucast ICMP6_NI_SUCCESS, Some ''Node Information Successful Reply''),
     (ucast ICMP6_NI_REFUSED, Some ''Node Information Request Is Refused''),
     (ucast ICMP6_NI_UNKNOWN, Some ''Unknown Qtype''),
     (0, None)]"

definition icmpv6_codes_renumber :: "lookup_entry list" where
  "icmpv6_codes_renumber = [
     (ucast ICMP6_ROUTER_RENUMBERING_COMMAND, Some ''Router Renumbering Command''),
     (ucast ICMP6_ROUTER_RENUMBERING_RESULT, Some ''Router Renumbering Result''),
     (ucast ICMP6_ROUTER_RENUMBERING_SEQNUM_RESET, Some ''Router Renumbering Sequence Number Reset''),
     (0, None)]"

definition icmpv6_codes_none :: "lookup_entry list" where
  "icmpv6_codes_none = [(0, None)]"

text \<open>The debug build has a table for the types of multicast address records.\<close>

definition mld2_grec_types :: "lookup_entry list" where
  "mld2_grec_types = [
     (ucast MLD2_MODE_IS_INCLUDE, Some ''MLDv2 Mode Is Include''),
     (ucast MLD2_MODE_IS_EXCLUDE, Some ''MLDv2 Mode Is Exclude''),
     (ucast MLD2_CHANGE_TO_INCLUDE, Some ''MLDv2 Change to Include''),
     (ucast MLD2_CHANGE_TO_EXCLUDE, Some ''MLDv2 Change to Exclude''),
     (ucast MLD2_ALLOW_NEW_SOURCES, Some ''MLDv2 Allow New Source''),
     (ucast MLD2_BLOCK_OLD_SOURCES, Some ''MLDv2 Block Old Sources''),
     (0, None)]"

lemmas code_tables = icmpv6_codes_unreach_def icmpv6_codes_ttl_def icmpv6_codes_param_def
  icmpv6_codes_ni_def icmpv6_codes_renumber_def icmpv6_codes_none_def

section \<open>The lookups\<close>

text \<open>The entries from the loop index on; running off the table is a fault.\<close>

fun lookup_from :: "lookup_entry list \<Rightarrow> u32 \<Rightarrow> string result" where
  "lookup_from [] num = Inl OutOfBounds"
| "lookup_from ((n, desc) # l) num = (case desc of
       None \<Rightarrow> Inr ''Unknown''
     | Some d \<Rightarrow> if n \<noteq> ucast num then lookup_from l num else Inr d)"

definition lookup :: "lookup_entry list option \<Rightarrow> u32 \<Rightarrow> string result" where
  "lookup l num = (case l of None \<Rightarrow> Inr ''Unknown'' | Some es \<Rightarrow> lookup_from es num)"

definition icmpv6_type :: "u32 \<Rightarrow> string result" where
  "icmpv6_type t = lookup (Some icmpv6_types) t"

definition icmpv6_code :: "u32 \<Rightarrow> u32 \<Rightarrow> string result" where
  "icmpv6_code t code =
     lookup (Some (if t = 1 then icmpv6_codes_unreach
       else if t = 3 then icmpv6_codes_ttl
       else if t = 4 then icmpv6_codes_param
       else if t = ucast ICMP6_NI_QUERY \<or> t = ucast ICMP6_NI_REPLY then icmpv6_codes_ni
       else if t = ucast ICMP6_ROUTER_RENUMBERING then icmpv6_codes_renumber
       else icmpv6_codes_none)) code"

section \<open>What a lookup returns\<close>

text \<open>A table that ends with its only entry without a text.\<close>

definition terminated :: "lookup_entry list \<Rightarrow> bool" where
  "terminated l \<longleftrightarrow> l \<noteq> [] \<and> last l = (0, None) \<and> list_all (\<lambda>e. snd e \<noteq> None) (butlast l)"

definition named :: "lookup_entry list \<Rightarrow> u64 \<Rightarrow> string" where
  "named l n = (case map_of (butlast l) n of Some (Some d) \<Rightarrow> d | _ \<Rightarrow> ''Unknown'')"

lemma lookup_terminated:
  assumes "terminated l"
  shows "lookup (Some l) num = Inr (named l (ucast num))"
proof -
  have "lookup_from l num = Inr (named l (ucast num))"
    using assms
  proof (induction l num rule: lookup_from.induct)
    case (2 n desc l num)
    then show ?case
      by (cases "l = []"; cases desc) (auto simp: terminated_def named_def)
  qed (simp add: terminated_def)
  then show ?thesis by (simp add: lookup_def)
qed

lemma tables_terminated:
  "terminated icmpv6_types" "terminated icmpv6_codes_unreach" "terminated icmpv6_codes_ttl"
  "terminated icmpv6_codes_param" "terminated icmpv6_codes_ni" "terminated icmpv6_codes_renumber"
  "terminated icmpv6_codes_none" "terminated mld2_grec_types"
  by (simp_all add: terminated_def icmpv6_types_def mld2_grec_types_def code_tables)

lemma icmpv6_types_distinct: "distinct (map fst (butlast icmpv6_types))"
  by (simp add: icmpv6_types_def layout)

lemma named_entry:
  assumes "distinct (map fst (butlast l))" and "(n, Some d) \<in> set (butlast l)"
  shows "named l n = d"
  using assms map_of_is_SomeI [of "butlast l" n "Some d"] by (simp add: named_def)

text \<open>
  The lookups of the log never run off a table, although the loop is bounded by the last entry
  only: for every type and code they return a text. Every type of the table is given the text of
  its own entry, and a type that is not in the table is unknown.
\<close>

theorem lookup_reads_table:
  "(\<exists>s. icmpv6_code t code = Inr s) \<and> icmpv6_type t = Inr (named icmpv6_types (ucast t)) \<and>
   list_all (\<lambda>(n, desc). desc = Some (named icmpv6_types n)) (butlast icmpv6_types)"
proof (intro conjI)
  show "\<exists>s. icmpv6_code t code = Inr s"
    by (simp add: icmpv6_code_def lookup_terminated tables_terminated)
  show "icmpv6_type t = Inr (named icmpv6_types (ucast t))"
    by (simp add: icmpv6_type_def lookup_terminated tables_terminated)
  show "list_all (\<lambda>(n, desc). desc = Some (named icmpv6_types n)) (butlast icmpv6_types)"
  proof (clarsimp simp: list_all_iff)
    fix n desc assume e: "(n, desc) \<in> set (butlast icmpv6_types)"
    with tables_terminated(1) obtain d where "desc = Some d" by (auto simp: terminated_def list_all_iff)
    with e named_entry [OF icmpv6_types_distinct] show "desc = Some (named icmpv6_types n)" by simp
  qed
qed

end
