(* ===== verification/Proc_Ifaces.thy ===== *)
theory Proc_Ifaces
  imports Update_Ifaces
begin

text \<open>
  \<open>update_interfaces\<close> as it is compiled without \<open>getifaddrs\<close>: the addresses are read from the lines of
  \<open>/proc/net/if_inet6\<close>. What follows for an address is the code of the other variant.
\<close>

section \<open>Reading a line\<close>

text \<open>The buffer of 256 characters keeps what was read before behind the end of a line.\<close>

definition fgets_size :: nat where [layout]: "fgets_size = 256"

definition NL :: char where "NL = CHR 0x0A"
definition NUL :: char where "NUL = CHR 0x00"

fun fgets_line :: "nat \<Rightarrow> string \<Rightarrow> string \<times> string" where
  "fgets_line 0 cs = ([], cs)"
| "fgets_line (Suc n) [] = ([], [])"
| "fgets_line (Suc n) (c # cs) =
     (if c = NL then ([c], cs) else (case fgets_line n cs of (l, rest) \<Rightarrow> (c # l, rest)))"

definition fgets_into :: "string \<Rightarrow> string \<Rightarrow> string" where
  "fgets_into line buf = line @ [NUL] @ drop (length line + 1) buf"

text \<open>\<open>assert\<close> ends the program.\<close>

definition nibble2int :: "char \<Rightarrow> u8 result" where
  "nibble2int c0 = (let c = of_char (tolower c0) :: nat in
     if c \<ge> of_char CHR ''0'' \<and> c \<le> of_char CHR ''9'' then Inr (of_nat (c - of_char CHR ''0''))
     else if c \<ge> of_char CHR ''a'' \<and> c \<le> of_char CHR ''f'' then Inr (of_nat (c - of_char CHR ''a'' + 10))
     else Inl ExitFailure)"

fun proc_addr :: "nat \<Rightarrow> string \<Rightarrow> in6_addr result" where
  "proc_addr 0 buf = Inr []"
| "proc_addr (Suc n) buf = (case buf of
       h # l # cs \<Rightarrow> rbind (nibble2int h) (\<lambda>a. rbind (nibble2int l) (\<lambda>b.
         rbind (proc_addr n cs) (\<lambda>as. Inr ((push_bit 4 a + b) # as))))
     | _ \<Rightarrow> Inl OutOfBounds)"

text \<open>The conversions \<open>%x\<close> and \<open>%8s\<close> of \<open>sscanf\<close>; both skip white space first.\<close>

definition hex_value :: "char \<Rightarrow> nat option" where
  "hex_value c0 = (let c = of_char (tolower c0) :: nat in
     if c \<ge> 48 \<and> c \<le> 57 then Some (c - 48) else if c \<ge> 97 \<and> c \<le> 102 then Some (c - 87) else None)"

definition read_hex :: "string \<Rightarrow> nat" where
  "read_hex s = foldl (\<lambda>n c. 16 * n + the (hex_value c)) 0 s"

definition hex_prefix :: "string \<Rightarrow> string" where
  "hex_prefix s = (case s of a # b # cs \<Rightarrow> if a = CHR ''0'' \<and> (b = CHR ''x'' \<or> b = CHR ''X'') then cs else s | _ \<Rightarrow> s)"

definition scan_x :: "string \<Rightarrow> (u32 \<times> string) option" where
  "scan_x s =
     (let s1 = dropWhile is_space s;
          neg = (case s1 of c # _ \<Rightarrow> c = CHR ''-'' | [] \<Rightarrow> False);
          s2 = (case s1 of c # cs \<Rightarrow> if c = CHR ''-'' \<or> c = CHR ''+'' then cs else s1 | [] \<Rightarrow> []);
          s3 = hex_prefix s2;
          ds = takeWhile (\<lambda>c. hex_value c \<noteq> None) s3;
          n = of_nat (min (read_hex ds) (2 ^ 64 - 1)) :: u32
      in if ds = [] then None else Some (if neg then - n else n, drop (length ds) s3))"

definition scan_8s :: "string \<Rightarrow> (string \<times> string) option" where
  "scan_8s s = (let s1 = dropWhile is_space s; w = take 8 (takeWhile (\<lambda>c. \<not> is_space c) s1)
     in if w = [] then None else Some (w, drop (length w) s1))"

text \<open>\<open>ifindex\<close> of a line in which all five conversions succeed.\<close>

definition scan_line :: "string \<Rightarrow> u32 option" where
  "scan_line s = (case scan_x s of None \<Rightarrow> None | Some (ifindex, s1) \<Rightarrow>
     (case scan_x s1 of None \<Rightarrow> None | Some (_, s2) \<Rightarrow>
     (case scan_x s2 of None \<Rightarrow> None | Some (_, s3) \<Rightarrow>
     (case scan_x s3 of None \<Rightarrow> None | Some (_, s4) \<Rightarrow>
       map_option (\<lambda>_. ifindex) (scan_8s s4)))))"

section \<open>The loop\<close>

definition proc_round :: "env \<Rightarrow> nat option \<Rightarrow> in6_addr \<Rightarrow> u32 \<Rightarrow> ifa_state \<Rightarrow> (bool \<times> ifa_state) result" where
  "proc_round E specific addr ifindex = (\<lambda>(gotlinkl, gotglobal, w).
     if ifa_skipped (SA_INET6 addr) then Inr (False, gotlinkl, gotglobal, w)
     else case specific of
       Some i \<Rightarrow>
         if in_ifindex (ints w ! i) = ucast ifindex then Inr (False, gotlinkl, gotglobal, w)
         else (case update_addr (SA_INET6 addr) i (gotlinkl, gotglobal, w) of (l, g, w1) \<Rightarrow> Inr (l \<and> g, l, g, w1))
     | None \<Rightarrow> rbind (update_any E (SA_INET6 addr) ifindex w) (\<lambda>w1. Inr (False, gotlinkl, gotglobal, w1)))"

lemma fgets_line_split: "fgets_line n cs = (l, rest) \<Longrightarrow> cs = l @ rest"
  by (induction n cs arbitrary: l rest rule: fgets_line.induct) (auto split: if_splits prod.splits)

lemma fgets_line_shorter:
  assumes "(l, rest) = fgets_line (fgets_size - Suc 0) cs" and "cs \<noteq> []"
  shows "length rest < length cs"
proof -
  obtain n where n: "fgets_size - Suc 0 = Suc n" by (cases "fgets_size - Suc 0") (auto simp: fgets_size_def)
  obtain d ds where cs: "cs = d # ds" using assms(2) by (cases cs) auto
  have "l \<noteq> []" using assms(1) unfolding n cs by (auto split: if_splits prod.splits)
  then show ?thesis using fgets_line_split [OF assms(1) [symmetric]] by (cases l) auto
qed

function proc_loop :: "env \<Rightarrow> nat option \<Rightarrow> string \<Rightarrow> string \<Rightarrow> ifa_state \<Rightarrow> world result" where
  "proc_loop E specific file buf s =
     (if file = [] then Inr (snd (snd s))
      else case fgets_line (fgets_size - 1) file of (line, rest) \<Rightarrow>
        (let buf1 = fgets_into line buf in
         rbind (proc_addr 16 buf1) (\<lambda>addr.
           case scan_line (takeWhile (\<lambda>c. c \<noteq> NUL) (drop 33 buf1)) of
             None \<Rightarrow> proc_loop E specific rest buf1 s
           | Some ifindex \<Rightarrow> rbind (proc_round E specific addr ifindex s) (\<lambda>(done, s1).
               if done then Inr (snd (snd s1)) else proc_loop E specific rest buf1 s1))))"
  by pat_completeness auto
termination
  by (relation "measure (\<lambda>(E, specific, file, buf, s). length file)") (auto dest: fgets_line_shorter)

declare proc_loop.simps [simp del]

definition update_interfaces_proc :: "env \<Rightarrow> string option \<Rightarrow> string \<Rightarrow> nat option \<Rightarrow> world \<Rightarrow> world result" where
  "update_interfaces_proc E file buf intn w =
     (let t = gettimes w in
      if w_last_update w + 5 * 60 > t then Inr w
      else (let w1 = w\<lparr>w_last_update := t\<rparr> in
        case file of
          None \<Rightarrow> Inr w1
        | Some cs \<Rightarrow> proc_loop E intn cs buf (False, False, w1)))"

section \<open>The lines that the kernel writes\<close>

definition hexdigit :: "nat \<Rightarrow> char" where
  "hexdigit n = (if n < 10 then char_of (48 + n) else char_of (87 + n))"

definition hex_byte :: "u8 \<Rightarrow> string" where
  "hex_byte b = [hexdigit (unat b div 16), hexdigit (unat b mod 16)]"

fun hex :: "nat \<Rightarrow> string" where
  "hex n = (if n < 16 then [hexdigit n] else hex (n div 16) @ [hexdigit (n mod 16)])"

declare hex.simps [simp del]

definition hex02 :: "u32 \<Rightarrow> string" where
  "hex02 w = (if unat w < 16 then ''0'' else []) @ hex (unat w)"

record proc_entry =
  pe_addr :: in6_addr
  pe_ifindex :: u32
  pe_plen :: u32
  pe_scope :: u32
  pe_flags :: u32
  pe_name :: string

definition proc_tail :: "proc_entry \<Rightarrow> string" where
  "proc_tail e = hex02 (pe_ifindex e) @ '' '' @ hex02 (pe_plen e) @ '' '' @ hex02 (pe_scope e) @ '' '' @ hex02 (pe_flags e)
     @ '' '' @ replicate (8 - length (pe_name e)) CHR '' '' @ pe_name e @ [NL]"

definition proc_line :: "proc_entry \<Rightarrow> string" where
  "proc_line e = concat (map hex_byte (pe_addr e)) @ '' '' @ proc_tail e"

text \<open>Names are short and have only visible characters, neither white space nor the end of a line or string.\<close>

definition visible :: "char \<Rightarrow> bool" where
  "visible c \<longleftrightarrow> of_char c > (32 :: nat)"

definition proc_ok :: "proc_entry \<Rightarrow> bool" where
  "proc_ok e \<longleftrightarrow> addr_wf (pe_addr e) \<and> pe_name e \<noteq> [] \<and> length (pe_name e) < 16 \<and>
     list_all visible (pe_name e)"

lemma of_hexdigit: "n < 16 \<Longrightarrow> of_char (hexdigit n) = (if n < 10 then 48 + n else 87 + n)"
  by (simp add: hexdigit_def of_char_of)

lemma hexdigit_values:
  assumes "n < 16"
  shows "nibble2int (hexdigit n) = Inr (of_nat n)" and "hex_value (hexdigit n) = Some n"
    and "hexdigit n \<notin> {CHR ''-'', CHR ''+'', CHR ''x'', CHR ''X''}"
proof -
  have l: "tolower (hexdigit n) = hexdigit n" using assms by (simp add: tolower_def of_hexdigit)
  show "nibble2int (hexdigit n) = Inr (of_nat n)" "hex_value (hexdigit n) = Some n"
    using assms by (simp_all add: nibble2int_def hex_value_def l of_hexdigit Let_def)
  have "(of_char (hexdigit n) :: nat) \<notin> of_char ` {CHR ''-'', CHR ''+'', CHR ''x'', CHR ''X'' :: char}"
    using assms by (simp add: of_hexdigit)
  then show "hexdigit n \<notin> {CHR ''-'', CHR ''+'', CHR ''x'', CHR ''X''}" by blast
qed

lemma visible_props: "visible c \<Longrightarrow> \<not> is_space c \<and> c \<noteq> NL \<and> c \<noteq> NUL"
  by (auto simp: visible_def is_space_def NL_def NUL_def)

lemma hexdigit_visible: "n < 16 \<Longrightarrow> visible (hexdigit n)"
  by (simp add: visible_def of_hexdigit)

definition is_hexdigit :: "char \<Rightarrow> bool" where
  "is_hexdigit c \<longleftrightarrow> (\<exists>n < 16. c = hexdigit n)"

lemma is_hexdigitI [simp]: "n < 16 \<Longrightarrow> is_hexdigit (hexdigit n)"
  by (auto simp: is_hexdigit_def)

abbreviation hexstring :: "string \<Rightarrow> bool" where
  "hexstring s \<equiv> list_all is_hexdigit s"

lemma hexstring_visible: "hexstring s \<Longrightarrow> list_all visible s"
  using hexdigit_visible by (auto simp: is_hexdigit_def list_all_iff)

lemma hexstring_bytes: "hexstring (concat (map hex_byte a))"
proof (induction a)
  case (Cons b a)
  have "unat b div 16 < 16" "unat b mod 16 < 16" using unat_u8_lt [of b] by simp_all
  then have "hexstring (hex_byte b)" by (simp add: hex_byte_def)
  with Cons show ?case by simp
qed simp

lemma hex_props: "hexstring (hex n) \<and> read_hex (hex n) = n \<and> hex n \<noteq> [] \<and> (16 \<le> n \<longrightarrow> 2 \<le> length (hex n)) \<and>
    (n < 16 ^ k \<longrightarrow> 0 < k \<longrightarrow> length (hex n) \<le> k)"
proof (induction n arbitrary: k rule: hex.induct)
  case (1 n)
  have snoc: "read_hex (s @ [hexdigit d]) = 16 * read_hex s + d" if "d < 16" for s d
    using hexdigit_values [OF that] by (simp add: read_hex_def)
  show ?case
  proof (cases "n < 16")
    case True
    with snoc [of n "[]"] show ?thesis by (auto simp: hex.simps [of n] read_hex_def)
  next
    case False
    note ih = 1 [OF False]
    have "length (hex n) \<le> k" if "n < 16 ^ k" "0 < k"
    proof (cases k)
      case (Suc j)
      then have "n div 16 < 16 ^ j" using that by (simp add: less_mult_imp_div_less mult.commute)
      moreover have "0 < j" using that Suc False by (cases j) auto
      ultimately show ?thesis using ih [of j] Suc False by (simp add: hex.simps [of n])
    qed (use that in simp)
    then show ?thesis
      using ih False snoc [of "n mod 16" "hex (n div 16)"] by (cases "hex (n div 16)") (auto simp: hex.simps [of n])
  qed
qed

lemma hex02_props:
  shows "hexstring (hex02 w)" and "read_hex (hex02 w) = unat w" and "2 \<le> length (hex02 w)" and "length (hex02 w) \<le> 8"
proof -
  have lt: "unat w < 16 ^ 8" using unsigned_less [of w, where ?'a = nat] by simp
  have z: "CHR ''0'' = hexdigit 0" unfolding hexdigit_def by code_simp
  have r: "read_hex (hexdigit 0 # s) = read_hex s" for s
    using hexdigit_values [of 0] by (simp add: read_hex_def)
  show "hexstring (hex02 w)" "read_hex (hex02 w) = unat w" "2 \<le> length (hex02 w)" "length (hex02 w) \<le> 8"
    using hex_props [of "unat w" 8] hex_props [of "unat w" 1] lt
    by (auto simp: hex02_def z r Suc_le_eq)
qed

section \<open>Reading what the kernel writes\<close>

lemma hex_value_space: "hex_value CHR '' '' = None" and space_space: "is_space CHR '' ''"
  by (simp_all add: hex_value_def tolower_def is_space_def)

lemma is_hexdigit_props: "is_hexdigit c \<Longrightarrow> \<not> is_space c \<and> hex_value c \<noteq> None \<and> c \<notin> {CHR ''-'', CHR ''+'', CHR ''x'', CHR ''X''}"
  using hexdigit_values hexdigit_visible visible_props by (fastforce simp: is_hexdigit_def)

lemma takeWhile_hex: "hexstring s \<Longrightarrow> takeWhile (\<lambda>c. hex_value c \<noteq> None) (s @ CHR '' '' # rest) = s"
  using is_hexdigit_props hex_value_space by (induction s) auto

lemma scan_x_hex02: "scan_x (hex02 w @ CHR '' '' # rest) = Some (w, CHR '' '' # rest)"
proof -
  let ?s = "hex02 w @ CHR '' '' # rest"
  note p = hex02_props [of w]
  obtain c d ds where s: "hex02 w = c # d # ds" using p(3) by (cases "hex02 w" rule: remdups_adj.cases) auto
  have cd: "is_hexdigit c" "is_hexdigit d" using p(1) unfolding s by simp_all
  have "dropWhile is_space ?s = ?s" unfolding s using is_hexdigit_props [OF cd(1)] by simp
  moreover have "hex_prefix ?s = ?s" unfolding s hex_prefix_def using is_hexdigit_props [OF cd(2)] by simp
  moreover have "unat w < 2 ^ 64 - 1" using unsigned_less [of w, where ?'a = nat] by simp
  ultimately show ?thesis
    using takeWhile_hex [OF p(1)] p(2) is_hexdigit_props [OF cd(1)]
    by (simp add: scan_x_def Let_def s)
qed

lemma scan_x_space: "scan_x (CHR '' '' # s) = scan_x s"
  by (simp add: scan_x_def space_space)

lemma scan_8s_spaces: "scan_8s (replicate n CHR '' '' @ s) = scan_8s s" "scan_8s (CHR '' '' # s) = scan_8s s"
  by (simp_all add: scan_8s_def space_space dropWhile_append3 del: dropWhile_replicate)
    (induction n; simp add: space_space)

lemma scan_line_tail:
  assumes "proc_ok e"
  shows "scan_line (proc_tail e) = Some (pe_ifindex e)"
proof -
  obtain c cs where n: "pe_name e = c # cs" "visible c" using assms by (cases "pe_name e") (auto simp: proc_ok_def)
  then have "\<exists>r. scan_8s (pe_name e @ [NL]) = Some r" using visible_props by (simp add: scan_8s_def Let_def)
  then show ?thesis
    by (auto simp: scan_line_def proc_tail_def scan_x_hex02 scan_x_space scan_8s_spaces)
qed

lemma byte_nibbles: "push_bit 4 (of_nat (unat b div 16)) + of_nat (unat b mod 16) = (b :: u8)"
proof -
  have "push_bit 4 (of_nat (unat b div 16)) + of_nat (unat b mod 16) = (of_nat (16 * (unat b div 16) + unat b mod 16) :: u8)"
    by (simp only: push_bit_eq_mult of_nat_add of_nat_mult) simp
  then show ?thesis by (simp only: mult_div_mod_eq) simp
qed

lemma proc_addr_bytes: "length a = n \<Longrightarrow> proc_addr n (concat (map hex_byte a) @ rest) = Inr a"
proof (induction n arbitrary: a)
  case (Suc n)
  then obtain b as where a: "a = b # as" "length as = n" by (cases a) auto
  have "unat b div 16 < 16" "unat b mod 16 < 16" using unat_u8_lt [of b] by simp_all
  with hexdigit_values(1) Suc.IH [OF a(2)] show ?case by (simp add: a(1) hex_byte_def byte_nibbles)
qed simp

lemma length_hex_bytes: "length (concat (map hex_byte a)) = 2 * length a"
  by (induction a) (simp_all add: hex_byte_def)

lemma fgets_line_whole:
  assumes "NL \<notin> set s" and "length s < n"
  shows "fgets_line n (s @ NL # rest) = (s @ [NL], rest)"
  using assms by (induction s arbitrary: n) (case_tac n; auto)+

lemma proc_line_shape:
  assumes "proc_ok e"
  shows "\<exists>s. proc_line e = s @ [NL] \<and> NL \<notin> set s \<and> NUL \<notin> set s \<and> length s < 255"
proof -
  let ?s = "concat (map hex_byte (pe_addr e)) @ '' '' @ hex02 (pe_ifindex e) @ '' '' @ hex02 (pe_plen e) @ '' ''
    @ hex02 (pe_scope e) @ '' '' @ hex02 (pe_flags e) @ '' '' @ replicate (8 - length (pe_name e)) CHR '' '' @ pe_name e"
  have vis: "NL \<notin> set s \<and> NUL \<notin> set s" if "list_all visible s" for s
    using that visible_props by (fastforce simp: list_all_iff)
  have name: "list_all visible (pe_name e)" using assms by (simp add: proc_ok_def)
  have "NL \<notin> set ?s \<and> NUL \<notin> set ?s"
    using vis [OF name] vis [OF hexstring_visible [OF hexstring_bytes, of "pe_addr e"]] vis [OF hexstring_visible [OF hex02_props(1)]]
    by (auto simp: NL_def NUL_def)
  moreover have "length ?s < 255"
    using assms hex02_props(4) [of "pe_ifindex e"] hex02_props(4) [of "pe_plen e"] hex02_props(4) [of "pe_scope e"]
      hex02_props(4) [of "pe_flags e"]
    by (simp only: proc_ok_def addr_wf_def length_append length_hex_bytes list.size length_replicate) linarith
  moreover have "proc_line e = ?s @ [NL]" by (simp add: proc_line_def proc_tail_def)
  ultimately show ?thesis by blast
qed

text \<open>The line in the buffer gives the entry back, whatever was in the buffer before.\<close>

lemma proc_line_read:
  assumes "proc_ok e"
  shows "proc_addr 16 (fgets_into (proc_line e) buf) = Inr (pe_addr e)"
    and "scan_line (takeWhile (\<lambda>c. c \<noteq> NUL) (drop 33 (fgets_into (proc_line e) buf))) = Some (pe_ifindex e)"
proof -
  have len: "length (pe_addr e) = 16" using assms by (simp add: proc_ok_def addr_wf_def)
  have into: "fgets_into (proc_line e) buf =
      concat (map hex_byte (pe_addr e)) @ CHR '' '' # proc_tail e @ NUL # drop (length (proc_line e) + 1) buf"
    by (simp add: fgets_into_def proc_line_def)
  show "proc_addr 16 (fgets_into (proc_line e) buf) = Inr (pe_addr e)"
    unfolding into by (rule proc_addr_bytes [OF len])
  have "drop 33 (fgets_into (proc_line e) buf) = proc_tail e @ NUL # drop (length (proc_line e) + 1) buf"
    unfolding into by (simp add: length_hex_bytes len)
  moreover have "NUL \<notin> set (proc_tail e)"
  proof -
    obtain s where "proc_line e = s @ [NL]" "NUL \<notin> set s" using proc_line_shape [OF assms] by blast
    then have "NUL \<notin> set (proc_line e)" by (simp add: NL_def NUL_def)
    then show ?thesis by (simp add: proc_line_def)
  qed
  then have "takeWhile (\<lambda>c. c \<noteq> NUL) (proc_tail e @ NUL # rest) = proc_tail e" for rest
    by (subst takeWhile_append2) auto
  ultimately show "scan_line (takeWhile (\<lambda>c. c \<noteq> NUL) (drop 33 (fgets_into (proc_line e) buf))) = Some (pe_ifindex e)"
    using scan_line_tail [OF assms] by simp
qed

lemma proc_loop_line:
  assumes "proc_ok e"
  shows "proc_loop E specific (proc_line e @ rest) buf s =
    rbind (proc_round E specific (pe_addr e) (pe_ifindex e) s) (\<lambda>(done, s1).
      if done then Inr (snd (snd s1)) else proc_loop E specific rest (fgets_into (proc_line e) buf) s1)"
proof -
  obtain l where l: "proc_line e = l @ [NL]" "NL \<notin> set l" "length l < 255" using proc_line_shape [OF assms] by blast
  have "fgets_line (fgets_size - 1) (proc_line e @ rest) = (proc_line e, rest)"
    using fgets_line_whole [OF l(2), of 255 rest] l(1,3) by (simp add: fgets_size_def)
  moreover have "proc_line e \<noteq> []" using l(1) by simp
  ultimately show ?thesis
    by (simp add: proc_loop.simps [of E specific "proc_line e @ rest"] proc_line_read [OF assms] Let_def)
qed

text \<open>
  What \<open>getifaddrs\<close> reports beside the file. The file has a line for every IPv6 address; the variant
  that reads it knows neither the flags of an interface nor addresses of other families.
\<close>

definition inet6_of :: "ifaddr \<Rightarrow> (string \<times> in6_addr) option" where
  "inet6_of ifa = (case ifa_addr ifa of Some (SA_INET6 a) \<Rightarrow> Some (ifa_name ifa, a) | _ \<Rightarrow> None)"

definition flags_matter_not :: "ifaddr \<Rightarrow> bool" where
  "flags_matter_not ifa = (case ifa_addr ifa of None \<Rightarrow> True
     | Some sa \<Rightarrow> (case sa of
          SA_INET6 a \<Rightarrow> ifa_ignored (ifa_flags ifa) sa \<longrightarrow> ifa_skipped sa
        | _ \<Rightarrow> ifa_ignored (ifa_flags ifa) sa))"

lemma update_loop_passes:
  assumes "ifa_addr ifa = None \<or> (\<exists>sa. ifa_addr ifa = Some sa \<and>
    (ifa_ignored (ifa_flags ifa) sa \<or> ifa_skipped sa \<and> \<not> ifa_overreads E sa))"
  shows "update_loop E specific (ifa # ifas) (l, g, w) = update_loop E specific ifas (l, g, w)"
  using assms by auto

lemma proc_loop_agrees:
  assumes "list_all proc_ok es" and "\<forall>e \<in> set es. env_nametoindex E (pe_name e) = pe_ifindex e"
    and "map (\<lambda>e. (pe_name e, pe_addr e)) es = List.map_filter inet6_of ifas" and "list_all flags_matter_not ifas"
  shows "proc_loop E specific (concat (map proc_line es)) buf (l, g, w) = update_loop E specific ifas (l, g, w)"
  using assms
proof (induction ifas arbitrary: es buf l g w)
  case Nil
  then show ?case by (simp add: proc_loop.simps map_filter_simps)
next
  case (Cons ifa ifas)
  show ?case
  proof (cases "inet6_of ifa")
    case None
    then have "ifa_addr ifa = None \<or> (\<exists>sa. ifa_addr ifa = Some sa \<and> ifa_ignored (ifa_flags ifa) sa)"
      using Cons.prems(4) by (auto simp: inet6_of_def flags_matter_not_def split: option.splits ifaddr_sa.splits)
    then have "update_loop E specific (ifa # ifas) (l, g, w) = update_loop E specific ifas (l, g, w)"
      by (intro update_loop_passes) blast
    with Cons None show ?thesis by (simp add: map_filter_simps)
  next
    case (Some x)
    then obtain a where sa: "ifa_addr ifa = Some (SA_INET6 a)" and x: "x = (ifa_name ifa, a)"
      by (auto simp: inet6_of_def split: option.splits ifaddr_sa.splits)
    from Cons.prems(3) Some x obtain e es' where es: "es = e # es'" "pe_name e = ifa_name ifa" "pe_addr e = a"
      "map (\<lambda>e. (pe_name e, pe_addr e)) es' = List.map_filter inet6_of ifas"
      by (cases es) (simp_all add: map_filter_simps)
    have ok: "proc_ok e" and ix: "env_nametoindex E (ifa_name ifa) = pe_ifindex e"
      using Cons.prems(1,2) es(1,2) by auto
    have ih: "proc_loop E specific (concat (map proc_line es')) buf (l, g, w) = update_loop E specific ifas (l, g, w)"
      for buf l g w using Cons es by simp
    have over: "\<not> ifa_overreads E (SA_INET6 a)" by (simp add: ifa_overreads_def)
    show ?thesis
    proof (cases "ifa_skipped (SA_INET6 a)")
      case True
      then have "update_loop E specific (ifa # ifas) (l, g, w) = update_loop E specific ifas (l, g, w)"
        using sa over by (intro update_loop_passes) blast
      with True show ?thesis by (simp add: es(1,3) proc_loop_line [OF ok] proc_round_def ih)
    next
      case False
      then have run: "\<not> ifa_ignored (ifa_flags ifa) (SA_INET6 a)"
        using Cons.prems(4) sa by (simp add: flags_matter_not_def)
      show ?thesis
      proof (cases specific)
        case None
        then show ?thesis
          by (cases "update_any E (SA_INET6 a) (pe_ifindex e) w")
            (simp_all add: es(1,3) proc_loop_line [OF ok] proc_round_def ih [unfolded None] sa run over False ix Let_def)
      next
        case (Some i)
        obtain l1 g1 w1 where u: "update_addr (SA_INET6 a) i (l, g, w) = (l1, g1, w1)"
          by (cases "update_addr (SA_INET6 a) i (l, g, w)")
        with Some show ?thesis
          by (simp add: es(1,3) proc_loop_line [OF ok] proc_round_def ih [unfolded Some] sa run over False ix Let_def)
      qed
    qed
  qed
qed

text \<open>
  C26: Where the flags of the interfaces make no difference, both variants of the discovery of
  interfaces do the same. Let \<open>/proc/net/if_inet6\<close> hold the lines that the kernel writes for the IPv6
  addresses that \<open>getifaddrs\<close> lists, let every such address be of an interface that is up, running and no
  loopback, or be one that says nothing (\<open>::1\<close>, say), and let every other address be passed over by the
  other variant (link-layer addresses, loopbacks, interfaces that do not run): then the variant that parses
  the file has exactly the result of the other. Every line is read as a whole, its 32 digits give back
  the address and its first number the index, whatever the buffer held before, no assertion
  fails, and the loop ends. Without these conditions the variants differ: the file does not tell the flags,
  and has no IPv4 addresses.
\<close>

theorem proc_discovery_agrees:
  assumes "list_all proc_ok es" and "\<forall>e \<in> set es. env_nametoindex E (pe_name e) = pe_ifindex e"
    and "env_getifaddrs E = Some ifas" and "map (\<lambda>e. (pe_name e, pe_addr e)) es = List.map_filter inet6_of ifas"
    and "list_all flags_matter_not ifas"
  shows "update_interfaces_proc E (Some (concat (map proc_line es))) buf intn w = update_interfaces E intn w"
  using assms by (simp add: update_interfaces_proc_def update_interfaces_def proc_loop_agrees Let_def)

text \<open>A file of two lines, where the system lists four addresses.\<close>

definition ex_entry :: proc_entry where
  "ex_entry = \<lparr>pe_addr = [0xfe, 0x80] @ replicate 13 0 @ [9], pe_ifindex = 2, pe_plen = 64, pe_scope = 32, pe_flags = 128,
     pe_name = ''eth0''\<rparr>"

definition ex_entry_lo :: proc_entry where
  "ex_entry_lo = \<lparr>pe_addr = replicate 15 0 @ [1], pe_ifindex = 1, pe_plen = 128, pe_scope = 16, pe_flags = 128,
     pe_name = ''lo''\<rparr>"

definition ex_ifas :: "ifaddr list" where
  "ex_ifas = [\<lparr>ifa_name = ''lo'', ifa_flags = 0x49, ifa_addr = Some (SA_INET [127, 0, 0, 1, 0, 0, 0, 0, 0, 0, 0, 0, 0, 0, 0, 0])\<rparr>,
     \<lparr>ifa_name = ''lo'', ifa_flags = 0x49, ifa_addr = Some (SA_INET6 (replicate 15 0 @ [1]))\<rparr>,
     \<lparr>ifa_name = ''eth0'', ifa_flags = 0x41, ifa_addr = Some SA_PACKET\<rparr>,
     \<lparr>ifa_name = ''eth0'', ifa_flags = 0x41, ifa_addr = Some (SA_INET6 ([0xfe, 0x80] @ replicate 13 0 @ [9]))\<rparr>]"

definition ex_proc_env :: env where
  "ex_proc_env = \<lparr>env_sendto = (\<lambda>_ _. Sent), env_socket = True, env_ifname = (\<lambda>_. Some ''eth0''), env_ifmtu = (\<lambda>_. Some 1500),
     env_ifhwaddr = (\<lambda>_. Some 1), env_nametoindex = (\<lambda>s. if s = ''lo'' then 1 else 2), env_getifaddrs = Some ex_ifas,
     env_behind = False\<rparr>"

theorem proc_discovery_agrees_witness:
  "\<forall>w. update_interfaces_proc ex_proc_env (Some (proc_line ex_entry_lo @ proc_line ex_entry)) (replicate 256 NUL) None w =
     update_interfaces ex_proc_env None w"
proof
  fix w
  have ok: "list_all proc_ok [ex_entry_lo, ex_entry]"
    by (simp add: proc_ok_def ex_entry_def ex_entry_lo_def addr_wf_def visible_def)
  have "list_all flags_matter_not ex_ifas" by code_simp
  moreover have "map (\<lambda>e. (pe_name e, pe_addr e)) [ex_entry_lo, ex_entry] = List.map_filter inet6_of ex_ifas" by code_simp
  moreover have "env_getifaddrs ex_proc_env = Some ex_ifas"
    "\<forall>e \<in> set [ex_entry_lo, ex_entry]. env_nametoindex ex_proc_env (pe_name e) = pe_ifindex e"
    by (simp_all add: ex_proc_env_def ex_entry_def ex_entry_lo_def)
  ultimately show "update_interfaces_proc ex_proc_env (Some (proc_line ex_entry_lo @ proc_line ex_entry)) (replicate 256 NUL) None w =
     update_interfaces ex_proc_env None w"
    using proc_discovery_agrees [OF ok, of ex_proc_env ex_ifas "replicate 256 NUL" None w] by simp
qed

end
