(* ===== verification/Trace_Header.thy ===== *)
theory Trace_Header
  imports Inet6
begin

text \<open>
  \<open>trace.h\<close>: the two structures of a multicast traceroute as they lie in memory, 32-bit byte order,
  and the macros that convert between prefix lengths and masks.
\<close>

text \<open>The routing protocols of \<open>tr_rproto\<close>.\<close>

definition PROTO_DVMRP :: u8 where "PROTO_DVMRP = 1"
definition PROTO_MOSPF :: u8 where "PROTO_MOSPF = 2"
definition PROTO_PIM :: u8 where "PROTO_PIM = 3"
definition PROTO_CBT :: u8 where "PROTO_CBT = 4"
definition PROTO_PIM_SPECIAL :: u8 where "PROTO_PIM_SPECIAL = 5"
definition PROTO_PIM_STATIC :: u8 where "PROTO_PIM_STATIC = 6"
definition PROTO_DVMRP_STATIC :: u8 where "PROTO_DVMRP_STATIC = 7"
definition PROTO_MLD :: u8 where "PROTO_MLD = 8"

lemmas routing_protocols = PROTO_DVMRP_def PROTO_MOSPF_def PROTO_PIM_def PROTO_CBT_def
  PROTO_PIM_SPECIAL_def PROTO_PIM_STATIC_def PROTO_DVMRP_STATIC_def PROTO_MLD_def

section \<open>32-bit values\<close>

definition le32 :: "u8 \<Rightarrow> u8 \<Rightarrow> u8 \<Rightarrow> u8 \<Rightarrow> u32" where
  "le32 b0 b1 b2 b3 = ucast b0 OR push_bit 8 (ucast b1) OR push_bit 16 (ucast b2) OR push_bit 24 (ucast b3)"

definition htonl :: "u32 \<Rightarrow> u32" where
  "htonl x = le32 (ucast (drop_bit 24 x)) (ucast (drop_bit 16 x)) (ucast (drop_bit 8 x)) (ucast x)"

abbreviation ntohl :: "u32 \<Rightarrow> u32" where
  "ntohl \<equiv> htonl"

definition rd32 :: "bytes \<Rightarrow> nat \<Rightarrow> u32 result" where
  "rd32 buf a = rbind (rd8 buf a) (\<lambda>b0. rbind (rd8 buf (a + 1)) (\<lambda>b1. rbind (rd8 buf (a + 2)) (\<lambda>b2.
     rbind (rd8 buf (a + 3)) (\<lambda>b3. Inr (le32 b0 b1 b2 b3)))))"

lemma bit_le32: "bit (le32 b0 b1 b2 b3) n \<longleftrightarrow>
    (if n < 8 then bit b0 n else if n < 16 then bit b1 (n - 8) else if n < 24 then bit b2 (n - 16) else bit b3 (n - 24))"
  by (auto simp: le32_def bit_simps dest: bit_u8_lt)

lemma htonl_htonl [simp]: "htonl (htonl x) = x"
  by (rule bit_word_eqI) (auto simp: htonl_def bit_le32 bit_simps)

section \<open>The structures\<close>

text \<open>The query number takes the first three bytes of its word on this host.\<close>

definition sizeof_tr6_query :: nat where [layout]: "sizeof_tr6_query = 52"

definition tr6_query :: "in6_addr \<Rightarrow> in6_addr \<Rightarrow> in6_addr \<Rightarrow> bytes \<Rightarrow> u8 \<Rightarrow> bytes" where
  "tr6_query src dst raddr qid rhlim = src @ dst @ raddr @ qid @ [rhlim]"

definition sizeof_tr6_resp :: nat where [layout]: "sizeof_tr6_resp = 60"

section \<open>Masks\<close>

text \<open>The rounds until nothing is left of a value that is shifted to the left.\<close>

definition shifts :: "u32 \<Rightarrow> nat" where
  "shifts x = (LEAST k. push_bit k x = 0)"

lemma push_bit_ends: "push_bit 32 (x :: u32) = 0"
  by (rule bit_word_eqI) (simp add: bit_simps)

lemma shifts_step:
  assumes "x \<noteq> 0"
  shows "shifts x = Suc (shifts (push_bit 1 x))"
proof -
  have "shifts x = Suc (LEAST k. push_bit (Suc k) x = 0)"
    unfolding shifts_def by (rule Least_Suc [of _ 32]) (use assms push_bit_ends in auto)
  then show ?thesis by (simp add: shifts_def)
qed

function mask_loop :: "u32 \<Rightarrow> nat \<Rightarrow> nat" where
  "mask_loop x i = (let x1 = push_bit 1 x in if x1 = 0 then i else mask_loop x1 (i + 1))"
  by pat_completeness auto
termination
proof (relation "measure (\<lambda>(x, i). shifts x)")
  fix x x1 :: u32 and i :: nat
  assume "x1 = push_bit 1 x" and "x1 \<noteq> 0"
  moreover from this have "x \<noteq> 0" by auto
  ultimately show "((x1, i + 1), x, i) \<in> measure (\<lambda>(x, i). shifts x)" using shifts_step [of x] by simp
qed simp

declare mask_loop.simps [simp del]

definition MASK_TO_VAL :: "u32 \<Rightarrow> nat" where
  "MASK_TO_VAL x = mask_loop (ntohl x) 1"

definition VAL_TO_MASK :: "nat \<Rightarrow> u32" where
  "VAL_TO_MASK i = htonl (NOT (push_bit (32 - i) 1 - 1))"

definition maskarray :: bytes where
  "maskarray = [0x80, 0xc0, 0xe0, 0xf0, 0xf8, 0xfc, 0xfe, 0xff]"

definition MASKLEN_TO_MASK6 :: "nat \<Rightarrow> in6_addr result" where
  "MASKLEN_TO_MASK6 masklen =
     (let bytelen = masklen div 8; bitlen = masklen mod 8 in
      rbind (foldM (\<lambda>i m. wr m i [0xff]) [0..<bytelen] in6addr_any) (\<lambda>m.
        if bitlen \<noteq> 0 then wr m bytelen [maskarray ! (bitlen - 1)] else Inr m))"

lemma mask_loop_shifts: "x \<noteq> 0 \<Longrightarrow> mask_loop x i = i + shifts x - 1"
proof (induction x i rule: mask_loop.induct)
  case (1 x i)
  show ?case
  proof (cases "push_bit 1 x = 0")
    case True
    then have "shifts (push_bit 1 x) = 0" by (simp add: shifts_def)
    with 1(2) True show ?thesis by (simp add: mask_loop.simps [of x] shifts_step)
  next
    case False
    then have "shifts (push_bit 1 x) = Suc (shifts (push_bit 1 (push_bit 1 x)))" by (rule shifts_step)
    with 1 False show ?thesis by (simp add: mask_loop.simps [of x] shifts_step [of x] Let_def)
  qed
qed

lemma shifts_mask:
  assumes "0 < i" and "i \<le> 32"
  shows "shifts (NOT (mask (32 - i))) = i"
  unfolding shifts_def
proof (rule Least_equality)
  show "push_bit i (NOT (mask (32 - i))) = (0 :: u32)"
    by (rule bit_word_eqI) (use assms in \<open>auto simp: bit_simps\<close>)
next
  fix k
  assume k: "push_bit k (NOT (mask (32 - i))) = (0 :: u32)"
  have "\<not> bit (push_bit k (NOT (mask (32 - i))) :: u32) (32 - i + k)" using k by simp
  then show "i \<le> k" using assms by (auto simp: bit_simps)
qed

lemma wr_ones:
  assumes "n \<le> 16"
  shows "foldM (\<lambda>i m. wr m i [0xff]) [0..<n] in6addr_any = Inr (replicate n 0xff @ replicate (16 - n) 0)"
  using assms
proof (induction n)
  case 0
  show ?case by (simp add: in6addr_any_def)
next
  case (Suc n)
  then have "replicate (16 - n) (0 :: u8) = 0 # replicate (16 - Suc n) 0" by (simp add: Suc_diff_Suc flip: replicate_Suc)
  with Suc show ?case
    by (simp add: foldM_append wr_def replicate_append_same)
qed

lemma maskarray_bit: "b < 8 \<Longrightarrow> j < 8 \<Longrightarrow> 0 < b \<Longrightarrow> bit (maskarray ! (b - 1)) (7 - j) \<longleftrightarrow> j < b"
proof -
  assume "b < 8" "j < 8" "0 < b"
  then have "b \<in> set [1, 2, 3, 4, 5, 6, 7]" "j \<in> set [0, 1, 2, 3, 4, 5, 6, 7]" by auto
  then show ?thesis
    by (simp only: list.set insert_iff empty_iff simp_thms) (elim disjE; simp add: maskarray_def)
qed

text \<open>
  The macros for prefix lengths are right where they are defined. A length between 1 and 32 is
  recovered from the mask that is made of it, and the loop that counts ends; and for a length of at
  most 128 the IPv6 mask is written inside of the address and has exactly its first bits set.
\<close>

theorem masks_right:
  shows "(\<forall>i \<in> {1..32}. MASK_TO_VAL (VAL_TO_MASK i) = i) \<and>
    (\<forall>masklen \<le> 128. \<exists>a. MASKLEN_TO_MASK6 masklen = Inr a \<and> addr_wf a \<and>
       (\<forall>k < 128. bit (a ! (k div 8)) (7 - k mod 8) \<longleftrightarrow> k < masklen))"
proof (intro conjI ballI allI impI)
  fix i :: nat
  assume "i \<in> {1..32}"
  then have i: "0 < i" "i \<le> 32" by auto
  have m: "NOT (push_bit (32 - i) 1 - 1 :: u32) = NOT (mask (32 - i))" by (simp add: mask_eq_exp_minus_1 push_bit_eq_mult)
  have "NOT (mask (32 - i)) \<noteq> (0 :: u32)" using shifts_mask [OF i] i(1) by (auto simp: shifts_def)
  then show "MASK_TO_VAL (VAL_TO_MASK i) = i"
    using shifts_mask [OF i] mask_loop_shifts [of "NOT (mask (32 - i))" 1]
    by (simp only: MASK_TO_VAL_def VAL_TO_MASK_def htonl_htonl m) simp
next
  fix masklen :: nat
  assume len: "masklen \<le> 128"
  define q r where "q = masklen div 8" and "r = masklen mod 8"
  have qr: "masklen = 8 * q + r" "r < 8" "q \<le> 16" "q = 16 \<Longrightarrow> r = 0"
    unfolding q_def r_def using len by presburger+
  let ?a = "replicate q 0xff @ (if r = 0 then replicate (16 - q) 0 else maskarray ! (r - 1) # replicate (15 - q) 0)"
  have "MASKLEN_TO_MASK6 masklen = Inr ?a"
  proof (cases "r = 0")
    case True
    with qr show ?thesis by (simp add: MASKLEN_TO_MASK6_def wr_ones Let_def)
  next
    case False
    with qr have "q < 16" by (cases "q = 16") auto
    then have "replicate (16 - q) (0 :: u8) = 0 # replicate (15 - q) 0" by (simp add: Suc_diff_Suc flip: replicate_Suc)
    then have "wr (replicate q 0xff @ replicate (16 - q) 0) q [b] = Inr (replicate q 0xff @ b # replicate (15 - q) 0)" for b
      using \<open>q < 16\<close> by (simp add: wr_def)
    with False qr show ?thesis by (simp add: MASKLEN_TO_MASK6_def wr_ones Let_def)
  qed
  moreover have "addr_wf ?a" using qr(3,4) by (cases "q = 16") (simp_all add: addr_wf_def)
  moreover have "bit (?a ! (k div 8)) (7 - k mod 8) \<longleftrightarrow> k < masklen" if "k < 128" for k
  proof -
    define j c where "j = k div 8" and "c = k mod 8"
    then have k: "k = 8 * j + c" "c < 8" "j < 16" using that by auto
    have ones: "(0xff :: u8) = - 1" by simp
    consider "j < q" | "j = q" | "q < j" by linarith
    then have "bit (?a ! j) (7 - c) \<longleftrightarrow> 8 * j + c < 8 * q + r"
    proof cases
      case 1
      then have "?a ! j = - 1" by (simp add: nth_append ones)
      with 1 k(2) show ?thesis by simp
    next
      case 2
      with k qr(2,4) maskarray_bit [of r c] show ?thesis by (auto simp: nth_append)
    next
      case 3
      with k(3) have "?a ! j = 0" by (auto simp: nth_append nth_Cons')
      with 3 qr(2) show ?thesis by simp
    qed
    then have "bit (?a ! j) (7 - c) \<longleftrightarrow> k < masklen" by (simp only: k(1) qr(1))
    then show ?thesis by (simp only: j_def c_def)
  qed
  ultimately show "\<exists>a. MASKLEN_TO_MASK6 masklen = Inr a \<and> addr_wf a \<and>
       (\<forall>k < 128. bit (a ! (k div 8)) (7 - k mod 8) \<longleftrightarrow> k < masklen)" by blast
qed

end
