(* ===== verification/Mtrace6_Query.thy ===== *)
theory Mtrace6_Query
  imports Stat_Dump Trace_Header
begin

text \<open>
  The first half of \<open>mtrace6\<close>, the multicast traceroute: its options, the addresses and the socket
  (\<open>open_socket\<close>), the query packet (\<open>make_packet\<close>), and the masks of \<open>trace.h\<close>. What the resolver and
  the system answer is a parameter. Every message of \<open>errx\<close>, \<open>err\<close> and \<open>usage\<close> ends the program with
  status 1, the fault \<open>ExitFailure\<close>.
\<close>

section \<open>The system\<close>

datatype sockopt = IPV6_MULTICAST_HOPS int | IPV6_UNICAST_HOPS int | IPV6_JOIN_GROUP in6_addr u32
  | ICMP6_FILTER "u32 list"

text \<open>
  \<open>getaddrinfo\<close> fails, or gives the first result's \<open>ai_addrlen\<close> and the memory at \<open>ai_addr\<close>, unless that
  is null; \<open>getifaddrs\<close> gives the memory at every \<open>ifa_addr\<close>. What is received may depend on what was
  sent: it is the family of the sender and the datagram.
\<close>

record mt_env =
  me_getaddrinfo :: "string \<Rightarrow> (u32 \<times> bytes option) option"
  me_getifaddrs :: "bytes option list option"
  me_socket :: int
  me_setsockopt :: "sockopt \<Rightarrow> bool"
  me_nametoindex :: "string \<Rightarrow> u32"
  me_malloc :: "nat \<Rightarrow> bool"
  me_random :: u32
  me_sendto :: "bytes \<Rightarrow> bool"
  me_select :: "int \<Rightarrow> int"
  me_recvfrom :: "bytes \<Rightarrow> (u16 \<times> bytes) option"
  me_getnameinfo :: "bytes \<Rightarrow> bool \<Rightarrow> string option"

definition AF_INET6 :: u16 where [layout]: "AF_INET6 = 10"

definition sizeof_sockaddr_storage :: nat where [layout]: "sizeof_sockaddr_storage = 128"

text \<open>\<open>struct sockaddr_in6\<close>: family, port, flow label, address, scope.\<close>

definition ss_family :: "bytes \<Rightarrow> u16" where "ss_family ss = le16 (ss ! 0) (ss ! 1)"

definition sin6_addr :: "bytes \<Rightarrow> in6_addr" where "sin6_addr ss = take 16 (drop 8 ss)"

section \<open>The state\<close>

text \<open>The static variables of the program, with the options set on its socket.\<close>

record mtrace =
  mt_gateway :: "string option"
  mt_intface :: "string option"
  mt_source :: string
  mt_group :: string
  mt_receiver :: "string option"
  mt_destination :: "string option"
  mt_linkstr :: "string option"
  mt_mldsoc :: int
  mt_hops :: int
  mt_maxhops :: int
  mt_waittime :: int
  mt_opt_n :: bool
  mt_gw_sock :: bytes
  mt_src_sock :: bytes
  mt_grp_sock :: bytes
  mt_dst_sock :: bytes
  mt_rcv_sock :: bytes
  mt_querypacket :: bytes
  mt_sockopts :: "sockopt list"

definition zero_ss :: bytes where "zero_ss = replicate sizeof_sockaddr_storage 0"

definition mtrace_init :: mtrace where
  "mtrace_init = \<lparr>mt_gateway = None, mt_intface = None, mt_source = [], mt_group = [], mt_receiver = None,
     mt_destination = None, mt_linkstr = None, mt_mldsoc = 0, mt_hops = 64, mt_maxhops = 127,
     mt_waittime = 3, mt_opt_n = False, mt_gw_sock = zero_ss, mt_src_sock = zero_ss, mt_grp_sock = zero_ss,
     mt_dst_sock = zero_ss, mt_rcv_sock = zero_ss, mt_querypacket = [], mt_sockopts = []\<rparr>"

section \<open>The options\<close>

text \<open>\<open>atoi\<close> of the C library: \<open>strtol\<close>, which stops at the limits of a \<open>long\<close>, cut down to an \<open>int\<close>.\<close>

definition strtol :: "string \<Rightarrow> int" where
  "strtol s = max (- (2 ^ 63)) (min (2 ^ 63 - 1) (case scan_int s of None \<Rightarrow> 0 | Some n \<Rightarrow> n))"

definition atoi :: "string \<Rightarrow> int" where
  "atoi s = signed_take_bit 31 (strtol s)"

datatype mt_opt = Mt_d string | Mt_g string | Mt_h string | Mt_i string | Mt_l string
  | Mt_m string | Mt_n | Mt_r string | Mt_w string | Mt_other

definition mt_option :: "mt_opt \<Rightarrow> mtrace \<Rightarrow> mtrace result" where
  "mt_option op m = (case op of
       Mt_d a \<Rightarrow> Inr (m\<lparr>mt_destination := Some a\<rparr>)
     | Mt_g a \<Rightarrow> Inr (m\<lparr>mt_gateway := Some a\<rparr>)
     | Mt_h a \<Rightarrow> if atoi a < 0 \<or> atoi a > 255 then Inl ExitFailure else Inr (m\<lparr>mt_hops := atoi a\<rparr>)
     | Mt_i a \<Rightarrow> Inr (m\<lparr>mt_intface := Some a\<rparr>)
     | Mt_l a \<Rightarrow> Inr (m\<lparr>mt_linkstr := Some a\<rparr>)
     | Mt_m a \<Rightarrow> if atoi a < 0 \<or> atoi a > 255 then Inl ExitFailure else Inr (m\<lparr>mt_maxhops := atoi a\<rparr>)
     | Mt_n \<Rightarrow> Inr (m\<lparr>mt_opt_n := True\<rparr>)
     | Mt_r a \<Rightarrow> Inr (m\<lparr>mt_receiver := Some a\<rparr>)
     | Mt_w a \<Rightarrow> Inr (m\<lparr>mt_waittime := atoi a\<rparr>)
     | Mt_other \<Rightarrow> Inl ExitFailure)"

definition mt_arguments :: "mt_opt list \<Rightarrow> string list \<Rightarrow> mtrace result" where
  "mt_arguments opts args =
     rbind (foldM mt_option opts mtrace_init) (\<lambda>m.
       case args of
         src # grp # _ \<Rightarrow>
           (if mt_gateway m \<noteq> None \<and> mt_linkstr m \<noteq> None then Inl ExitFailure
            else Inr (m\<lparr>mt_source := src, mt_group := grp\<rparr>))
       | _ \<Rightarrow> Inl ExitFailure)"

section \<open>Addresses\<close>

text \<open>The code copies as many bytes as the destination has, not as many as the address has.\<close>

definition set_sockaddr :: "mt_env \<Rightarrow> string \<Rightarrow> bytes result" where
  "set_sockaddr E addrname = (case me_getaddrinfo E addrname of
       None \<Rightarrow> Inl ExitFailure
     | Some (_, None) \<Rightarrow> Inl ExitFailure
     | Some (addrlen, Some mem) \<Rightarrow>
         if unat addrlen > sizeof_sockaddr_storage then Inl ExitFailure
         else rd mem 0 sizeof_sockaddr_storage)"

definition is_multicast :: "bytes \<Rightarrow> bool" where
  "is_multicast sa \<longleftrightarrow> ss_family sa = AF_INET6 \<and> IN6_IS_ADDR_MULTICAST (sin6_addr sa)"

definition NI_MAXHOST :: nat where [layout]: "NI_MAXHOST = 1025"

definition all_routers_str :: "u16 \<Rightarrow> string option \<Rightarrow> string result" where
  "all_routers_str family linkstr =
     (if family = AF_INET6 then
        Inr (take (NI_MAXHOST - 1) (''ff02::1'' @ (case linkstr of None \<Rightarrow> [] | Some l \<Rightarrow> ''%'' @ l)))
      else Inl ExitFailure)"

definition ip6_validaddr :: "in6_addr \<Rightarrow> bool" where
  "ip6_validaddr a \<longleftrightarrow> \<not> (IN6_IS_ADDR_LOOPBACK a \<or> IN6_IS_ADDR_LINKLOCAL a \<or> IN6_IS_ADDR_SITELOCAL a)"

fun my_addr :: "u16 \<Rightarrow> bytes option list \<Rightarrow> bytes option result" where
  "my_addr family [] = Inr None"
| "my_addr family (None # ifas) = Inl NullDeref"
| "my_addr family (Some sa # ifas) =
     rbind (rd16 sa 0) (\<lambda>f.
       if f \<noteq> family then my_addr family ifas
       else if family = AF_INET6 then
         rbind (rd sa 8 16) (\<lambda>a. if ip6_validaddr a then Inr (Some sa) else my_addr family ifas)
       else my_addr family ifas)"

text \<open>The storage with the address, or as it was when there is none; the callers ignore which.\<close>

definition get_my_sockaddr :: "mt_env \<Rightarrow> u16 \<Rightarrow> bytes \<Rightarrow> nat \<Rightarrow> bytes result" where
  "get_my_sockaddr E family addrp sa_len = (case me_getifaddrs E of
       None \<Rightarrow> Inl ExitFailure
     | Some ifas \<Rightarrow> rbind (my_addr family ifas) (\<lambda>r. case r of
           None \<Rightarrow> Inr addrp
         | Some sa \<Rightarrow> rbind (rd sa 0 sa_len) (wr addrp 0)))"

section \<open>Options of the socket\<close>

definition setsockopt :: "mt_env \<Rightarrow> sockopt \<Rightarrow> mtrace \<Rightarrow> mtrace result" where
  "setsockopt E opt m = (if me_setsockopt E opt then Inr (m\<lparr>mt_sockopts := mt_sockopts m @ [opt]\<rparr>)
     else Inl ExitFailure)"

definition set_hlim :: "mt_env \<Rightarrow> bytes \<Rightarrow> int \<Rightarrow> mtrace \<Rightarrow> mtrace result" where
  "set_hlim E addr hops m =
     (if ss_family addr = AF_INET6 then
        setsockopt E (if IN6_IS_ADDR_MULTICAST (sin6_addr addr) then IPV6_MULTICAST_HOPS hops
          else IPV6_UNICAST_HOPS hops) m
      else Inr m)"

definition set_join :: "mt_env \<Rightarrow> string \<Rightarrow> bytes \<Rightarrow> mtrace \<Rightarrow> mtrace result" where
  "set_join E ifname grp m =
     (if ss_family grp = AF_INET6 then
        (if me_nametoindex E ifname = 0 then Inl ExitFailure
         else setsockopt E (IPV6_JOIN_GROUP (sin6_addr grp) (me_nametoindex E ifname)) m)
      else Inr m)"

text \<open>\<open>struct icmp6_filter\<close> has a bit for every type that is set when the type is blocked.\<close>

definition filter_blockall :: "u32 list" where "filter_blockall = replicate 8 (- 1)"

definition filter_setpass :: "u8 \<Rightarrow> u32 list \<Rightarrow> u32 list" where
  "filter_setpass type f = (let k = unat (drop_bit 5 type) in
     f[k := f ! k AND NOT (push_bit (unat (type AND 31)) 1)])"

definition set_filter :: "mt_env \<Rightarrow> u16 \<Rightarrow> mtrace \<Rightarrow> mtrace result" where
  "set_filter E family m =
     (if family = AF_INET6 then setsockopt E (ICMP6_FILTER (filter_setpass MLD_MTRACE_RESP filter_blockall)) m
      else Inr m)"

section \<open>Opening the socket\<close>

text \<open>
  The addresses, one after the other. \<open>sizeof(dst_sock)\<close> and \<open>sizeof(rcv_sock)\<close> are the size of a
  pointer.
\<close>

definition sizeof_pointer :: nat where [layout]: "sizeof_pointer = 8"

definition set_group :: "mt_env \<Rightarrow> mtrace \<Rightarrow> mtrace result" where
  "set_group E m = rbind (set_sockaddr E (mt_group m)) (\<lambda>sa.
     if \<not> is_multicast sa then Inl ExitFailure else Inr (m\<lparr>mt_grp_sock := sa\<rparr>))"

definition set_source :: "mt_env \<Rightarrow> mtrace \<Rightarrow> mtrace result" where
  "set_source E m = rbind (set_sockaddr E (mt_source m)) (\<lambda>sa.
     if is_multicast sa then Inl ExitFailure else Inr (m\<lparr>mt_src_sock := sa\<rparr>))"

definition set_gateway :: "mt_env \<Rightarrow> mtrace \<Rightarrow> mtrace result" where
  "set_gateway E m =
     rbind (case mt_gateway m of
         Some g \<Rightarrow> set_sockaddr E g
       | None \<Rightarrow> rbind (all_routers_str (ss_family (mt_grp_sock m)) (mt_linkstr m)) (set_sockaddr E))
       (\<lambda>sa. Inr (m\<lparr>mt_gw_sock := sa\<rparr>))"

definition set_destination :: "mt_env \<Rightarrow> mtrace \<Rightarrow> mtrace result" where
  "set_destination E m = (case mt_destination m of
       Some d \<Rightarrow> rbind (set_sockaddr E d) (\<lambda>sa.
         if is_multicast sa then Inl ExitFailure else Inr (m\<lparr>mt_dst_sock := sa\<rparr>))
     | None \<Rightarrow> rbind (get_my_sockaddr E (ss_family (mt_grp_sock m)) (mt_dst_sock m) sizeof_pointer) (\<lambda>sa.
         Inr (m\<lparr>mt_dst_sock := sa\<rparr>)))"

definition set_receiver :: "mt_env \<Rightarrow> mtrace \<Rightarrow> mtrace result" where
  "set_receiver E m = (case mt_receiver m of
       Some r \<Rightarrow> rbind (set_sockaddr E r) (\<lambda>sa.
         if is_multicast sa \<and> mt_intface m = None then Inl ExitFailure else Inr (m\<lparr>mt_rcv_sock := sa\<rparr>))
     | None \<Rightarrow> rbind (get_my_sockaddr E (ss_family (mt_grp_sock m)) (mt_rcv_sock m) sizeof_pointer) (\<lambda>sa.
         Inr (m\<lparr>mt_rcv_sock := sa\<rparr>)))"

definition set_options :: "mt_env \<Rightarrow> mtrace \<Rightarrow> mtrace result" where
  "set_options E m =
     rbind (if mt_hops m \<noteq> 0 then set_hlim E (mt_gw_sock m) (mt_hops m) m else Inr m) (\<lambda>m1.
     rbind (if mt_receiver m \<noteq> None \<and> is_multicast (mt_rcv_sock m)
            then (case mt_intface m of Some i \<Rightarrow> set_join E i (mt_rcv_sock m) m1 | None \<Rightarrow> Inl NullDeref)
            else Inr m1) (\<lambda>m2.
       set_filter E (ss_family (mt_grp_sock m)) m2))"

definition open_socket :: "mt_env \<Rightarrow> mtrace \<Rightarrow> mtrace result" where
  "open_socket E m =
     rbind (set_group E m) (\<lambda>m. rbind (set_source E m) (\<lambda>m. rbind (set_gateway E m) (\<lambda>m.
     rbind (set_destination E m) (\<lambda>m. rbind (set_receiver E m) (\<lambda>m.
       if me_socket E < 0 then Inl ExitFailure
       else set_options E (m\<lparr>mt_mldsoc := me_socket E\<rparr>))))))"

section \<open>The query\<close>

text \<open>\<open>struct mld1\<close> followed by \<open>struct tr6_query\<close>.\<close>

definition mtrace_query :: "u8 \<Rightarrow> u8 \<Rightarrow> in6_addr \<Rightarrow> in6_addr \<Rightarrow> in6_addr \<Rightarrow> in6_addr \<Rightarrow> bytes \<Rightarrow> u8 \<Rightarrow> bytes" where
  "mtrace_query type code mca src dst raddr qid rhlim =
     [type, code, 0, 0, 0, 0, 0, 0] @ mca @ tr6_query src dst raddr qid rhlim"

definition make_ip6_packet :: "mt_env \<Rightarrow> mtrace \<Rightarrow> mtrace result" where
  "make_ip6_packet E m =
     (if \<not> me_malloc E (sizeof_mld1 + sizeof_tr6_query) then Inl ExitFailure
      else Inr (m\<lparr>mt_querypacket := mtrace_query MLD_MTRACE (of_int (mt_maxhops m)) (sin6_addr (mt_grp_sock m))
        (sin6_addr (mt_src_sock m)) (sin6_addr (mt_dst_sock m)) (sin6_addr (mt_rcv_sock m)) [0, 0, 0]
        (of_int (mt_hops m))\<rparr>))"

definition make_packet :: "mt_env \<Rightarrow> mtrace \<Rightarrow> mtrace result" where
  "make_packet E m = (if ss_family (mt_grp_sock m) = AF_INET6 then make_ip6_packet E m else Inl ExitFailure)"

text \<open>\<open>main\<close> up to the loop.\<close>

definition mtrace_start :: "mt_env \<Rightarrow> mt_opt list \<Rightarrow> string list \<Rightarrow> mtrace result" where
  "mtrace_start E opts args = rbind (mt_arguments opts args) (\<lambda>m. rbind (open_socket E m) (make_packet E))"

section \<open>What the options and the addresses are\<close>

text \<open>The resolver was asked for IPv6 addresses.\<close>

definition gai_ok :: "mt_env \<Rightarrow> bool" where
  "gai_ok E \<longleftrightarrow> (\<forall>name addrlen mem. me_getaddrinfo E name = Some (addrlen, Some mem) \<longrightarrow> ss_family mem = AF_INET6)"

text \<open>The argument of the last option of a kind, or what holds without one.\<close>

definition latest :: "(mt_opt \<Rightarrow> 'a option) \<Rightarrow> 'a \<Rightarrow> mt_opt list \<Rightarrow> 'a" where
  "latest sel d opts = fold (\<lambda>op x. case sel op of None \<Rightarrow> x | Some y \<Rightarrow> y) opts d"

definition opt_d :: "mt_opt \<Rightarrow> string option option" where
  "opt_d op = (case op of Mt_d a \<Rightarrow> Some (Some a) | _ \<Rightarrow> None)"

definition opt_r :: "mt_opt \<Rightarrow> string option option" where
  "opt_r op = (case op of Mt_r a \<Rightarrow> Some (Some a) | _ \<Rightarrow> None)"

definition opt_i :: "mt_opt \<Rightarrow> string option option" where
  "opt_i op = (case op of Mt_i a \<Rightarrow> Some (Some a) | _ \<Rightarrow> None)"

definition opt_h :: "mt_opt \<Rightarrow> int option" where
  "opt_h op = (case op of Mt_h a \<Rightarrow> Some (atoi a) | _ \<Rightarrow> None)"

definition opt_m :: "mt_opt \<Rightarrow> int option" where
  "opt_m op = (case op of Mt_m a \<Rightarrow> Some (atoi a) | _ \<Rightarrow> None)"

lemma mt_option_latest:
  assumes "foldM mt_option opts m = Inr m'"
  shows "mt_destination m' = latest opt_d (mt_destination m) opts" and "mt_receiver m' = latest opt_r (mt_receiver m) opts"
    and "mt_intface m' = latest opt_i (mt_intface m) opts"
    and "mt_hops m' = latest opt_h (mt_hops m) opts" and "mt_maxhops m' = latest opt_m (mt_maxhops m) opts"
proof -
  have "mt_destination m' = latest opt_d (mt_destination m) opts \<and> mt_receiver m' = latest opt_r (mt_receiver m) opts \<and>
    mt_intface m' = latest opt_i (mt_intface m) opts \<and>
    mt_hops m' = latest opt_h (mt_hops m) opts \<and> mt_maxhops m' = latest opt_m (mt_maxhops m) opts"
    using assms
  proof (induction opts arbitrary: m)
    case (Cons op opts)
    then obtain m1 where m1: "mt_option op m = Inr m1" "foldM mt_option opts m1 = Inr m'" by auto
    show ?case
      using Cons.IH [OF m1(2)] m1(1)
      by (cases op) (auto simp: mt_option_def latest_def opt_d_def opt_r_def opt_i_def opt_h_def opt_m_def split: if_splits)
  qed (simp add: latest_def)
  then show "mt_destination m' = latest opt_d (mt_destination m) opts" "mt_receiver m' = latest opt_r (mt_receiver m) opts"
    "mt_intface m' = latest opt_i (mt_intface m) opts"
    "mt_hops m' = latest opt_h (mt_hops m) opts" "mt_maxhops m' = latest opt_m (mt_maxhops m) opts" by simp_all
qed

lemma mt_arguments_latest:
  assumes "mt_arguments opts args = Inr m"
  shows "mt_destination m = latest opt_d None opts" and "mt_receiver m = latest opt_r None opts"
    and "mt_intface m = latest opt_i None opts" and "mt_hops m = latest opt_h 64 opts" and "mt_maxhops m = latest opt_m 127 opts"
    and "\<exists>rest. args = mt_source m # mt_group m # rest"
proof -
  from assms obtain m0 where m0: "foldM mt_option opts mtrace_init = Inr m0"
    and "(case args of src # grp # _ \<Rightarrow> (if mt_gateway m0 \<noteq> None \<and> mt_linkstr m0 \<noteq> None then Inl ExitFailure
        else Inr (m0\<lparr>mt_source := src, mt_group := grp\<rparr>)) | _ \<Rightarrow> Inl ExitFailure) = Inr m"
    by (auto simp: mt_arguments_def)
  then obtain src grp rest where "m = m0\<lparr>mt_source := src, mt_group := grp\<rparr>" "args = src # grp # rest"
    by (cases args rule: remdups_adj.cases) (auto split: if_splits)
  with mt_option_latest [OF m0] show "mt_destination m = latest opt_d None opts" "mt_receiver m = latest opt_r None opts"
    "mt_intface m = latest opt_i None opts" "mt_hops m = latest opt_h 64 opts" "mt_maxhops m = latest opt_m 127 opts"
    "\<exists>rest. args = mt_source m # mt_group m # rest"
    by (simp_all add: mtrace_init_def)
qed

lemma mt_arguments_ok:
  assumes "mt_arguments opts args = Inr m"
  shows "mt_hops m \<in> {0..255}" and "mt_maxhops m \<in> {0..255}" and "mt_dst_sock m = zero_ss" and "mt_rcv_sock m = zero_ss"
    and "mt_gateway m = None \<or> mt_linkstr m = None"
proof -
  from assms obtain m0 where m0: "foldM mt_option opts mtrace_init = Inr m0"
    and "(case args of src # grp # _ \<Rightarrow> (if mt_gateway m0 \<noteq> None \<and> mt_linkstr m0 \<noteq> None then Inl ExitFailure
        else Inr (m0\<lparr>mt_source := src, mt_group := grp\<rparr>)) | _ \<Rightarrow> Inl ExitFailure) = Inr m"
    by (auto simp: mt_arguments_def)
  then obtain src grp where m: "m = m0\<lparr>mt_source := src, mt_group := grp\<rparr>" "mt_gateway m0 = None \<or> mt_linkstr m0 = None"
    by (cases args rule: remdups_adj.cases) (auto split: if_splits)
  have "mt_hops m0 \<in> {0..255} \<and> mt_maxhops m0 \<in> {0..255} \<and> mt_dst_sock m0 = zero_ss \<and> mt_rcv_sock m0 = zero_ss"
    by (rule foldM_invariant [OF m0]) (auto simp: mtrace_init_def mt_option_def split: mt_opt.splits if_splits)
  with m show "mt_hops m \<in> {0..255}" "mt_maxhops m \<in> {0..255}" "mt_dst_sock m = zero_ss" "mt_rcv_sock m = zero_ss"
    "mt_gateway m = None \<or> mt_linkstr m = None" by simp_all
qed

text \<open>The address that the resolver gave for a name.\<close>

definition resolves :: "mt_env \<Rightarrow> string \<Rightarrow> in6_addr \<Rightarrow> bool" where
  "resolves E name a \<longleftrightarrow> (\<exists>addrlen mem. me_getaddrinfo E name = Some (addrlen, Some mem) \<and> a = take 16 (drop 8 mem))"

lemma set_sockaddr_Inr:
  assumes "set_sockaddr E name = Inr sa"
  shows "length sa = 128" and "gai_ok E \<Longrightarrow> ss_family sa = AF_INET6" and "resolves E name (sin6_addr sa)"
proof -
  from assms obtain n mem where g: "me_getaddrinfo E name = Some (n, Some mem)" "rd mem 0 128 = Inr sa"
    by (auto simp: set_sockaddr_def layout split: option.splits if_splits)
  then have "sa = take 128 mem" "128 \<le> length mem" by (auto simp: rd_def split: if_splits)
  with g(1) show "length sa = 128" "gai_ok E \<Longrightarrow> ss_family sa = AF_INET6" "resolves E name (sin6_addr sa)"
    by (auto simp: gai_ok_def ss_family_def resolves_def sin6_addr_def drop_take min_def)
qed

lemma get_my_sockaddr_zero:
  assumes "get_my_sockaddr E family zero_ss sizeof_pointer = Inr sa"
  shows "length sa = 128" and "sin6_addr sa = in6addr_any"
proof -
  have z: "zero_ss = replicate 8 0 @ replicate 120 0" by (simp add: zero_ss_def layout flip: replicate_add)
  from assms have "\<exists>bs. length bs = 8 \<and> sa = bs @ replicate 120 0"
    by (fastforce simp: get_my_sockaddr_def z wr_def layout dest: rd_InrD split: option.splits if_splits)
  then show "length sa = 128" "sin6_addr sa = in6addr_any"
    by (auto simp: sin6_addr_def in6addr_any_def)
qed

lemma set_options_Inr:
  assumes "set_options E m = Inr m'"
  shows "\<exists>opts. m' = m\<lparr>mt_sockopts := opts\<rparr>"
proof -
  have set: "\<exists>opts. v = u\<lparr>mt_sockopts := opts\<rparr>" if "setsockopt E opt u = Inr v" for opt u v
    using that by (auto simp: setsockopt_def split: if_splits)
  have id: "\<exists>opts. u = u\<lparr>mt_sockopts := opts\<rparr>" for u :: mtrace by (rule exI [of _ "mt_sockopts u"]) simp
  from assms obtain m1 m2 where
    1: "(if mt_hops m \<noteq> 0 then set_hlim E (mt_gw_sock m) (mt_hops m) m else Inr m) = Inr m1" and
    2: "(if mt_receiver m \<noteq> None \<and> is_multicast (mt_rcv_sock m)
          then (case mt_intface m of Some i \<Rightarrow> set_join E i (mt_rcv_sock m) m1 | None \<Rightarrow> Inl NullDeref)
          else Inr m1) = Inr m2" and
    3: "set_filter E (ss_family (mt_grp_sock m)) m2 = Inr m'"
    by (auto simp: set_options_def)
  have "\<exists>opts. m1 = m\<lparr>mt_sockopts := opts\<rparr>" using 1 set id by (auto simp: set_hlim_def split: if_splits)
  moreover have "\<exists>opts. m2 = m1\<lparr>mt_sockopts := opts\<rparr>"
    using 2 set id by (auto simp: set_join_def split: if_splits option.splits)
  moreover have "\<exists>opts. m' = m2\<lparr>mt_sockopts := opts\<rparr>" using 3 set id by (auto simp: set_filter_def split: if_splits)
  ultimately show ?thesis by auto
qed

text \<open>What is known of an address that was looked for on the interfaces.\<close>

definition own_addr :: "bytes \<Rightarrow> bool" where
  "own_addr sa \<longleftrightarrow> length sa = 128 \<and> sin6_addr sa = in6addr_any"

lemma set_addr_Inr:
  "set_group E m = Inr m' \<Longrightarrow> \<exists>sa. m' = m\<lparr>mt_grp_sock := sa\<rparr> \<and> set_sockaddr E (mt_group m) = Inr sa \<and> is_multicast sa"
  "set_source E m = Inr m' \<Longrightarrow> \<exists>sa. m' = m\<lparr>mt_src_sock := sa\<rparr> \<and> set_sockaddr E (mt_source m) = Inr sa \<and> \<not> is_multicast sa"
  "set_gateway E m = Inr m' \<Longrightarrow> \<exists>sa. m' = m\<lparr>mt_gw_sock := sa\<rparr>"
  by (auto simp: set_group_def set_source_def set_gateway_def split: if_splits option.splits)

definition destination_addr :: "mt_env \<Rightarrow> string option \<Rightarrow> bytes \<Rightarrow> bool" where
  "destination_addr E d sa = (case d of None \<Rightarrow> own_addr sa
     | Some name \<Rightarrow> set_sockaddr E name = Inr sa \<and> \<not> is_multicast sa)"

definition receiver_addr :: "mt_env \<Rightarrow> string option \<Rightarrow> string option \<Rightarrow> bytes \<Rightarrow> bool" where
  "receiver_addr E r ifname sa = (case r of None \<Rightarrow> own_addr sa
     | Some name \<Rightarrow> set_sockaddr E name = Inr sa \<and> (is_multicast sa \<longrightarrow> ifname \<noteq> None))"

lemma set_own_Inr:
  "set_destination E m = Inr m' \<Longrightarrow> mt_dst_sock m = zero_ss \<Longrightarrow>
     \<exists>sa. m' = m\<lparr>mt_dst_sock := sa\<rparr> \<and> destination_addr E (mt_destination m) sa"
  "set_receiver E m = Inr m' \<Longrightarrow> mt_rcv_sock m = zero_ss \<Longrightarrow>
     \<exists>sa. m' = m\<lparr>mt_rcv_sock := sa\<rparr> \<and> receiver_addr E (mt_receiver m) (mt_intface m) sa"
  by (auto simp: set_destination_def set_receiver_def destination_addr_def receiver_addr_def own_addr_def
      dest: get_my_sockaddr_zero split: if_splits option.splits)

text \<open>The fields that the rest of the program uses.\<close>

definition opened :: "mt_env \<Rightarrow> mtrace \<Rightarrow> mtrace \<Rightarrow> bool" where
  "opened E m m' \<longleftrightarrow> set_sockaddr E (mt_group m) = Inr (mt_grp_sock m') \<and> is_multicast (mt_grp_sock m') \<and>
     set_sockaddr E (mt_source m) = Inr (mt_src_sock m') \<and> \<not> is_multicast (mt_src_sock m') \<and>
     destination_addr E (mt_destination m) (mt_dst_sock m') \<and>
     receiver_addr E (mt_receiver m) (mt_intface m) (mt_rcv_sock m') \<and>
     mt_hops m' = mt_hops m \<and> mt_maxhops m' = mt_maxhops m"

lemma open_socket_Inr:
  assumes "open_socket E m = Inr m'" and "mt_dst_sock m = zero_ss" and "mt_rcv_sock m = zero_ss"
  shows "opened E m m'"
proof -
  from assms(1) obtain m1 m2 m3 m4 m5 where g: "set_group E m = Inr m1" and s: "set_source E m1 = Inr m2"
    and w: "set_gateway E m2 = Inr m3" and d: "set_destination E m3 = Inr m4" and r: "set_receiver E m4 = Inr m5"
    and o: "set_options E (m5\<lparr>mt_mldsoc := me_socket E\<rparr>) = Inr m'"
    by (auto simp: open_socket_def split: if_splits)
  from set_addr_Inr(1) [OF g] obtain grp where 1: "m1 = m\<lparr>mt_grp_sock := grp\<rparr>"
    "set_sockaddr E (mt_group m) = Inr grp" "is_multicast grp" by blast
  from set_addr_Inr(2) [OF s] obtain src where 2: "m2 = m1\<lparr>mt_src_sock := src\<rparr>"
    "set_sockaddr E (mt_source m1) = Inr src" "\<not> is_multicast src" by blast
  from set_addr_Inr(3) [OF w] obtain gw where 3: "m3 = m2\<lparr>mt_gw_sock := gw\<rparr>" by blast
  have 30: "mt_dst_sock m3 = zero_ss" using assms(2) 1(1) 2(1) 3 by simp
  from set_own_Inr(1) [OF d this] obtain dst where 4: "m4 = m3\<lparr>mt_dst_sock := dst\<rparr>"
    "destination_addr E (mt_destination m3) dst" by blast
  have 40: "mt_rcv_sock m4 = zero_ss" using assms(3) 1(1) 2(1) 3 4(1) by simp
  from set_own_Inr(2) [OF r this] obtain rcv where 5: "m5 = m4\<lparr>mt_rcv_sock := rcv\<rparr>"
    "receiver_addr E (mt_receiver m4) (mt_intface m4) rcv" by blast
  from set_options_Inr [OF o] obtain opts where "m' = m5\<lparr>mt_mldsoc := me_socket E, mt_sockopts := opts\<rparr>" by auto
  with 1 2 3 4 5 show ?thesis by (simp add: opened_def)
qed

lemma opened_addrs:
  assumes "opened E m m'" and "gai_ok E"
  shows "resolves E (mt_group m) (sin6_addr (mt_grp_sock m'))" and "IN6_IS_ADDR_MULTICAST (sin6_addr (mt_grp_sock m'))"
    and "resolves E (mt_source m) (sin6_addr (mt_src_sock m'))" and "\<not> IN6_IS_ADDR_MULTICAST (sin6_addr (mt_src_sock m'))"
    and "case mt_destination m of None \<Rightarrow> sin6_addr (mt_dst_sock m') = in6addr_any
      | Some d \<Rightarrow> resolves E d (sin6_addr (mt_dst_sock m')) \<and> \<not> IN6_IS_ADDR_MULTICAST (sin6_addr (mt_dst_sock m'))"
    and "case mt_receiver m of None \<Rightarrow> sin6_addr (mt_rcv_sock m') = in6addr_any
      | Some r \<Rightarrow> resolves E r (sin6_addr (mt_rcv_sock m')) \<and>
          (IN6_IS_ADDR_MULTICAST (sin6_addr (mt_rcv_sock m')) \<longrightarrow> mt_intface m \<noteq> None)"
  using assms set_sockaddr_Inr(2,3)
  by (auto simp: opened_def destination_addr_def receiver_addr_def own_addr_def is_multicast_def split: option.split)

lemma opened_wf:
  assumes "opened E m m'"
  shows "addr_wf (sin6_addr (mt_grp_sock m'))" and "addr_wf (sin6_addr (mt_src_sock m'))"
    and "addr_wf (sin6_addr (mt_dst_sock m'))" and "addr_wf (sin6_addr (mt_rcv_sock m'))"
proof -
  have wf: "length sa = 128 \<Longrightarrow> addr_wf (sin6_addr sa)" for sa by (auto simp: addr_wf_def sin6_addr_def)
  show "addr_wf (sin6_addr (mt_grp_sock m'))" "addr_wf (sin6_addr (mt_src_sock m'))"
    "addr_wf (sin6_addr (mt_dst_sock m'))" "addr_wf (sin6_addr (mt_rcv_sock m'))"
    using assms set_sockaddr_Inr(1)
    by (auto simp: opened_def destination_addr_def receiver_addr_def own_addr_def intro!: wf split: option.splits)
qed

lemma query_length:
  assumes "mtrace_start E opts args = Inr m"
  shows "length (mt_querypacket m) = 76"
proof -
  from assms obtain m0 m1 where a: "mt_arguments opts args = Inr m0" and o: "open_socket E m0 = Inr m1"
    and p: "make_packet E m1 = Inr m" by (auto simp: mtrace_start_def)
  from opened_wf [OF open_socket_Inr [OF o mt_arguments_ok(3,4) [OF a]]] p show ?thesis
    by (auto simp: make_packet_def make_ip6_packet_def mtrace_query_def tr6_query_def addr_wf_def split: if_splits)
qed

text \<open>
  C19: The query that \<open>mtrace6\<close> sends says what its options and arguments say. It has the size of the two
  structures and the type of an mtrace query. Its limits are those of the last \<open>-m\<close> and the last \<open>-h\<close>, or 127
  and 64, and they are between 0 and 255. Its group is the address of the second argument, which is
  multicast, its source that of the first, which is not. Its trace destination is the address of the last
  \<open>-d\<close>, which is not multicast, and its response address that of the last \<open>-r\<close>, multicast only with \<open>-i\<close>;
  without \<open>-d\<close> or \<open>-r\<close> that field is the unspecified address instead of an address of the host, since of
  the address that was found only the first eight bytes, the size of a pointer, are copied. The
  resolver is assumed to give IPv6 addresses only, for which it is asked.
\<close>

theorem query_fields:
  assumes "mtrace_start E opts args = Inr m" and "gai_ok E"
  shows "\<exists>source group rest grp src dst rcv. args = source # group # rest \<and>
    mt_querypacket m = mtrace_query MLD_MTRACE (of_int (latest opt_m 127 opts)) grp src dst rcv [0, 0, 0]
      (of_int (latest opt_h 64 opts)) \<and>
    length (mt_querypacket m) = sizeof_mld1 + sizeof_tr6_query \<and>
    latest opt_h 64 opts \<in> {0..255} \<and> latest opt_m 127 opts \<in> {0..255} \<and>
    addr_wf grp \<and> addr_wf src \<and> addr_wf dst \<and> addr_wf rcv \<and>
    resolves E group grp \<and> IN6_IS_ADDR_MULTICAST grp \<and> resolves E source src \<and> \<not> IN6_IS_ADDR_MULTICAST src \<and>
    (case latest opt_d None opts of None \<Rightarrow> dst = in6addr_any
     | Some d \<Rightarrow> resolves E d dst \<and> \<not> IN6_IS_ADDR_MULTICAST dst) \<and>
    (case latest opt_r None opts of None \<Rightarrow> rcv = in6addr_any
     | Some r \<Rightarrow> resolves E r rcv \<and> (IN6_IS_ADDR_MULTICAST rcv \<longrightarrow> latest opt_i None opts \<noteq> None))"
proof -
  from assms(1) obtain m0 m1 where a: "mt_arguments opts args = Inr m0" and o: "open_socket E m0 = Inr m1"
    and p: "make_packet E m1 = Inr m" by (auto simp: mtrace_start_def)
  note args = mt_arguments_ok [OF a] and last = mt_arguments_latest [OF a]
  note op = open_socket_Inr [OF o args(3,4)]
  note wf = opened_wf [OF op] and addrs = opened_addrs [OF op assms(2)]
  obtain rest where rest: "args = mt_source m0 # mt_group m0 # rest" using last(6) by blast
  have hops: "mt_hops m1 = latest opt_h 64 opts" "mt_maxhops m1 = latest opt_m 127 opts"
    using op last(4,5) by (simp_all add: opened_def)
  have "mt_querypacket m = mtrace_query MLD_MTRACE (of_int (latest opt_m 127 opts)) (sin6_addr (mt_grp_sock m1))
      (sin6_addr (mt_src_sock m1)) (sin6_addr (mt_dst_sock m1)) (sin6_addr (mt_rcv_sock m1)) [0, 0, 0]
      (of_int (latest opt_h 64 opts))"
    using p by (auto simp: make_packet_def make_ip6_packet_def hops split: if_splits)
  moreover have "length (mt_querypacket m) = sizeof_mld1 + sizeof_tr6_query"
    using query_length [OF assms(1)] by (simp add: layout)
  ultimately show ?thesis
    using rest wf addrs [unfolded last(1-3)] args(1,2) [unfolded last(4,5)] by blast
qed

text \<open>
  An environment in which every name resolves, the group to a multicast address; the answer is an
  argument.
\<close>

definition ex_sa :: "in6_addr \<Rightarrow> bytes" where
  "ex_sa a = [10, 0, 0, 0, 0, 0, 0, 0] @ a @ replicate 104 0"

definition ex_uni :: in6_addr where "ex_uni = [0x20, 0x01, 0x0d, 0xb8, 0, 0, 0, 0, 0, 0, 0, 0, 0, 0, 0, 7]"
definition ex_mc :: in6_addr where "ex_mc = [0xff, 0x0e, 0, 0, 0, 0, 0, 0, 0, 0, 0, 0, 0, 0, 0, 9]"

definition ex_me :: "(bytes \<Rightarrow> (u16 \<times> bytes) option) \<Rightarrow> mt_env" where
  "ex_me r = \<lparr>me_getaddrinfo = (\<lambda>n. Some (28, Some (ex_sa (if n = ''grp'' then ex_mc else ex_uni)))),
     me_getifaddrs = Some [Some (ex_sa ex_uni)], me_socket = 3, me_setsockopt = (\<lambda>_. True),
     me_nametoindex = (\<lambda>_. 1), me_malloc = (\<lambda>_. True), me_random = 0x01020304, me_sendto = (\<lambda>_. True),
     me_select = (\<lambda>_. 1), me_recvfrom = r,
     me_getnameinfo = (\<lambda>_ _. Some ''host'')\<rparr>"

lemma ex_sa_eval [simp]:
  "addr_wf a \<Longrightarrow> sin6_addr (ex_sa a) = a" "ss_family (ex_sa a) = AF_INET6" "length (ex_sa a) = 112 + length a"
  by (simp_all add: ex_sa_def sin6_addr_def ss_family_def addr_wf_def le16_def layout)

lemma ex_addr [simp]: "addr_wf ex_uni" "addr_wf ex_mc" "IN6_IS_ADDR_MULTICAST ex_mc" "\<not> IN6_IS_ADDR_MULTICAST ex_uni"
  "length ex_uni = 16" "length ex_mc = 16" "ip6_validaddr ex_uni"
  by (simp_all add: ex_uni_def ex_mc_def addr_wf_def IN6_IS_ADDR_MULTICAST_def ip6_validaddr_def
      IN6_IS_ADDR_LOOPBACK_def IN6_IS_ADDR_LINKLOCAL_def IN6_IS_ADDR_SITELOCAL_def in6addr_loopback_def)

lemma ex_me_gai: "gai_ok (ex_me r)"
  by (simp add: gai_ok_def ex_me_def)

text \<open>The queries with and without a destination.\<close>

definition ex_m :: mtrace where
  "ex_m = mtrace_init\<lparr>mt_source := ''src'', mt_group := ''grp''\<rparr>"

lemma ex_arguments: "mt_arguments [] [''src'', ''grp''] = Inr ex_m"
  by (simp add: mt_arguments_def ex_m_def mtrace_init_def)

lemma ex_sockaddr [simp]:
  "set_sockaddr (ex_me r) n = Inr (ex_sa (if n = ''grp'' then ex_mc else ex_uni))"
  by (simp add: set_sockaddr_def ex_me_def rd_def layout)

definition ex_own_sa :: bytes where "ex_own_sa = [10, 0, 0, 0, 0, 0, 0, 0] @ replicate 120 0"

lemma ex_own [simp]: "get_my_sockaddr (ex_me r) AF_INET6 zero_ss sizeof_pointer = Inr ex_own_sa"
proof -
  have "my_addr AF_INET6 [Some (ex_sa ex_uni)] = Inr (Some (ex_sa ex_uni))"
    by (simp add: rd16_def rd8_def rd_def ex_sa_def le16_def layout)
  moreover have "me_getifaddrs (ex_me r) = Some [Some (ex_sa ex_uni)]" by (simp add: ex_me_def)
  moreover have "rd (ex_sa ex_uni) 0 sizeof_pointer = Inr [10, 0, 0, 0, 0, 0, 0, 0]"
    by (simp add: rd_def ex_sa_def layout)
  moreover have "wr zero_ss 0 [10, 0, 0, 0, 0, 0, 0, 0] = Inr ex_own_sa"
    by (simp add: wr_def zero_ss_def ex_own_sa_def layout)
  ultimately show ?thesis by (simp only: get_my_sockaddr_def option.case rbind_simps)
qed

lemma ex_own_sa [simp]: "sin6_addr ex_own_sa = in6addr_any"
  by (simp add: ex_own_sa_def sin6_addr_def in6addr_any_def)

definition ex_m1 :: mtrace where
  "ex_m1 = ex_m\<lparr>mt_grp_sock := ex_sa ex_mc, mt_src_sock := ex_sa ex_uni, mt_gw_sock := ex_sa ex_uni,
     mt_dst_sock := ex_own_sa, mt_rcv_sock := ex_own_sa, mt_mldsoc := 3,
     mt_sockopts := [IPV6_UNICAST_HOPS 64, ICMP6_FILTER (filter_setpass MLD_MTRACE_RESP filter_blockall)]\<rparr>"

lemma ex_open: "open_socket (ex_me r) ex_m = Inr ex_m1"
proof -
  have opt: "setsockopt (ex_me r) opt m = Inr (m\<lparr>mt_sockopts := mt_sockopts m @ [opt]\<rparr>)" for opt m
    by (simp add: setsockopt_def ex_me_def)
  have sock: "me_socket (ex_me r) = 3" by (simp add: ex_me_def)
  show ?thesis
    by (simp add: open_socket_def set_group_def set_source_def set_gateway_def set_destination_def set_receiver_def
        set_options_def set_hlim_def set_filter_def opt sock is_multicast_def all_routers_str_def
        ex_m_def mtrace_init_def ex_m1_def NI_MAXHOST_def)
qed

definition ex_m2 :: mtrace where
  "ex_m2 = ex_m1\<lparr>mt_querypacket := mtrace_query MLD_MTRACE 127 ex_mc ex_uni in6addr_any in6addr_any [0, 0, 0] 64\<rparr>"

lemma ex_start: "mtrace_start (ex_me r) [] [''src'', ''grp''] = Inr ex_m2"
proof -
  have "me_malloc (ex_me r) n" for n by (simp add: ex_me_def)
  then have "make_packet (ex_me r) ex_m1 = Inr ex_m2"
    by (simp add: make_packet_def make_ip6_packet_def ex_m2_def ex_m1_def ex_m_def mtrace_init_def)
  with ex_arguments ex_open show ?thesis by (simp add: mtrace_start_def)
qed

theorem query_fields_witness:
  "mt_querypacket ex_m2 = mtrace_query MLD_MTRACE 127 ex_mc ex_uni in6addr_any in6addr_any [0, 0, 0] 64"
proof -
  have o: "latest opt_m 127 [] = 127" "latest opt_h 64 [] = 64" "latest opt_d None [] = None" "latest opt_r None [] = None"
    by (simp_all add: latest_def)
  have "resolves (ex_me (\<lambda>_. None)) n a \<longleftrightarrow> a = (if n = ''grp'' then ex_mc else ex_uni)" for n a
    by (auto simp: resolves_def ex_me_def ex_sa_def)
  with query_fields [OF ex_start [of "\<lambda>_. None"] ex_me_gai] show ?thesis by (auto simp: o)
qed

section \<open>Reading beyond an address\<close>

text \<open>
  \<open>set_sockaddr\<close> reads beyond the address that the resolver returned. It copies the size of a
  \<open>struct sockaddr_storage\<close>; when the memory at \<open>ai_addr\<close> is an address of \<open>ai_addrlen\<close> bytes and no more,
  and it resolves the group to an IPv6 address of 28 bytes, or any address that is smaller than the
  storage, then the program gets no further than the first copy.
\<close>

theorem set_sockaddr_overreads:
  assumes "mt_arguments opts args = Inr m" and "me_getaddrinfo E (mt_group m) = Some (addrlen, Some mem)"
    and "length mem = unat addrlen" and "unat addrlen < sizeof_sockaddr_storage"
  shows "mtrace_start E opts args = Inl OutOfBounds"
  using assms by (simp add: mtrace_start_def open_socket_def set_group_def set_sockaddr_def rd_def)

theorem set_sockaddr_overreads_witness:
  "mtrace_start ((ex_me (\<lambda>_. None))\<lparr>me_getaddrinfo := \<lambda>_. Some (28, Some (replicate 28 0))\<rparr>) [] [''src'', ''grp''] = Inl OutOfBounds"
  using set_sockaddr_overreads [OF ex_arguments, of "(ex_me (\<lambda>_. None))\<lparr>me_getaddrinfo := \<lambda>_. Some (28, Some (replicate 28 0))\<rparr>"]
  by (simp add: sizeof_sockaddr_storage_def)

section \<open>The filter\<close>

definition filter_willpass :: "u8 \<Rightarrow> u32 list \<Rightarrow> bool" where
  "filter_willpass type f \<longleftrightarrow> \<not> bit (f ! unat (drop_bit 5 type)) (unat (type AND 31))"

text \<open>Only mtrace responses pass.\<close>

lemma filter_only_response: "filter_willpass t (filter_setpass MLD_MTRACE_RESP filter_blockall) \<longleftrightarrow> t = MLD_MTRACE_RESP"
proof -
  have k: "unat (drop_bit 5 t) = unat t div 32" by (simp only: unat_drop_bit_eq) (simp add: drop_bit_eq_div)
  have "t AND 31 = take_bit 5 t" using take_bit_eq_mask [of 5 t] by (simp add: mask_eq_exp_minus_1)
  then have "unat (t AND 31) = take_bit 5 (unat t)" by (simp only: unsigned_take_bit_eq)
  then have b: "unat (t AND 31) = unat t mod 32" by (simp add: take_bit_eq_mod)
  have e: "bit (256 :: int) n \<longleftrightarrow> n = 8" for n using bit_exp_iff [of 8 n, where ?'a = int] by auto
  have lt: "unat t div 32 < 8" using unat_u8_lt [of t] by simp
  have f: "filter_setpass MLD_MTRACE_RESP filter_blockall = (replicate 8 (- 1))[6 := NOT (push_bit 8 1)]"
    by (simp add: filter_setpass_def filter_blockall_def layout)
  have "filter_willpass t (filter_setpass MLD_MTRACE_RESP filter_blockall) \<longleftrightarrow> unat t div 32 = 6 \<and> unat t mod 32 = 8"
    using lt by (auto simp: filter_willpass_def f k b e nth_list_update bit_simps)
  also have "\<dots> \<longleftrightarrow> unat t = unat (200 :: u8)" by auto presburger+
  finally show ?thesis by (simp only: word_unat_eq_iff MLD_MTRACE_RESP_def)
qed

end
