(* ===== verification/Mtrace6_Result.thy ===== *)
theory Mtrace6_Result
  imports Mtrace6_Query
begin

text \<open>
  The second half of \<open>mtrace6\<close>: sending the query and waiting for the answer (\<open>mtrace_loop\<close>), and
  printing it (\<open>show_result\<close>). The result is the text on the standard output; warnings are not
  modelled.
\<close>

section \<open>The fields of an answer as text\<close>

definition proto_type :: "u8 \<Rightarrow> string" where
  "proto_type type =
     (if type = PROTO_DVMRP then ''DVMRP'' else if type = PROTO_MOSPF then ''MOSPF''
      else if type = PROTO_PIM then ''PIM'' else if type = PROTO_CBT then ''CBT''
      else if type = PROTO_PIM_SPECIAL then ''PIM/Special'' else if type = PROTO_PIM_STATIC then ''PIM/Static''
      else if type = PROTO_DVMRP_STATIC then ''DVMRP/Static'' else if type = 0 then ''None''
      else ''Unknown protocol code '' @ fmt_u type)"

text \<open>The protocol number that \<open>ecmh\<close> was given is not among them.\<close>

lemma proto_mld_unknown: "proto_type PROTO_MLD = ''Unknown protocol code 8''"
  by (simp add: proto_type_def routing_protocols fmt_u_def decimal.simps) code_simp

definition fwd_code :: "string list" where
  "fwd_code = [''NOERR'', ''WRONGIF'', ''SPRUNE'', ''RPRUNE'', ''SCOPED'', ''NORT'', ''WRONGLH'', ''NOFWD'', ''RP'',
     ''RPFIF'', ''NOMC'', ''HIDDEN'']"

definition fwd_errcode :: "string list" where
  "fwd_errcode = ['''', ''NOSPC'', ''OLD'', ''ADMIN'']"

definition str_rflags :: "u32 \<Rightarrow> string" where
  "str_rflags flag =
     (if 0x80 AND flag \<noteq> 0 then
        (let flag = flag AND NOT 0x80 in
         if unat flag \<ge> length fwd_errcode \<or> flag = 0 then ''UNKNOWN'' else fwd_errcode ! unat flag)
      else if unat flag \<ge> length fwd_code then ''UNKNOWN''
      else fwd_code ! unat flag)"

text \<open>\<open>printf\<close> with \<open>%3d\<close>, and with \<open>%d\<close> for an unsigned argument.\<close>

definition fmt_3d :: "int \<Rightarrow> string" where
  "fmt_3d n = replicate (3 - length (fmt_i n)) CHR '' '' @ fmt_i n"

definition fmt_d :: "u32 \<Rightarrow> string" where
  "fmt_d w = fmt_i (sint w)"

text \<open>
  \<open>pr_addr\<close>: the name goes to a static buffer, which keeps what it had when \<open>getnameinfo\<close> fails. The
  argument is a \<open>struct sockaddr_in6\<close> that is zero but for the family and the address.
\<close>

definition sockaddr_in6 :: "in6_addr \<Rightarrow> bytes" where
  "sockaddr_in6 a = le16_bytes AF_INET6 @ replicate 6 0 @ a @ replicate 4 0"

definition pr_addr :: "mt_env \<Rightarrow> bytes \<Rightarrow> bool \<Rightarrow> string \<Rightarrow> string" where
  "pr_addr E addr numeric buf = (case me_getnameinfo E addr numeric of None \<Rightarrow> buf | Some name \<Rightarrow> name)"

section \<open>The answer\<close>

text \<open>\<open>struct mld1\<close>, \<open>struct tr6_query\<close>, then a \<open>struct tr6_resp\<close> for every router.\<close>

definition rp_start :: nat where "rp_start = sizeof_mld1 + sizeof_tr6_query"

text \<open>One round of the loop, for the block at an offset; \<open>buf\<close> is the buffer of \<open>pr_addr\<close>.\<close>

definition show_hop :: "mt_env \<Rightarrow> bool \<Rightarrow> bytes \<Rightarrow> nat \<Rightarrow> nat \<Rightarrow> string \<times> string \<Rightarrow> (string \<times> string) result" where
  "show_hop E opt_n frombuf i rp = (\<lambda>(out, buf).
     rbind (rd frombuf (rp + 12) 16) (\<lambda>lcladdr. rbind (rd frombuf (rp + 28) 16) (\<lambda>rmtaddr.
     let buf1 = pr_addr E (sockaddr_in6 lcladdr) opt_n buf;
         buf2 = pr_addr E (sockaddr_in6 rmtaddr) True buf1 in
     rbind (rd32 frombuf (rp + 4)) (\<lambda>inifid. rbind (rd32 frombuf (rp + 8)) (\<lambda>outifid.
     rbind (rd8 frombuf (rp + 56)) (\<lambda>rproto. rbind (rd8 frombuf (rp + 59)) (\<lambda>rflags.
       Inr (out @ fmt_3d (- int i) @ ''  '' @ buf1 @ ''('' @ buf2 @ ''/'' @ fmt_d (ntohl inifid) @ ''->''
              @ fmt_d (ntohl outifid) @ '') '' @ proto_type rproto @ '' '' @ str_rflags (ucast rflags) @ nl,
            buf2))))))))"

function show_hops :: "mt_env \<Rightarrow> bool \<Rightarrow> bytes \<Rightarrow> nat \<Rightarrow> nat \<Rightarrow> nat \<Rightarrow> string \<times> string \<Rightarrow> (string \<times> string) result" where
  "show_hops E opt_n frombuf rp_end i rp s =
     (if rp < rp_end then
        rbind (show_hop E opt_n frombuf i rp s) (show_hops E opt_n frombuf rp_end (i + 1) (rp + sizeof_tr6_resp))
      else Inr s)"
  by pat_completeness auto
termination
  by (relation "measure (\<lambda>(E, opt_n, frombuf, rp_end, i, rp, s). rp_end - rp)") (auto simp: sizeof_tr6_resp_def)

declare show_hops.simps [simp del]

text \<open>
  The answer is at the start of \<open>frombuf\<close>; \<open>datalen\<close> is an \<open>unsigned int\<close>, and the difference, of type
  \<open>size_t\<close>, would wrap around for fewer bytes than the two structures.
\<close>

definition show_ip6_result :: "mt_env \<Rightarrow> bool \<Rightarrow> bytes \<Rightarrow> bytes \<Rightarrow> u32 \<Rightarrow> string result" where
  "show_ip6_result E opt_n querypacket frombuf datalen =
     (if unat datalen < sizeof_mld1 + sizeof_tr6_query + sizeof_tr6_resp then Inr []
      else rbind (rd8 frombuf 0) (\<lambda>type.
        if type = MLD_MTRACE_RESP then
          (if (ucast datalen - of_nat sizeof_mld1 - of_nat sizeof_tr6_query :: u64) mod of_nat sizeof_tr6_resp \<noteq> 0 then Inr []
           else
             rbind (rd querypacket (sizeof_mld1 + 48) 3) (\<lambda>qid. rbind (rd frombuf (sizeof_mld1 + 48) 3) (\<lambda>rqid.
             rbind (rd querypacket sizeof_mld1 16) (\<lambda>src. rbind (rd frombuf sizeof_mld1 16) (\<lambda>rsrc.
             rbind (rd querypacket (sizeof_mld1 + 16) 16) (\<lambda>dst. rbind (rd frombuf (sizeof_mld1 + 16) 16) (\<lambda>rdst.
               if qid \<noteq> rqid \<or> \<not> IN6_ARE_ADDR_EQUAL src rsrc \<or> \<not> IN6_ARE_ADDR_EQUAL dst rdst then Inr []
               else rbind (show_hops E opt_n frombuf (unat datalen) 0 rp_start ([], [])) (\<lambda>(out, _). Inr out))))))))
        else Inr []))"

definition show_result :: "mt_env \<Rightarrow> bool \<Rightarrow> bytes \<Rightarrow> u16 \<Rightarrow> bytes \<Rightarrow> u32 \<Rightarrow> string result" where
  "show_result E opt_n querypacket family frombuf datalen =
     (if family = AF_INET6 then show_ip6_result E opt_n querypacket frombuf datalen else Inl ExitFailure)"

section \<open>Sending and receiving\<close>

text \<open>The query number is the low 24 bits of a random number.\<close>

definition setqid :: "mt_env \<Rightarrow> u16 \<Rightarrow> bytes \<Rightarrow> bytes result" where
  "setqid E family query =
     (if family = AF_INET6 then
        wr query (sizeof_mld1 + 48) [ucast (me_random E), ucast (drop_bit 8 (me_random E)), ucast (drop_bit 16 (me_random E))]
      else Inr query)"

definition frombuf_size :: nat where [layout]: "frombuf_size = 1024"

text \<open>The descriptor set has a bit for every descriptor up to the socket, in words of 64 bits.\<close>

definition nfdsp :: "int \<Rightarrow> nat" where
  "nfdsp fd = nat ((fd + 1 + 63) div 64) * 8"

text \<open>\<open>recvfrom\<close> overwrites the start of the static buffer with the datagram, cut to its size.\<close>

definition mtrace_loop :: "mt_env \<Rightarrow> bytes \<Rightarrow> mtrace \<Rightarrow> (bytes \<times> string) result" where
  "mtrace_loop E frombuf m =
     rbind (setqid E (ss_family (mt_gw_sock m)) (mt_querypacket m)) (\<lambda>query.
       if \<not> me_sendto E query then Inl ExitFailure
       else if \<not> me_malloc E (nfdsp (mt_mldsoc m)) then Inl ExitFailure
       else if me_select E (mt_waittime m) < 0 then Inl ExitFailure
       else if me_select E (mt_waittime m) = 0 then Inr (query, ''Timeout'' @ nl)
       else case me_recvfrom E query of
         None \<Rightarrow> Inl ExitFailure
       | Some (family, datagram) \<Rightarrow>
          (let data = take frombuf_size datagram
           in rbind (show_result E (mt_opt_n m) query family (data @ drop (length data) frombuf) (of_nat (length data)))
                (\<lambda>out. Inr (query, out))))"

definition mtrace_main :: "mt_env \<Rightarrow> mt_opt list \<Rightarrow> string list \<Rightarrow> (bytes \<times> string) result" where
  "mtrace_main E opts args = rbind (mtrace_start E opts args) (mtrace_loop E (replicate frombuf_size 0))"

section \<open>What is printed\<close>

text \<open>The line of one router as a function of its block, and the check of an answer, over the data alone.\<close>

definition hop_text :: "mt_env \<Rightarrow> bool \<Rightarrow> nat \<times> bytes \<Rightarrow> string \<times> string \<Rightarrow> string \<times> string" where
  "hop_text E opt_n = (\<lambda>(i, b) (out, buf).
     let buf1 = pr_addr E (sockaddr_in6 (take 16 (drop 12 b))) opt_n buf;
         buf2 = pr_addr E (sockaddr_in6 (take 16 (drop 28 b))) True buf1 in
     (out @ fmt_3d (- int i) @ ''  '' @ buf1 @ ''('' @ buf2 @ ''/'' @ fmt_d (ntohl (le32 (b ! 4) (b ! 5) (b ! 6) (b ! 7)))
        @ ''->'' @ fmt_d (ntohl (le32 (b ! 8) (b ! 9) (b ! 10) (b ! 11))) @ '') '' @ proto_type (b ! 56) @ '' ''
        @ str_rflags (ucast (b ! 59)) @ nl, buf2))"

definition blocks_of :: "bytes \<Rightarrow> bytes list" where
  "blocks_of data = map (\<lambda>k. take 60 (drop (76 + 60 * k) data)) [0..<(length data - 76) div 60]"

definition accepted :: "bytes \<Rightarrow> bytes \<Rightarrow> bool" where
  "accepted query data \<longleftrightarrow> 136 \<le> length data \<and> (length data - 76) mod 60 = 0 \<and> data ! 0 = MLD_MTRACE_RESP \<and>
     take 32 (drop 24 data) = take 32 (drop 24 query) \<and> take 3 (drop 72 data) = take 3 (drop 72 query)"

lemma rd_block: "length pre = rp \<Longrightarrow> length b = 60 \<Longrightarrow> a + n \<le> 60 \<Longrightarrow>
    rd (pre @ b @ post) (rp + a) n = Inr (take n (drop a b))"
  by (simp add: rd_def)

lemma rd8_block: "length pre = rp \<Longrightarrow> length b = 60 \<Longrightarrow> a < 60 \<Longrightarrow> rd8 (pre @ b @ post) (rp + a) = Inr (b ! a)"
  by (simp add: rd8_def nth_append)

lemma show_hop_block:
  assumes "length pre = rp" and "length b = 60"
  shows "show_hop E n (pre @ b @ post) i rp s = Inr (hop_text E n (i, b) s)"
proof -
  note rds = rd_block [OF assms] rd8_block [OF assms, of "_ + _"] rd8_block [OF assms]
  have r32: "rd32 (pre @ b @ post) (rp + a) = Inr (le32 (b ! a) (b ! (a + 1)) (b ! (a + 2)) (b ! (a + 3)))"
    if "a + 3 < 60" for a
    using that rd8_block [OF assms, of a] rd8_block [OF assms, of "a + 1"] rd8_block [OF assms, of "a + 2"]
      rd8_block [OF assms, of "a + 3"] by (simp add: rd32_def add.assoc)
  show ?thesis
    by (cases s) (simp add: show_hop_def hop_text_def rds r32 Let_def)
qed

lemma show_hops_blocks:
  assumes "list_all (\<lambda>b. length b = 60) blocks" and "length pre = rp"
  shows "show_hops E n (pre @ concat blocks @ post) (rp + 60 * length blocks) i rp s =
    Inr (fold (hop_text E n) (enumerate i blocks) s)"
  using assms
proof (induction blocks arbitrary: pre rp i s)
  case Nil
  then show ?case by (simp add: show_hops.simps)
next
  case (Cons b bs)
  have "show_hops E n ((pre @ b) @ concat bs @ post) (rp + 60 + 60 * length bs) (i + 1) (rp + 60) (hop_text E n (i, b) s) =
      Inr (fold (hop_text E n) (enumerate (i + 1) bs) (hop_text E n (i, b) s))"
    using Cons.prems by (intro Cons.IH) simp_all
  with Cons.prems show_hop_block [of pre rp b E n "concat bs @ post" i s] show ?case
    by (simp add: show_hops.simps [of E n _ _ _ rp] sizeof_tr6_resp_def add.assoc)
qed

lemma concat_slices: "concat (map (\<lambda>k. take n (drop (a + n * k) xs)) [0..<m]) = take (n * m) (drop a xs)"
proof (induction m)
  case (Suc m)
  have "take (n * m + n) (drop a xs) = take (n * m) (drop a xs) @ take n (drop (a + n * m) xs)"
    by (subst take_add) (simp add: add.commute)
  with Suc show ?case by (simp add: add.commute)
qed simp

lemma blocks_of_split:
  assumes "136 \<le> length data" and "(length data - 76) mod 60 = 0"
  shows "data = take 76 data @ concat (blocks_of data)" and "list_all (\<lambda>b. length b = 60) (blocks_of data)"
    and "length data = 76 + 60 * length (blocks_of data)"
proof -
  define m where "m = (length data - 76) div 60"
  have len: "length data = 76 + 60 * m" using assms by (auto simp: m_def)
  have "concat (blocks_of data) = drop 76 data"
    unfolding blocks_of_def m_def [symmetric] concat_slices using len by simp
  then show "data = take 76 data @ concat (blocks_of data)" by simp
  show "list_all (\<lambda>b. length b = 60) (blocks_of data)"
    using len by (auto simp: blocks_of_def m_def [symmetric] list_all_iff)
  show "length data = 76 + 60 * length (blocks_of data)"
    using len by (simp add: blocks_of_def m_def)
qed

lemma take_16_16:
  fixes a b :: bytes
  assumes "length a \<ge> 56" and "length b \<ge> 56"
  shows "take 16 (drop 24 a) = take 16 (drop 24 b) \<and> take 16 (drop 40 a) = take 16 (drop 40 b) \<longleftrightarrow>
    take 32 (drop 24 a) = take 32 (drop 24 b)"
proof -
  have "take 32 (drop 24 x) = take 16 (drop 24 x) @ take 16 (drop 40 x)" for x :: bytes
    using take_add [of 16 16 "drop 24 x"] by simp
  then show ?thesis using assms by (simp only:) simp
qed

text \<open>
  Printing reads the received data only, whatever lies behind it, or if nothing does, and prints the
  answers to this query.
\<close>

lemma datalen_split:
  assumes "length data < 2 ^ 32"
  shows "unat (of_nat (length data) :: u32) = length data"
    and "76 \<le> length data \<Longrightarrow>
      (ucast (of_nat (length data) :: u32) - of_nat sizeof_mld1 - of_nat sizeof_tr6_query :: u64) mod of_nat sizeof_tr6_resp \<noteq> 0 \<longleftrightarrow>
      (length data - 76) mod 60 \<noteq> 0"
proof -
  show len: "unat (of_nat (length data) :: u32) = length data"
    using assms by (simp only: unsigned_of_nat) (simp add: take_bit_nat_eq_self)
  assume le: "76 \<le> length data"
  have u: "unat (ucast (of_nat (length data) :: u32) :: u64) = length data" using len by (simp only: ucast_u32_le)
  have "unat ((ucast (of_nat (length data) :: u32) :: u64) - 76) = length data - 76"
    using u le by (simp add: unat_sub word_le_nat_alt)
  then have "unat (((ucast (of_nat (length data) :: u32) :: u64) - 76) mod 60) = (length data - 76) mod 60"
    by (simp add: unat_mod)
  then show "(ucast (of_nat (length data) :: u32) - of_nat sizeof_mld1 - of_nat sizeof_tr6_query :: u64) mod of_nat sizeof_tr6_resp \<noteq> 0 \<longleftrightarrow>
      (length data - 76) mod 60 \<noteq> 0"
    by (simp add: layout word_unat_eq_iff diff_diff_eq)
qed

lemma show_exact:
  assumes "length query = 76" and "length data < 2 ^ 32"
  shows "show_ip6_result E opt_n query (data @ pad) (of_nat (length data)) =
    Inr (if accepted query data then fst (fold (hop_text E opt_n) (enumerate 0 (blocks_of data)) ([], [])) else [])"
proof (cases "136 \<le> length data \<and> data ! 0 = MLD_MTRACE_RESP \<and> (length data - 76) mod 60 = 0")
  case False
  then have "\<not> accepted query data" by (auto simp: accepted_def)
  with False datalen_split [OF assms(2)] show ?thesis
    by (cases "136 \<le> length data") (auto simp: show_ip6_result_def rd8_def nth_append sizeof_mld1_def sizeof_tr6_query_def
        sizeof_tr6_resp_def)
next
  case True
  let ?ok = "take 3 (drop 72 query) = take 3 (drop 72 data) \<and> take 16 (drop 24 query) = take 16 (drop 24 data) \<and>
    take 16 (drop 40 query) = take 16 (drop 40 data)"
  note split = blocks_of_split [of data]
  have rds: "rd (data @ pad) a n = Inr (take n (drop a data))" if "a + n \<le> 76" for a n
    using that True by (simp add: rd_def)
  have rdq: "rd query a n = Inr (take n (drop a query))" if "a + n \<le> 76" for a n
    using that assms by (simp add: rd_def)
  have type: "rd8 (data @ pad) 0 = Inr MLD_MTRACE_RESP" using True by (auto simp: rd8_def nth_append)
  have hops: "show_hops E opt_n (data @ pad) (length data) 0 rp_start ([], []) =
      Inr (fold (hop_text E opt_n) (enumerate 0 (blocks_of data)) ([], []))"
  proof -
    have e: "data @ pad = take 76 data @ concat (blocks_of data) @ pad"
      using split(1) True by (metis append.assoc)
    have "show_hops E opt_n (take 76 data @ concat (blocks_of data) @ pad) (length data) 0 rp_start ([], []) =
        Inr (fold (hop_text E opt_n) (enumerate 0 (blocks_of data)) ([], []))"
      using show_hops_blocks [of "blocks_of data" "take 76 data" 76 E opt_n pad 0 "([], [])"] split(2,3) True
      by (simp add: rp_start_def layout)
    then show ?thesis by (simp only: e)
  qed
  have "show_ip6_result E opt_n query (data @ pad) (of_nat (length data)) =
      (if ?ok then Inr (fst (fold (hop_text E opt_n) (enumerate 0 (blocks_of data)) ([], []))) else Inr [])"
    using True datalen_split [OF assms(2)] hops
    by (simp add: show_ip6_result_def type rds rdq sizeof_mld1_def sizeof_tr6_query_def sizeof_tr6_resp_def
        IN6_ARE_ADDR_EQUAL_def split: prod.split)
  moreover have "?ok \<longleftrightarrow> accepted query data"
    using True assms take_16_16 [of query data] by (auto simp: accepted_def)
  ultimately show ?thesis by simp
qed

section \<open>From the options to the route\<close>

text \<open>
  A router answers with its own header, the \<open>struct tr6_query\<close> of the query and the blocks of the
  routers on the way. When every address has a name, the line of a block does not depend on the others.
\<close>

definition trace_response :: "bytes \<Rightarrow> bytes list \<Rightarrow> bytes \<Rightarrow> bytes" where
  "trace_response hdr blocks query = (MLD_MTRACE_RESP # hdr) @ drop sizeof_mld1 query @ concat blocks"

definition hop_line :: "mt_env \<Rightarrow> bool \<Rightarrow> nat \<times> bytes \<Rightarrow> string" where
  "hop_line E opt_n ib = fst (hop_text E opt_n ib ([], []))"

lemma pr_addr_named: "me_getnameinfo E a num \<noteq> None \<Longrightarrow> pr_addr E a num buf = pr_addr E a num []"
  by (auto simp: pr_addr_def)

lemma hop_text_lines:
  assumes "\<forall>a num. me_getnameinfo E a num \<noteq> None"
  shows "fst (fold (hop_text E n) ibs (out, buf)) = out @ concat (map (hop_line E n) ibs)"
proof (induction ibs arbitrary: out buf)
  case (Cons ib ibs)
  obtain i b where ib: "ib = (i, b)" by (cases ib)
  have named: "pr_addr E a num u = pr_addr E a num []" for a num u using assms pr_addr_named by blast
  obtain o1 b1 where t: "hop_text E n ib (out, buf) = (o1, b1)" by fastforce
  moreover have "fst (hop_text E n ib (out, buf)) = out @ hop_line E n ib"
    unfolding ib hop_text_def hop_line_def Let_def prod.case fst_conv append_Nil
    using named [of _ _ buf] named [of _ _ "pr_addr E _ _ buf"] named [of _ _ "pr_addr E _ _ []"] by metis
  ultimately show ?case using Cons by simp
qed simp

lemma blocks_of_concat:
  assumes "length pre = 76" and "list_all (\<lambda>b. length b = 60) blocks" and "blocks \<noteq> []"
  shows "blocks_of (pre @ concat blocks) = blocks" and "length (pre @ concat blocks) = 76 + 60 * length blocks"
proof -
  let ?d = "pre @ concat blocks"
  have "length (concat blocks) = 60 * length blocks" using assms(2) by (induction blocks) auto
  then show len: "length ?d = 76 + 60 * length blocks" using assms(1) by simp
  then have "136 \<le> length ?d" "(length ?d - 76) mod 60 = 0" using assms(3) by (cases blocks; simp)+
  note split = blocks_of_split [OF this]
  have n: "length (blocks_of ?d) = length blocks" using split(3) len by simp
  have "concat (blocks_of ?d) = concat blocks" using split(1) assms(1) by (simp add: append_eq_conv_conj)
  moreover have "\<forall>(x, y) \<in> set (zip (blocks_of ?d) blocks). length x = length y"
    using split(2) assms(2) unfolding list_all_iff by (fastforce dest: set_zip_leftD set_zip_rightD)
  ultimately show "blocks_of ?d = blocks" using concat_eq_concat_iff [OF _ n] by blast
qed

lemma setqid_total:
  assumes "length packet = 76"
  shows "\<exists>query. setqid E family packet = Inr query \<and> length query = 76"
  using assms by (auto simp: setqid_def wr_def layout)

lemma response_shown:
  assumes "length query = 76" and "length hdr = 23" and "list_all (\<lambda>b. length b = 60) blocks" and "blocks \<noteq> []"
    and "\<forall>a num. me_getnameinfo E a num \<noteq> None"
  shows "let data = take frombuf_size (trace_response hdr blocks query) in
    show_ip6_result E n query (data @ pad) (of_nat (length data)) =
      Inr (if length blocks \<le> 15 then concat (map (hop_line E n) (enumerate 0 blocks)) else [])"
proof -
  have small: "length (take frombuf_size r) < 2 ^ 32" for r by (simp add: frombuf_size_def)
  let ?pre = "(MLD_MTRACE_RESP # hdr) @ drop 24 query"
  have r: "trace_response hdr blocks query = ?pre @ concat blocks" by (simp add: trace_response_def layout)
  have pre: "length ?pre = 76" using assms(1,2) by simp
  note bl = blocks_of_concat [OF pre assms(3,4)]
  show ?thesis
  proof (cases "length blocks \<le> 15")
    case True
    then have all: "take frombuf_size (trace_response hdr blocks query) = ?pre @ concat blocks"
      unfolding r using bl(2) by (simp add: frombuf_size_def)
    have "accepted query (?pre @ concat blocks)"
      using bl(2) assms(1,2,4) by (cases blocks) (auto simp: accepted_def)
    moreover have sm: "length (?pre @ concat blocks) < 2 ^ 32" using bl(2) True by simp
    ultimately show ?thesis using True unfolding all Let_def show_exact [OF assms(1) sm] bl(1) hop_text_lines [OF assms(5)] by simp
  next
    case False
    then have "length (take frombuf_size (trace_response hdr blocks query)) = 1024"
      unfolding r using bl(2) by (simp add: frombuf_size_def)
    then have "\<not> accepted query (take frombuf_size (trace_response hdr blocks query))" by (simp add: accepted_def)
    with False show ?thesis unfolding Let_def show_exact [OF assms(1) small] by simp
  qed
qed

text \<open>
  C18: A trace of up to fifteen routers is shown in full, a longer one not at all. For every run of
  \<open>mtrace6\<close> whose query is sent and answered by a response that carries the query's own block, the
  output is one line for every router in the order of the response, provided they are at most
  fifteen; with more routers the response does not fit the 1024 bytes that are received of it, what
  is left is not a whole number of blocks, and nothing is printed. It is assumed that \<open>getnameinfo\<close> never
  fails; where it does, \<open>pr_addr\<close> repeats the name it gave before.
\<close>

theorem mtrace_shows_route:
  assumes "mtrace_start E opts args = Inr m" and "\<forall>q. me_sendto E q" and "\<forall>k. me_malloc E k"
    and "0 < me_select E (mt_waittime m)" and "\<forall>a num. me_getnameinfo E a num \<noteq> None"
    and "\<forall>q. me_recvfrom E q = Some (AF_INET6, trace_response hdr blocks q)"
    and "length hdr = 23" and "list_all (\<lambda>b. length b = sizeof_tr6_resp) blocks" and "blocks \<noteq> []"
  shows "\<exists>query. mtrace_main E opts args = Inr (query,
    if length blocks \<le> 15 then concat (map (hop_line E (mt_opt_n m)) (enumerate 0 blocks)) else [])"
proof -
  obtain query where q: "setqid E (ss_family (mt_gw_sock m)) (mt_querypacket m) = Inr query" "length query = 76"
    using setqid_total [OF query_length [OF assms(1)]] by blast
  from response_shown [OF q(2) assms(7) _ assms(9,5), of "mt_opt_n m"] assms(8)
  show ?thesis
    using assms(1-4,6) q(1)
    by (simp add: mtrace_main_def mtrace_loop_def show_result_def Let_def sizeof_tr6_resp_def not_less)
qed

text \<open>A route of one router.\<close>

definition ex_block :: bytes where
  "ex_block = [0, 0, 0, 0] @ [0, 0, 0, 1] @ [0, 0, 0, 2] @ ex_uni @ ex_uni @ replicate 12 0 @ [3, 0, 64, 0]"

theorem mtrace_shows_route_witness:
  "\<exists>query. mtrace_main (ex_me (\<lambda>q. Some (AF_INET6, trace_response (replicate 23 0) [ex_block] q)))
       [] [''src'', ''grp''] = Inr (query, ''  0  host(host/1->2) PIM NOERR'' @ nl)"
proof -
  let ?E = "ex_me (\<lambda>q. Some (AF_INET6, trace_response (replicate 23 0) [ex_block] q))"
  have "hop_line ?E False (0, ex_block) = ''  0  host(host/1->2) PIM NOERR'' @ nl"
    by code_simp
  moreover have "mt_opt_n ex_m2 = False" by (simp add: ex_m2_def ex_m1_def ex_m_def mtrace_init_def)
  moreover have "\<exists>query. mtrace_main ?E [] [''src'', ''grp''] = Inr (query,
      if length [ex_block] \<le> 15 then concat (map (hop_line ?E (mt_opt_n ex_m2)) (enumerate 0 [ex_block])) else [])"
    by (rule mtrace_shows_route [OF ex_start, where hdr = "replicate 23 0"])
      (simp_all add: ex_me_def ex_block_def sizeof_tr6_resp_def)
  ultimately show ?thesis by simp
qed

text \<open>
  C17: What \<open>mtrace6\<close> prints is the answer to its query and nothing else. Once it has started, a run ends in
  one of three ways. It exits with an error, and then a call of the system failed or the sender of the
  datagram was not an IPv6 host; it reports a timeout; or it received a datagram, of which it looks at up to
  1024 bytes. In that case there is output only when these are a response of one or more whole blocks
  with the source, the destination and the number of the query, and it is made of the blocks of that
  response in their order. No access leaves the bytes that were received: \<open>show_result\<close> gives the same
  text without a fault whatever lies behind them in the buffer, and also when nothing does.
\<close>

theorem mtrace_answer_exact:
  assumes "mtrace_start E opts args = Inr m"
  shows "\<exists>query. length query = 76 \<and>
    (mtrace_main E opts args = Inl ExitFailure \<and>
        (\<not> me_sendto E query \<or> \<not> me_malloc E (nfdsp (mt_mldsoc m)) \<or> me_select E (mt_waittime m) < 0 \<or>
         (\<forall>datagram. me_recvfrom E query \<noteq> Some (AF_INET6, datagram))) \<or>
     mtrace_main E opts args = Inr (query, ''Timeout'' @ nl) \<and> me_select E (mt_waittime m) = 0 \<or>
     (\<exists>datagram. me_recvfrom E query = Some (AF_INET6, datagram) \<and>
       (let data = take frombuf_size datagram;
            out = (if accepted query data
              then fst (fold (hop_text E (mt_opt_n m)) (enumerate 0 (blocks_of data)) ([], [])) else [])
        in mtrace_main E opts args = Inr (query, out) \<and>
          (\<forall>behind. show_result E (mt_opt_n m) query AF_INET6 (data @ behind) (of_nat (length data)) = Inr out))))"
proof -
  obtain query where q: "setqid E (ss_family (mt_gw_sock m)) (mt_querypacket m) = Inr query" "length query = 76"
    using setqid_total [OF query_length [OF assms]] by blast
  have run: "mtrace_main E opts args = mtrace_loop E (replicate frombuf_size 0) m" using assms by (simp add: mtrace_main_def)
  have small: "length (take frombuf_size r) < 2 ^ 32" for r by (simp add: frombuf_size_def)
  note shown = show_exact [OF q(2) small, of E "mt_opt_n m"]
  consider (fails) "\<not> me_sendto E query \<or> \<not> me_malloc E (nfdsp (mt_mldsoc m)) \<or> me_select E (mt_waittime m) < 0"
    | (timeout) "me_sendto E query" "me_malloc E (nfdsp (mt_mldsoc m))" "me_select E (mt_waittime m) = 0"
    | (other) "me_sendto E query" "me_malloc E (nfdsp (mt_mldsoc m))" "0 < me_select E (mt_waittime m)"
        "\<forall>datagram. me_recvfrom E query \<noteq> Some (AF_INET6, datagram)"
    | (answer) datagram where "me_sendto E query" "me_malloc E (nfdsp (mt_mldsoc m))" "0 < me_select E (mt_waittime m)"
        "me_recvfrom E query = Some (AF_INET6, datagram)"
    by (cases "me_select E (mt_waittime m)" "0 :: int" rule: linorder_cases) blast+
  then show ?thesis
  proof cases
    case fails
    then have "mtrace_main E opts args = Inl ExitFailure" using q(1) by (auto simp: run mtrace_loop_def)
    with fails q(2) show ?thesis by blast
  next
    case timeout
    then have "mtrace_main E opts args = Inr (query, ''Timeout'' @ nl)" using q(1) by (simp add: run mtrace_loop_def)
    with timeout q(2) show ?thesis by blast
  next
    case other
    then have "mtrace_main E opts args = Inl ExitFailure"
      using q(1) by (auto simp: run mtrace_loop_def show_result_def Let_def split: option.split)
    with other q(2) show ?thesis by blast
  next
    case answer
    then show ?thesis
      using q shown by (intro exI [of _ query]) (simp add: run mtrace_loop_def show_result_def Let_def)
  qed
qed

text \<open>The route of one router is printed; a response that is cut off in its block is not.\<close>

theorem mtrace_answer_exact_witness:
  "(\<exists>query. mtrace_main (ex_me (\<lambda>q. Some (AF_INET6, trace_response (replicate 23 0) [ex_block] q))) [] [''src'', ''grp''] =
      Inr (query, ''  0  host(host/1->2) PIM NOERR'' @ nl)) \<and>
   (\<exists>query. mtrace_main (ex_me (\<lambda>q. Some (AF_INET6, [MLD_MTRACE_RESP]))) [] [''src'', ''grp''] = Inr (query, []))"
proof
  let ?E = "ex_me (\<lambda>q. Some (AF_INET6, trace_response (replicate 23 0) [ex_block] q))"
  have m: "mt_opt_n ex_m2 = False" by (simp add: ex_m2_def ex_m1_def ex_m_def mtrace_init_def)
  have env: "me_sendto (ex_me r) q" "me_malloc (ex_me r) n" "me_select (ex_me r) t = 1" "me_recvfrom (ex_me r) = r"
    for r q n t by (simp_all add: ex_me_def)
  have line: "hop_text ?E False (0, ex_block) ([], []) = (''  0  host(host/1->2) PIM NOERR'' @ nl, ''host'')"
    by code_simp
  have shown: "accepted q (take frombuf_size (trace_response (replicate 23 0) [ex_block] q)) \<and>
      blocks_of (take frombuf_size (trace_response (replicate 23 0) [ex_block] q)) = [ex_block]" if q: "length q = 76" for q
  proof -
    let ?pre = "(MLD_MTRACE_RESP # replicate 23 0) @ drop 24 q"
    have all: "take frombuf_size (trace_response (replicate 23 0) [ex_block] q) = ?pre @ concat [ex_block]"
      using q by (simp add: trace_response_def frombuf_size_def sizeof_mld1_def ex_block_def)
    have "list_all (\<lambda>b. length b = 60) [ex_block]" "length ?pre = 76" using q by (simp_all add: ex_block_def)
    with blocks_of_concat [of ?pre "[ex_block]"] q show ?thesis unfolding all by (auto simp: accepted_def)
  qed
  from mtrace_answer_exact [OF ex_start, of "\<lambda>q. Some (AF_INET6, trace_response (replicate 23 0) [ex_block] q)"]
  show "\<exists>query. mtrace_main ?E [] [''src'', ''grp''] = Inr (query, ''  0  host(host/1->2) PIM NOERR'' @ nl)"
    using shown line by (auto simp: env m Let_def)
  have "\<not> accepted q [MLD_MTRACE_RESP]" for q by (simp add: accepted_def)
  with mtrace_answer_exact [OF ex_start, of "\<lambda>q. Some (AF_INET6, [MLD_MTRACE_RESP])"]
  show "\<exists>query. mtrace_main (ex_me (\<lambda>q. Some (AF_INET6, [MLD_MTRACE_RESP]))) [] [''src'', ''grp''] = Inr (query, [])"
    by (auto simp: env m Let_def frombuf_size_def)
qed

end
