(* ===== verification/Spec2Isabelle.thy ===== *)
theory Spec2Isabelle
  imports Bpf_Props Bpf_Dump Process_Setup Log_Tables Proc_Ifaces Mtrace6_Result
begin

text \<open>
  ecmh (Easy Cast du Multi Hub) is a user-space forwarder of IPv6 multicast. It sends MLD queries on
  every interface, learns from the MLD reports of the hosts which interface wants which group and
  source, forwards every multicast packet to the interfaces that asked for it, and reports groups
  on towards the other interfaces. This development models the daemon of \<open>src/src\<close> in its default
  Linux build (packet socket, \<open>getifaddrs\<close>, MLDv2) on a 64-bit little-endian machine, the code that
  only the BPF build has, and the tool \<open>mtrace6\<close>, which traces the way of a group's packets.

  \<^bold>\<open>Parts of the program and their theories.\<close>

  \<^item> \<open>Ecmh_Prelude\<close>: C integers as words, faults, sequencing of fallible steps (\<open>rbind\<close>, \<open>foldM\<close>),
    reads and writes of byte buffers with bounds (\<open>rd\<close>, \<open>wr\<close>), byte order, list lemmas.
  \<^item> \<open>Linklist\<close> (\<open>linklist.c\<close>, \<open>linklist.h\<close>): the doubly linked list as a pointer program on a heap,
    with both loop macros, and the counted list (\<open>nodes\<close>, \<open>count\<close>) that it implements. The locale
    \<open>list_provider\<close> is the interface; \<open>heap_list\<close> interprets it on the pointer program. The other
    theories use the counted list.
  \<^item> \<open>Inet6\<close>: addresses, protocol numbers and the layouts of \<open>mld.h\<close>. \<open>Checksum\<close>: \<open>inchksum\<close> and
    \<open>ipv6_checksum\<close>. \<open>Log_Tables\<close>: the tables and lookups that name ICMPv6 messages.
  \<^item> \<open>Ecmh_State\<close>: the structs \<open>subscrnode\<close>, \<open>grpintnode\<close>, \<open>groupnode\<close>, \<open>intnode\<close> and \<open>conf\<close> as records,
    the outside world, and the locale \<open>keyed_table\<close> of lookups in a list without duplicate keys.
  \<^item> \<open>Subscr\<close>, \<open>Grpint\<close>, \<open>Mcast_Groups\<close> (\<open>subscr.c\<close>, \<open>grpint.c\<close>, \<open>groups.c\<close>): the three levels of tables, each
    an interpretation of \<open>keyed_table\<close>. \<open>membership\<close> is the abstract table that they stand for: a
    map from group, interface and source to the subscription.
  \<^item> \<open>Interfaces\<close> (\<open>interfaces.c\<close>): the array of interfaces and the MLD version of each.
    \<open>Update_Ifaces\<close>: \<open>update_interfaces\<close> with \<open>getifaddrs\<close>. \<open>Proc_Ifaces\<close>: the variant that parses
    \<open>/proc/net/if_inet6\<close>, with \<open>nibble2int\<close> and the conversions of \<open>fgets\<close> and \<open>sscanf\<close> that it needs.
  \<^item> \<open>Send\<close>: \<open>sendpacket6\<close>, \<open>icmp6_send\<close>, \<open>mld_send_query\<close>, \<open>mld1_send_report\<close>. \<open>Mld2_Report\<close>:
    \<open>mld2_send_report\<close>, statement by statement on the bytes of its packet, with \<open>mld_send_report\<close> and
    \<open>mld_send_report_all\<close>; the locale \<open>sender\<close> is the contract of everything that sends.
    \<open>Report_Content\<close>: what the packet holds in the end.
  \<^item> \<open>Mld_Recv\<close>: the four handlers \<open>l4_ipv6_icmpv6_mld1_report\<close>, \<open>..._mld1_reduction\<close>,
    \<open>..._mld2_report\<close> and \<open>..._mld_query\<close>. \<open>Forward\<close>: \<open>l2_ethtype\<close>, \<open>l3_ipv4\<close>, \<open>l3_ipv6\<close>,
    \<open>l4_ipv6_icmpv6\<close>, \<open>l4_ipv6_multicast\<close>. \<open>Timeout\<close>: \<open>timeout\<close> and \<open>send_mld_querys\<close>.
  \<^item> \<open>Packet_Path\<close> and \<open>Packet_Safety\<close>: what holds along the whole path of a packet. \<open>Report_Fits\<close>: when
    a report is handled without a fault outside the MLDv1-only mode, where it is passed on in MLDv2 reports
    that must fit their packets (\<open>reports_fit\<close>).
  \<^item> \<open>Daemon\<close>: \<open>init\<close>, the options and the start-up of \<open>main\<close>, \<open>handleinterfaces\<close>, the signal handlers,
    the main loop as a system of events (locales \<open>event_system\<close>, \<open>total_event_system\<close>), the shutdown.
  \<^item> \<open>Stat_Dump\<close>: \<open>sigusr1\<close>, which writes the tables and counters as text into the dump file.
    \<open>Process_Setup\<close> (\<open>common.c\<close> and \<open>main\<close>): where \<open>dolog\<close> writes, the pid file, and the process itself:
    fork, signal handlers, user and group.
  \<^item> \<open>Bpf\<close>: what only the BPF build has, on the records \<open>bpf_conf\<close> and \<open>bpf_int\<close>, which extends \<open>intnode\<close> by the
    fields of that build: \<open>int_create_bpf\<close>, \<open>int_find_ipv4\<close>, \<open>local_find\<close>, \<open>local_update\<close>, the IPv4 branch of
    \<open>update_interfaces\<close>, \<open>sendpacket6\<close> with its tunnels, the loop over the packets of a \<open>read\<close>.
    \<open>Bpf_Discovery\<close>: \<open>int_create\<close>, \<open>int_destroy\<close> and \<open>update_interfaces\<close> of that build, and \<open>l3_ipv4\<close> with
    \<open>l4_ipv4_proto41\<close>.
  \<^item> \<open>Bpf_Daemon\<close>: the process of the BPF build, on the record \<open>bpf_state\<close>: its start and options, the
    packet path, the select loop of \<open>handleinterfaces\<close>, the timeout and the main loop. What both builds
    share (the packet path behind \<open>l2_ethtype\<close>, the timeout of the tables, the queries) is run on the
    \<open>common\<close> fields by \<open>run_common\<close>, which then writes the packets sent to the devices as frames.
    \<open>Bpf_Dump\<close>: \<open>sigusr1\<close> and the shutdown of this build. \<open>Bpf_Ends\<close>: its loops end. \<open>Bpf_Props\<close>: its
    properties.
  \<^item> \<open>Trace_Header\<close> (\<open>trace.h\<close>): the structures of a trace and the macros for masks. \<open>Mtrace6_Query\<close>
    (\<open>tools/mtrace6/mtrace6.c\<close>): the options, \<open>open_socket\<close> and \<open>make_packet\<close> on the record \<open>mtrace\<close> of the
    program's static variables. \<open>Mtrace6_Result\<close>: \<open>mtrace_loop\<close> and \<open>show_result\<close>, with the text on the
    standard output as the result.
  \<^item> \<open>Roundtrip\<close>: from one daemon's sender into another daemon's tables. \<open>Examples\<close>: concrete states.
    \<open>Table_Props\<close>, \<open>Mld_Props\<close>, \<open>Wire_Props\<close> and this theory: the properties.

  \<^bold>\<open>State and effects.\<close> The state \<open>world\<close> is \<open>struct conf\<close> with the clock, the answers of the coming
  allocations (\<open>w_calloc\<close>; allocations succeed once the list is used up), what was handed to \<open>sendto\<close>
  (\<open>w_sent\<close>), the static \<open>last_update\<close> and \<open>g_needs_timeout\<close>. A pointer to an interface is its position in
  the array; a pointer into the receive buffer is an offset. An operation that can fault returns
  \<open>Inl\<close>: \<open>OutOfBounds\<close> for an access outside of an object, \<open>NullDeref\<close>, or \<open>ExitFailure\<close> for \<open>exit\<close> and the
  error returns of \<open>main\<close>. The system calls are the parameter \<open>env\<close>; what is asked of them is
  \<open>env_ok\<close> (IPv6 addresses have sixteen bytes) and, for what is to return, \<open>discovery_ok\<close>: no interface
  has the index \<open>2 ^ 32 - 1\<close>, and where the interfaces have IPv4 addresses, the platform lets the four bytes
  behind a local struct be read (\<open>env_behind\<close>); the code copies them, and without \<open>env_behind\<close> that is the
  fault \<open>OutOfBounds\<close>. The clock stands still while one event is handled, and a signal is handled between
  two rounds of the loop or while the loop waits.

  \<^bold>\<open>What is shown.\<close>

  \<^item> The process: in every run the tables stay well-formed (\<open>daemon_always_ok\<close>); in the MLDv1-only
    mode no input makes it fault while there is memory (\<open>mld1only_never_faults\<close>); what is not
    refreshed expires (\<open>unrefreshed_expires\<close>); options, shutdown, the totals of the dump
    (\<open>sigusr1_totals\<close>), and the group that the drop of privileges keeps (\<open>main_keeps_root_group\<close>).
  \<^item> Refinement: the MLD handlers and the timeout are operations on \<open>membership\<close>
    (\<open>mld1_report_subscribes\<close>, \<open>mld1_reduction_unsubscribes\<close>, \<open>mld2_report_refines\<close>, \<open>timeout_expires\<close>),
    and the pointer lists implement the counted lists (\<open>list_program_refines\<close>).
  \<^item> The wire: a packet goes to exactly the interfaces that asked for it
    (\<open>multicast_forwards_exactly\<close>), queries and reports are well-formed packets whose checksum
    verifies, and a report that one daemon sends enters the right groups at another, in every mode
    that is meant to listen to it (\<open>mld1_report_roundtrip\<close>, \<open>mld2_report_roundtrip\<close>).
  \<^item> Discovery: both variants of \<open>update_interfaces\<close> agree on hosts whose flags of interfaces do not matter,
    since only one of them looks at the flags (\<open>proc_discovery_agrees\<close>); an IPv4 address makes the other
    read behind a struct (\<open>ipv4_address_overreads\<close>).
  \<^item> The BPF build: discovery keeps its state well-formed and ends (\<open>update_interfaces_bpf_keeps\<close>, with
    \<open>int_create_bpf_ready\<close>); in every run of its process the tables stay well-formed
    (\<open>bpf_daemon_always_ok\<close>) and no step hangs (\<open>bpf_steps_end\<close>); a packet leaves in one frame for each interface that wants it
    (\<open>bpf_multicast_frames\<close>); tunnelled packets are well-formed (\<open>proto41_wire\<close>), are attributed to their
    tunnel (\<open>proto41_decapsulates\<close>) and come out of it as they went in (\<open>tunnel_roundtrip\<close>), so that a report
    sent into a tunnel subscribes it at the other end (\<open>tunnelled_report_subscribes\<close>); only the
    first packet of a read is handled (\<open>bpf_reads_first\<close>), and an interface that goes away stops the
    daemon (\<open>destroyed_device_stops\<close>).
  \<^item> The trace tool: its query says what the options and arguments say (\<open>query_fields\<close>), it prints what
    the routers answered and reads nothing behind it (\<open>mtrace_answer_exact\<close>, \<open>mtrace_shows_route\<close>).
  \<^item> Bounds, termination and equivalence of the single routines, and the places where the code
    leaves its buffers or does not do what its comments say.

  \<^bold>\<open>Termination and fuel.\<close> The loops of the pointer lists take fuel, since a damaged list may be
  cyclic; one more than the number of nodes is enough, and the theorems give the result for every
  such fuel. So does the search for a free BPF device, which ends at the first device that is not
  busy, the loop over the packets of a read, for which two rounds are enough, and the loop over the
  interfaces of the BPF build, which can appear meanwhile, but not more than \<open>2 ^ 32\<close> of them: every
  step of that build ends (\<open>bpf_steps_end\<close>). The walk along
  extension headers, the loop over the blocks of a trace and that of \<open>MASK_TO_VAL\<close> terminate by their
  measures. Every other loop is structural or runs over a list.

  \<^bold>\<open>Not modelled.\<close> The calls of \<open>dolog\<close> within the other routines, and reads that only feed them;
  \<open>setsid\<close>, the closing of the standard streams and the priorities in \<open>main\<close>; \<open>free\<close>, except in
  \<open>Linklist\<close>. In the BPF build three uses of memory that was given up are the fault \<open>OutOfBounds\<close>, with
  which a run of the model ends. When \<open>realloc\<close> moves the array of interfaces (\<open>bs_moves\<close>) while local
  addresses or masters of tunnels point into it, \<open>int_resize_bpf\<close> faults at once, although the code goes on
  with the indeterminate pointers until it uses them; so nothing is claimed of a run after such a move.
  When the buffer grows, or the array moves, while a packet out of a tunnel is handled, \<open>l4_ipv4_proto41\<close>
  faults where the code reads the freed packet or the stale interface. And a descriptor of \<open>FD_SETSIZE\<close> or
  more faults in \<open>bpf_select\<close>. What has to hold for none of this to happen is \<open>sys_fits\<close> and \<open>buffers_fit\<close>.
  \<open>l4_ipv4_icmp\<close> only logs and is compiled with \<open>ECMH_SUPPORT_IPV4\<close> only, with
  which the program does not compile. Of \<open>mtrace6\<close> only the warnings on the standard error are left out.
\<close>

section \<open>The process\<close>

text \<open>
  C1: The tables of the daemon are well-formed at every moment. From the start of \<open>main\<close> with any
  options, through any sequence of signals, clock changes, timeouts and packets of any content,
  and with any answers of the system in between, as long as the process runs: the interface array
  has the size it claims and every entry in use stands at its index, groups, interfaces and
  sources have no duplicates, the counters of the lists agree with the lists (but a list of
  subscriptions that a reduction emptied counts -2), no node-local or link-local group is entered, and
  the receive buffer keeps its 32 KiB.
\<close>

theorem daemon_always_ok:
  assumes "env_ok E" and "main_boot E getpwnam opts dumpfile sock now cs = Inr s"
    and "list_all event_ok es" and "foldM daemon_step es s = Inr s'"
  shows "daemon_inv s'"
  by (rule process.run_inv [OF main_boot_inv(1) [OF assms(1,2)] assms(3,4)])

lemma main_boot_total:
  assumes "env_ok E" and "discovery_ok E" and "handle_options getpwnam opts (w0, (0, 0)) = Inr (w, ids)"
    and "init (blank now []) = Inr w0" and "0 \<le> sock"
  shows "\<exists>s. main_boot E getpwnam opts True sock now [] = Inr s"
proof -
  have k: "opt_keeps w0 w" using handle_options_run [OF assms(3)] by simp
  note i = init_state [OF assms(4)]
  define u where "u = w\<lparr>rawsocket := sock, buffer := replicate (unat (bufferlen w)) 0\<rparr>"
  have mem: "w_calloc w = []" using k i(7) by (simp add: opt_keeps_def)
  have ok: "tables_ok u"
    using k i by (simp add: u_def opt_keeps_def tables_ok_def ints_ok_def groups_ok_def cl_exact_ops)
  then obtain v where v: "update_interfaces E None u = Inr v"
    using update_interfaces_total [of u E None] assms(1,2) mem by (auto simp: tables_ok_def u_def)
  then obtain w' where "send_mld_querys E v = Inr w'"
    using send_mld_querys_total update_interfaces_inv(1) [OF ok assms(1) v] by (auto simp: tables_ok_def)
  with v assms(3-5) calloc_Nil [OF mem] show ?thesis
    by (auto simp: main_boot_def main_start_def u_def)
qed

lemma ex_boot: "\<exists>s. main_boot ex_env (\<lambda>_. None) [Opt_1] True 3 1000 [] = Inr s"
proof -
  obtain w0 where w0: "init (blank 1000 []) = Inr w0"
    by (simp add: init_def calloc_def blank_def Let_def)
  have "\<exists>w ids. handle_options (\<lambda>_. None) [Opt_1] (w0, (0, 0)) = Inr (w, ids)" by (simp add: handle_option_def)
  then show ?thesis using main_boot_total [OF ex_env_ok _ w0] by fastforce
qed

definition ex_events :: "(env \<times> event) list" where
  "ex_events = [(ex_env, Clock 2000), (ex_env, SigAlrm), (ex_env, Round (Recv ex_data 1 0 1 (htons ETH_P_IPV6)))]"

lemma ex_events_safe: "list_all safe_event ex_events"
  by (simp add: ex_events_def safe_event_def recv_ok_def frame_ok_def ex_data_def ip6_hdr_def
      le16_bytes_def ex_addr_def, simp add: le16_def htons_def layout)

theorem daemon_always_ok_witness:
  "\<exists>s s'. main_boot ex_env (\<lambda>_. None) [Opt_1] True 3 1000 [] = Inr s \<and>
     foldM daemon_step ex_events s = Inr s' \<and> daemon_inv s'"
proof -
  obtain s where s: "main_boot ex_env (\<lambda>_. None) [Opt_1] True 3 1000 [] = Inr s" using ex_boot by blast
  have "fst (opt_mode (False, False) [Opt_1])" by (simp add: opt_mode_def mode_opts_def)
  then have "safe_inv s" using main_boot_inv(2) [OF ex_env_ok(1) s] by simp
  then obtain s' where s': "foldM daemon_step ex_events s = Inr s'"
    using safe.run_total [OF _ ex_events_safe] by blast
  have "list_all event_ok ex_events" by (simp add: ex_events_def event_ok_def)
  from daemon_always_ok [OF ex_env_ok(1) s this s'] s s' show ?thesis by blast
qed

text \<open>
  C2: In the MLDv1-only mode no input can crash the daemon while there is memory. Started with \<open>-1\<close>
  as its last mode option, it handles any sequence of clock changes, timeouts, signals other than
  \<open>SIGUSR2\<close>, and frames without a single access outside of its buffers and arrays, whatever the
  frames hold, provided that an IPv6 frame is at most 1548 bytes long and its header tells its true
  length. Of the interfaces it is assumed (\<open>discovery_ok\<close>) that none has the index \<open>2 ^ 32 - 1\<close>, and that
  those that are looked at have no other than IPv6 addresses, or the platform lets the four bytes behind
  a local \<open>struct sockaddr_in\<close> be read: of an IPv4 address \<open>update_interfaces\<close> copies sixteen bytes, four of
  them from there (\<open>ipv4_address_overreads\<close>).
\<close>

theorem mld1only_never_faults:
  assumes "env_ok E" and "main_boot E getpwnam opts dumpfile sock now [] = Inr s"
    and "fst (opt_mode (False, False) opts)" and "list_all safe_event es"
  shows "\<exists>s'. foldM daemon_step es s = Inr s' \<and> daemon_inv s'"
  using safe.run_total [OF main_boot_inv(2) [OF assms(1,2,3) refl] assms(4)] by (auto simp: safe_inv_def)

theorem mld1only_never_faults_witness:
  "\<exists>s s'. main_boot ex_env (\<lambda>_. None) [Opt_1] True 3 1000 [] = Inr s \<and> foldM daemon_step ex_events s = Inr s'"
proof -
  obtain s where s: "main_boot ex_env (\<lambda>_. None) [Opt_1] True 3 1000 [] = Inr s" using ex_boot by blast
  have "fst (opt_mode (False, False) [Opt_1])" by (simp add: opt_mode_def mode_opts_def)
  from mld1only_never_faults [OF ex_env_ok(1) s this ex_events_safe] s show ?thesis by blast
qed


definition ex_running :: world where
  "ex_running = (ex_world [])\<lparr>buffer := replicate 32768 0\<rparr>"


lemma ex_running_member: "membership ex_running (ex_group 1) 2 in6addr_any = Some ex_sub"
  by (simp add: ex_running_def membership_def grpint_of_def group_find_def grpint_find_def subscr_find_def
      IN6_ARE_ADDR_EQUAL_def ex_gr_def ex_gi_def ex_sub_def)


text \<open>
  The last of the options \<open>-1\<close> and \<open>-2\<close> decides the mode, and the two modes are never both on.
\<close>

theorem mode_options_exclusive:
  assumes "init (blank now cs) = Inr w" and "handle_options getpwnam opts (w, (0, 0)) = Inr (w', ids)"
  shows "(mld1only w', mld2only w') = opt_mode (False, False) opts \<and> \<not> (mld1only w' \<and> mld2only w')"
proof -
  have m: "(mld1only w', mld2only w') = opt_mode (False, False) opts"
    using handle_options_run [OF assms(2)] init_state(5,6) [OF assms(1)] by simp
  have "\<not> (fst (opt_mode (False, False) opts) \<and> snd (opt_mode (False, False) opts))"
    by (simp add: opt_mode_def split: list.split)
  with m show ?thesis by (metis fst_conv snd_conv)
qed

theorem mode_options_exclusive_witness:
  "\<exists>w w' ids. init (blank 0 []) = Inr w \<and> handle_options (\<lambda>_. None) [Opt_2, Opt_v, Opt_1] (w, (0, 0)) = Inr (w', ids) \<and>
     mld1only w' \<and> \<not> mld2only w'"
proof -
  obtain w where w: "init (blank 0 []) = Inr w" by (simp add: init_def calloc_def blank_def Let_def)
  obtain w' ids where o: "handle_options (\<lambda>_. None) [Opt_2, Opt_v, Opt_1] (w, (0, 0)) = Inr (w', ids)"
    by (simp add: handle_option_def)
  from mode_options_exclusive [OF w o] w o show ?thesis
    by (auto simp: opt_mode_def mode_opts_def)
qed

text \<open>
  C36: Dropping privileges leaves the daemon in root's group. When \<open>main\<close> is started by root with \<open>-u\<close> for
  a user whose user and group are not root's, and gets as far as its loop, then it runs as that user,
  with no way back, but real, effective and saved group are still 0: \<open>setgid\<close> comes after \<open>setuid\<close>, when
  the process may no longer change its group, and its failure is not noticed. The signal handlers
  and, where it could be written, the pid file are in place.
\<close>

theorem main_keeps_root_group:
  assumes "main_process E getpwnam opts f writable dumpfile sock now cs p = Inr (Inr (w, p'))" and "ps_cred p = root"
    and "init (blank now cs) = Inr w0" and "handle_options getpwnam opts (w0, (0, 0)) = Inr (w1, (uid, gid))"
    and "uid \<noteq> 0" and "gid \<noteq> 0"
  shows "ps_cred p' = \<lparr>c_ruid = uid, c_euid = uid, c_suid = uid, c_rgid = 0, c_egid = 0, c_sgid = 0\<rparr> \<and>
    ps_handler p' SIGTERM = Some H_cleanpid \<and> ps_handler p' SIGALRM = Some H_timeout_signal \<and>
    (writable \<longrightarrow> ps_pidfile p' = Some (fmt_i (ps_pid p')))"
proof -
  from assms(1,3,4) obtain p1 where d: "daemonize_process (daemonize w1) f p = Inr p1"
    and p': "p' = (savepid writable (install_handlers p1))
      \<lparr>ps_cred := drop_privileges (uid, gid) (ps_cred (savepid writable (install_handlers p1)))\<rparr>"
    by (auto simp: main_process_def Let_def split: sum.splits)
  have "ps_cred p1 = root"
    using d assms(2) by (auto simp: daemonize_process_def split: if_splits fork_res.splits)
  then have "drop_privileges (uid, gid) (ps_cred (savepid writable (install_handlers p1))) =
      \<lparr>c_ruid = uid, c_euid = uid, c_suid = uid, c_rgid = 0, c_egid = 0, c_sgid = 0\<rparr>"
    using assms(5,6) by (simp add: drop_privileges_def setuid_def setgid_def savepid_def root_def)
  then show ?thesis
    unfolding p' by (simp add: savepid_def handlers_installed)
qed

theorem main_keeps_root_group_witness:
  "\<exists>w p'. main_process ex_env (\<lambda>_. Some (1000, 1000)) [Opt_u ''nobody''] (ForkChild 42) True True 3 1000 []
      \<lparr>ps_pid = 1, ps_cred = root, ps_pidfile = None, ps_handler = (\<lambda>_. None)\<rparr> = Inr (Inr (w, p')) \<and>
    c_euid (ps_cred p') = 1000 \<and> c_egid (ps_cred p') = 0"
proof -
  obtain w0 where w0: "init (blank 1000 []) = Inr w0"
    by (simp add: init_def calloc_def blank_def Let_def)
  have o: "handle_options (\<lambda>_. Some (1000, 1000)) [Opt_u ''nobody''] (w0, (0, 0)) = Inr (w0, (1000, 1000))"
    by (simp add: handle_option_def)
  obtain s where "main_boot ex_env (\<lambda>_. Some (1000, 1000)) [Opt_u ''nobody''] True 3 1000 [] = Inr s"
    using main_boot_total [OF ex_env_ok o w0, of 3] by auto
  from main_process_boot [OF this, of 42 True "\<lparr>ps_pid = 1, ps_cred = root, ps_pidfile = None, ps_handler = (\<lambda>_. None)\<rparr>"]
  obtain p' where m: "main_process ex_env (\<lambda>_. Some (1000, 1000)) [Opt_u ''nobody''] (ForkChild 42) True True 3 1000 []
      \<lparr>ps_pid = 1, ps_cred = root, ps_pidfile = None, ps_handler = (\<lambda>_. None)\<rparr> = Inr (Inr (fst s, p'))" by blast
  from main_keeps_root_group [OF m _ w0 o] have "c_euid (ps_cred p') = 1000 \<and> c_egid (ps_cred p') = 0" by simp
  with m show ?thesis by blast
qed

lemma fold_destroy:
  assumes "set js \<subseteq> {..<length (ints w)}"
  shows "length (ints (fold (\<lambda>j u. if in_mtu (ints u ! j) = 0 then u else int_destroy j u) js w)) = length (ints w) \<and>
    groups (fold (\<lambda>j u. if in_mtu (ints u ! j) = 0 then u else int_destroy j u) js w) = groups w \<and>
    (\<forall>k < length (ints w). in_mtu (ints (fold (\<lambda>j u. if in_mtu (ints u ! j) = 0 then u else int_destroy j u) js w) ! k) =
       (if k \<in> set js then 0 else in_mtu (ints w ! k)))"
  using assms
proof (induction js arbitrary: w)
  case (Cons j js)
  then show ?case by (auto simp: int_destroy_def upd_int_nth)
qed simp

text \<open>
  The shutdown leaves nothing behind: no group, no subscription, and no interface in use.
\<close>

theorem shutdown_clears:
  assumes "ints_ok w"
  shows "nodes (groups (shutdown w)) = [] \<and> (\<forall>mca k a. membership (shutdown w) mca k a = None) \<and>
    (\<forall>k < length (ints w). in_mtu (ints (shutdown w) ! k) = 0)"
proof -
  define w1 where "w1 = w\<lparr>groups := cl_delete_all (groups w)\<rparr>"
  have len: "length (ints w1) = unat (maxinterfaces w1)" using assms by (simp add: w1_def ints_ok_def)
  then have "set [0..<unat (maxinterfaces w1)] \<subseteq> {..<length (ints w1)}" by auto
  from fold_destroy [OF this] len
  have f: "groups (shutdown w) = cl_delete_all (groups w)" "\<forall>k < length (ints w). in_mtu (ints (shutdown w) ! k) = 0"
    by (auto simp: shutdown_def w1_def Let_def)
  then show ?thesis by (simp add: membership_def grpint_of_def group_find_def)
qed

theorem shutdown_clears_witness: "nodes (groups (shutdown (ex_world []))) = []"
  using shutdown_clears [OF ex_ints_ok, of "[]"] by blast

section \<open>The dump\<close>

text \<open>
  C32: The totals of the dump are those of the tables. The dump ends with the statistics, and there
  the number of subscriptions is the number of entries of the membership table on interfaces in
  use, each counted once, and the number of interfaces is the number of array entries in use (both
  modulo \<open>2 ^ 32\<close>).
\<close>

theorem sigusr1_totals:
  assumes "groups_ok (groups w)"
  shows "\<exists>pre. sigusr1 D i w = pre @ dump_statistics D w
    (of_nat (card {(mca, k, a). membership w mca k a \<noteq> None \<and> int_find (ucast k) w \<noteq> None}))
    (of_nat (card {j. j < unat (maxinterfaces w) \<and> in_mtu (ints w ! j) \<noteq> 0}))"
proof -
  have "length (dump_keys w) = card {(mca, k, a). membership w mca k a \<noteq> None \<and> int_find (ucast k) w \<noteq> None}"
    using distinct_card [OF dump_keys_distinct [OF assms]] dump_keys_set [OF assms] by simp
  moreover have "length (filter (\<lambda>j. in_mtu (ints w ! j) \<noteq> 0) [0..<unat (maxinterfaces w)])
      = card {j. j < unat (maxinterfaces w) \<and> in_mtu (ints w ! j) \<noteq> 0}"
    using distinct_card [of "filter (\<lambda>j. in_mtu (ints w ! j) \<noteq> 0) [0..<unat (maxinterfaces w)]"]
    by (simp add: conj_commute)
  ultimately show ?thesis using sigusr1_ends [of D i w] by simp
qed

theorem sigusr1_totals_witness:
  "\<exists>D pre. de_version D = ''1'' \<and> length (nodes (groups (ex_world []))) = 1 \<and>
     sigusr1 D 10 (ex_world []) = pre @ dump_statistics D (ex_world []) 1 2"
proof -
  define D where "D = \<lparr>de_ntop = (\<lambda>_. ''addr''), de_date = (\<lambda>_. ''date''), de_version = ''1'', de_githash = ''0''\<rparr>"
  let ?w = "ex_world []"
  have ok: "groups_ok (groups ?w)" by simp
  have "dump_keys ?w = [(ex_group 1, 2, in6addr_any)]"
    by (simp add: dump_keys_def gr_keys_def gi_keys_def int_find_def ex_gr_def ex_gi_def ex_sub_def ex_int_def)
  then have subs: "{(mca, k, a). membership ?w mca k a \<noteq> None \<and> int_find (ucast k) ?w \<noteq> None} = {(ex_group 1, 2, in6addr_any)}"
    using dump_keys_set [OF ok] by simp
  have "{j. j < unat (maxinterfaces ?w) \<and> in_mtu (ints ?w ! j) \<noteq> 0} = set (filter (\<lambda>j. in_mtu (ints ?w ! j) \<noteq> 0) [0..<3])"
    by auto
  also have "\<dots> = {1, 2}" by (simp add: upt_rec ex_int_def int_zero_def, simp add: numeral_2_eq_2)
  finally have "\<exists>pre. sigusr1 D 10 ?w = pre @ dump_statistics D ?w 1 2"
    using sigusr1_totals [OF ok, of D 10] unfolding subs by simp
  then show ?thesis by (intro exI [of _ D]) (simp add: D_def)
qed

end
